(* ===== verification/Prelude.thy ===== *)
theory Prelude
  imports Main "HOL-Library.Word" "HOL-Library.Multiset" "HOL-Library.AList"
begin

text \<open>
  Shared vocabulary of the development: names for the machine types of the Rust sources, the
  pieces of the Rust standard library that several modules use (big-endian byte encodings,
  string literals, \<open>position\<close>, removal by index), and the generic facts on lists and
  sorting that carry the component proofs.

  Conventions.
  \<^item> A Rust \<open>u8\<close>/\<open>u16\<close>/\<open>u32\<close>/\<open>U256\<close> is a word of that width. A \<open>usize\<close> that counts
    elements of a list is a \<open>nat\<close>.
  \<^item> A \<open>Duration\<close> or an \<open>Instant\<close> is a \<open>nat\<close> of nanoseconds; a clock is read once by the
    caller and passed in as an argument.
  \<^item> A Rust \<open>str\<close> is its UTF-8 bytes, which is what it is in memory.
\<close>

unbundle bit_operations_syntax

type_synonym u8 = "8 word"
type_synonym u16 = "16 word"
type_synonym u32 = "32 word"
type_synonym u256 = "256 word"
type_synonym bytes = "u8 list"
type_synonym duration = nat
type_synonym instant = nat

named_theorems arr_simps \<open>reading and writing fixed-layout byte fields\<close>
named_theorems inv_intros \<open>operations keep the invariant of their component\<close>

text \<open>\<open>usize::MAX + 1\<close> on the 64-bit targets the crate is built for.\<close>

definition usize_size :: nat where
  "usize_size = 2 ^ 64"

definition millis :: "nat \<Rightarrow> duration" where
  "millis n = n * 1000000"

definition secs :: "nat \<Rightarrow> duration" where
  "secs n = n * 1000000000"

text \<open>A string literal of the source, as UTF-8 bytes (all of them are ASCII).\<close>

definition lit :: "string \<Rightarrow> bytes" where
  "lit s = map (\<lambda>c. word_of_nat (of_char c)) s"

subsection \<open>Slices and iterators\<close>

text \<open>\<open>Iterator::position\<close>.\<close>

fun position :: "('a \<Rightarrow> bool) \<Rightarrow> 'a list \<Rightarrow> nat option" where
  "position P [] = None"
| "position P (x # xs) = (if P x then Some 0 else map_option Suc (position P xs))"

text \<open>\<open>VecDeque::remove\<close> and \<open>Vec::remove\<close> at an index that is in range.\<close>

definition remove_at :: "nat \<Rightarrow> 'a list \<Rightarrow> 'a list" where
  "remove_at i xs = take i xs @ drop (Suc i) xs"

text \<open>\<open>slice::chunks\<close>, for a positive chunk size.\<close>

function chunks :: "nat \<Rightarrow> 'a list \<Rightarrow> 'a list list" where
  "chunks n xs = (if n = 0 \<or> xs = [] then [] else take n xs # chunks n (drop n xs))"
  by pat_completeness auto
termination
  by (relation "measure (\<lambda>(n, xs). length xs)") auto

declare chunks.simps [simp del]

subsection \<open>Big-endian integers\<close>

fun to_be :: "nat \<Rightarrow> int \<Rightarrow> bytes" where
  "to_be 0 x = []"
| "to_be (Suc n) x = to_be n (x div 256) @ [word_of_int x]"

definition from_be :: "bytes \<Rightarrow> int" where
  "from_be bs = foldl (\<lambda>acc b. acc * 256 + uint b) 0 bs"

definition u16_to_be_bytes :: "u16 \<Rightarrow> bytes" where
  "u16_to_be_bytes w = to_be 2 (uint w)"

definition u32_to_be_bytes :: "u32 \<Rightarrow> bytes" where
  "u32_to_be_bytes w = to_be 4 (uint w)"

definition u16_from_be_bytes :: "bytes \<Rightarrow> u16" where
  "u16_from_be_bytes bs = word_of_int (from_be bs)"

definition u32_from_be_bytes :: "bytes \<Rightarrow> u32" where
  "u32_from_be_bytes bs = word_of_int (from_be bs)"

subsection \<open>Facts on slices and iterators\<close>

lemma position_None_iff [simp]: "position P xs = None \<longleftrightarrow> (\<forall>x\<in>set xs. \<not> P x)"
  by (induction xs) auto

lemma position_SomeD:
  assumes "position P xs = Some i"
  shows "i < length xs" and "P (xs ! i)" and "\<forall>j<i. \<not> P (xs ! j)"
proof -
  have "i < length xs \<and> P (xs ! i) \<and> (\<forall>j<i. \<not> P (xs ! j))"
    using assms
  proof (induction xs arbitrary: i)
    case (Cons x xs)
    show ?case
    proof (cases "P x")
      case False
      with Cons.prems obtain k where "position P xs = Some k" "i = Suc k" by auto
      with Cons.IH False show ?thesis by (auto simp: nth_Cons split: nat.split)
    qed (use Cons.prems in auto)
  qed simp
  then show "i < length xs" and "P (xs ! i)" and "\<forall>j<i. \<not> P (xs ! j)" by blast+
qed

lemma position_unique:
  assumes "i < length xs" "P (xs ! i)" "\<And>j. j < i \<Longrightarrow> \<not> P (xs ! j)"
  shows "position P xs = Some i"
proof (cases "position P xs")
  case None
  with assms show ?thesis by auto
next
  case (Some k)
  from position_SomeD [OF Some] have k: "P (xs ! k)" "\<forall>j<k. \<not> P (xs ! j)" by auto
  have "k = i"
  proof (rule linorder_cases [of k i])
    assume "k < i" with assms(3) k(1) show ?thesis by blast
  next
    assume "i < k" with assms(2) k(2) show ?thesis by blast
  qed
  with Some show ?thesis by simp
qed

lemma length_remove_at [simp]: "i < length xs \<Longrightarrow> length (remove_at i xs) = length xs - 1"
  by (simp add: remove_at_def)

lemma set_remove_at_subset: "set (remove_at i xs) \<subseteq> set xs"
  by (auto simp: remove_at_def dest: in_set_takeD in_set_dropD)

lemma mset_remove_at: "i < length xs \<Longrightarrow> mset xs = add_mset (xs ! i) (mset (remove_at i xs))"
proof -
  assume "i < length xs"
  then have "xs = take i xs @ xs ! i # drop (Suc i) xs" by (rule id_take_nth_drop)
  then have "mset xs = mset (take i xs @ xs ! i # drop (Suc i) xs)" by simp
  then show ?thesis by (simp add: remove_at_def)
qed

lemma map_remove_at: "map f (remove_at i xs) = remove_at i (map f xs)"
  by (simp add: remove_at_def take_map drop_map)

text \<open>Removing the element an identifier names is filtering it out, when identifiers are unique.\<close>

lemma remove_at_position_filter:
  assumes "distinct (map f xs)" "position (\<lambda>y. f y = a) xs = Some i"
  shows "remove_at i xs = filter (\<lambda>y. f y \<noteq> a) xs"
proof -
  note pos = position_SomeD [OF assms(2)]
  have split: "xs = take i xs @ xs ! i # drop (Suc i) xs" using pos(1) by (rule id_take_nth_drop)
  with assms(1) have d: "distinct (map f (take i xs @ xs ! i # drop (Suc i) xs))" by simp
  then have ne: "f y \<noteq> a" if "y \<in> set (take i xs) \<union> set (drop (Suc i) xs)" for y
    using that pos(2) by (auto simp: image_iff)
  have "filter (\<lambda>y. f y \<noteq> a) xs =
      filter (\<lambda>y. f y \<noteq> a) (take i xs) @ filter (\<lambda>y. f y \<noteq> a) (xs ! i # drop (Suc i) xs)"
    by (subst split) (simp only: filter_append)
  also have "\<dots> = take i xs @ drop (Suc i) xs"
    using ne pos(2) by (simp add: filter_id_conv)
  finally show ?thesis by (simp add: remove_at_def)
qed

lemma chunks_Nil [simp]: "chunks n [] = []"
  by (subst chunks.simps) simp

lemma concat_chunks: "0 < n \<Longrightarrow> concat (chunks n xs) = xs"
proof (induction n xs rule: chunks.induct)
  case (1 n xs)
  then show ?case by (cases "xs = []") (simp_all add: chunks.simps [of n xs])
qed

lemma length_chunks: "0 < n \<Longrightarrow> length (chunks n xs) = (length xs + n - 1) div n"
proof (induction n xs rule: chunks.induct)
  case (1 n xs)
  show ?case
  proof (cases "xs = []")
    case True
    with "1.prems" show ?thesis by simp
  next
    case False
    with 1 have IH: "length (chunks n (drop n xs)) = (length xs - n + n - 1) div n" by simp
    show ?thesis
    proof (cases "length xs \<le> n")
      case True
      moreover have "length xs + n - 1 = n + (length xs - 1)" using False by (cases xs) auto
      moreover have "(length xs - 1) div n = 0" using False True by (cases xs) auto
      moreover have "(n + (length xs - 1)) div n = Suc ((length xs - 1) div n)"
        using "1.prems" by (subst div_add_self1) auto
      ultimately show ?thesis using False "1.prems" by (simp add: chunks.simps [of n xs])
    next
      case gt: False
      then have "length xs + n - 1 = n + (length xs - n + n - 1)" by simp
      then have "(length xs + n - 1) div n = Suc ((length xs - n + n - 1) div n)"
        using "1.prems" by (metis Suc_eq_plus1 add.commute div_add_self1 less_numeral_extra(3))
      then show ?thesis using False "1.prems" IH by (simp add: chunks.simps [of n xs])
    qed
  qed
qed

lemma chunks_sizes: "0 < n \<Longrightarrow> c \<in> set (chunks n xs) \<Longrightarrow> 0 < length c \<and> length c \<le> n"
proof (induction n xs rule: chunks.induct)
  case (1 n xs)
  then show ?case by (cases "xs = []") (auto simp: chunks.simps [of n xs])
qed

subsection \<open>Facts on big-endian integers\<close>

lemma length_to_be [simp]: "length (to_be n x) = n"
  by (induction n arbitrary: x) auto

lemma from_be_Nil [simp]: "from_be [] = 0"
  by (simp add: from_be_def)

lemma from_be_snoc [simp]: "from_be (bs @ [b]) = from_be bs * 256 + uint b"
  by (simp add: from_be_def)

lemma from_be_nonneg [simp]: "0 \<le> from_be bs"
  by (induction bs rule: rev_induct) auto

lemma uint_byte_lt: "uint (b :: u8) < 256"
  using uint_lt2p [of b] by simp

lemma from_be_lt: "from_be bs < 256 ^ length bs"
proof (induction bs rule: rev_induct)
  case (snoc b bs)
  then have "from_be bs * 256 \<le> (256 ^ length bs - 1) * 256" by simp
  then show ?case using uint_byte_lt [of b] by (simp add: algebra_simps)
qed simp

lemma from_be_inj: "length bs = length cs \<Longrightarrow> from_be bs = from_be cs \<Longrightarrow> bs = cs"
proof (induction bs arbitrary: cs rule: rev_induct)
  case (snoc b bs)
  then obtain c cs' where cs: "cs = cs' @ [c]" by (cases cs rule: rev_exhaust) auto
  have eq: "from_be bs * 256 + uint b = from_be cs' * 256 + uint c"
    using snoc.prems cs by simp
  then have "(from_be bs * 256 + uint b) mod 256 = (from_be cs' * 256 + uint c) mod 256" by simp
  then have "uint b = uint c" using uint_byte_lt [of b] uint_byte_lt [of c] by simp
  with eq snoc cs show ?case by (simp add: word_uint_eq_iff)
qed simp

lemma from_be_to_be [arr_simps]: "0 \<le> x \<Longrightarrow> from_be (to_be n x) = x mod 256 ^ n"
proof (induction n arbitrary: x)
  case (Suc n)
  then have "from_be (to_be (Suc n) x) = (x div 256) mod 256 ^ n * 256 + x mod 256"
    by (simp add: uint_word_of_int)
  also have "\<dots> = x mod (256 * 256 ^ n)"
    by (simp add: zmod_zmult2_eq algebra_simps)
  finally show ?case by simp
qed simp

lemma u16_roundtrip [simp, arr_simps]: "u16_from_be_bytes (u16_to_be_bytes w) = w"
  using uint_lt2p [of w] by (simp add: u16_from_be_bytes_def u16_to_be_bytes_def from_be_to_be)

lemma u32_roundtrip [simp, arr_simps]: "u32_from_be_bytes (u32_to_be_bytes w) = w"
  using uint_lt2p [of w] by (simp add: u32_from_be_bytes_def u32_to_be_bytes_def from_be_to_be)

lemma length_u16_to_be_bytes [simp]: "length (u16_to_be_bytes w) = 2"
  by (simp add: u16_to_be_bytes_def)

lemma length_u32_to_be_bytes [simp]: "length (u32_to_be_bytes w) = 4"
  by (simp add: u32_to_be_bytes_def)

subsection \<open>The k smallest elements of a list\<close>

lemma sort_key_map: "sort_key f (map g xs) = map g (sort_key (\<lambda>x. f (g x)) xs)"
proof (rule properties_for_sort_key)
  show "mset (map g (sort_key (\<lambda>x. f (g x)) xs)) = mset (map g xs)" by simp
  show "sorted (map f (map g (sort_key (\<lambda>x. f (g x)) xs)))"
    using sorted_sort_key [of "\<lambda>x. f (g x)" xs] by (simp add: comp_def)
  show "filter (\<lambda>x. f k = f x) (map g (sort_key (\<lambda>x. f (g x)) xs)) =
      filter (\<lambda>x. f k = f x) (map g xs)" for k
    using sort_key_stable [of "\<lambda>x. f (g x)" "f k" xs]
    by (simp add: filter_map comp_def eq_commute [of "f k"])
qed

lemma distinct_map_sort_key [simp]: "distinct (map f (sort_key g xs)) = distinct (map f xs)"
  by (simp add: distinct_map)

lemma take_sort_key_le:
  assumes "x \<in> set (take k (sort_key f xs))" "y \<in> set xs" "y \<notin> set (take k (sort_key f xs))"
  shows "f x \<le> f y"
proof -
  let ?s = "sort_key f xs"
  have "y \<in> set ?s" using assms(2) by simp
  then have "y \<in> set (take k ?s) \<union> set (drop k ?s)"
    by (metis append_take_drop_id set_append)
  then have y: "y \<in> set (drop k ?s)" using assms(3) by simp
  have "sorted (map f (take k ?s) @ map f (drop k ?s))"
    using sorted_sort_key [of f xs] by (metis append_take_drop_id map_append)
  then show ?thesis using assms(1) y by (auto simp: sorted_append)
qed

lemma length_take_sort_key [simp]: "length (take k (sort_key f xs)) = min k (length xs)"
  by (simp add: min.commute)

lemma sorted_take_sort_key [simp]: "sorted (map f (take k (sort_key f xs)))"
  by (metis sorted_sort_key sorted_wrt_take take_map)

lemma set_take_sort_key_subset: "set (take k (sort_key f xs)) \<subseteq> set xs"
  by (metis set_sort set_take_subset)

lemma distinct_take_sort_key [simp]:
  "distinct (map g xs) \<Longrightarrow> distinct (map g (take k (sort_key f xs)))"
  by (metis distinct_map_sort_key distinct_take take_map)

lemma take_sort_key_all: "length xs \<le> k \<Longrightarrow> take k (sort_key f xs) = sort_key f xs"
  by simp

subsection \<open>Association lists\<close>

lemma update_keys: "map fst (AList.update k e m) = (if k \<in> fst ` set m then map fst m else map fst m @ [k])"
  by (induction m) auto

lemma alist_update_subset: "set (AList.update k e m) \<subseteq> insert (k, e) (set m)"
  by (induction m) auto

lemma delete_update_same: "AList.delete k (AList.update k e m) = AList.delete k m"
  by (induction m) (auto simp: AList.delete_eq)

lemma length_update_present: "map_of xs k = Some v \<Longrightarrow> length (AList.update k w xs) = length xs"
  by (induction xs) (auto split: if_splits)

lemma length_update_absent: "map_of xs k = None \<Longrightarrow> length (AList.update k w xs) = Suc (length xs)"
  by (induction xs) (auto split: if_splits)

lemma map_of_filter_Some: "map_of m k = Some e \<Longrightarrow> P (k, e) \<Longrightarrow> map_of (filter P m) k = Some e"
  by (induction m) auto

lemma map_of_filter_None: "map_of m k = None \<Longrightarrow> map_of (filter P m) k = None"
  by (induction m) (auto split: if_splits)

end
