(* ===== verification/Nodes.thy ===== *)
theory Nodes
  imports Prelude
begin

text \<open>
  Node identifiers, nodes, the XOR distance and the bounded shortlist of a lookup
  (\<open>src/src/node.rs\<close>, constants of \<open>src/src/utils.rs\<close>).

  \<^item> A Rust \<open>[u8; ID_LEN]\<close> is the type \<open>node_id\<close> of byte lists of length 20, so that every
    statement below ranges over all identifiers and no length hypothesis is needed.
  \<^item> \<open>Node::long_id\<close> caches \<open>id_to_u256\<close> of the identifier. \<open>Node::new\<close> is the only code that
    builds a \<open>Node\<close>, so the model has the cached value as the function \<open>long_id\<close>.
  \<^item> \<open>NodeHeap\<close> is a record with the sorted vector of entries, the contacted set and the capacity.
    The invariant \<open>heap_inv\<close> is what the comments on the struct promise; every operation keeps it.

  The locale \<open>id_metric\<close> is the interface the lookup and the routing table rely on: a distance
  that separates identifiers. What "the k closest" means is proved once inside it and
  instantiated with the XOR distance.
\<close>

subsection \<open>Identifiers\<close>

definition ID_LEN :: nat where
  "ID_LEN = 20"

typedef node_id = "{bs :: bytes. length bs = 20}"
  morphisms id_bytes Abs_node_id
  by (rule exI [of _ "replicate 20 0"]) simp

lemma node_id_abstype [code abstype]: "Abs_node_id (id_bytes i) = i"
  by (rule id_bytes_inverse)

text \<open>
  \<open>copy_from_slice\<close> into a fresh \<open>[0u8; ID_LEN]\<close>. Every call site checks the length first; a
  slice of another length would panic, and the model leaves the array zero there.
\<close>

definition id_of_bytes :: "bytes \<Rightarrow> node_id" where
  "id_of_bytes bs = Abs_node_id (if length bs = 20 then bs else replicate 20 0)"

lemma id_bytes_id_of_bytes [simp, code abstract]:
  "id_bytes (id_of_bytes bs) = (if length bs = 20 then bs else replicate 20 0)"
  by (simp add: id_of_bytes_def Abs_node_id_inverse)

instantiation node_id :: equal
begin

definition equal_node_id :: "node_id \<Rightarrow> node_id \<Rightarrow> bool" where
  "equal_node_id a b \<longleftrightarrow> id_bytes a = id_bytes b"

instance
  by standard (simp add: equal_node_id_def id_bytes_inject)

end

definition id_to_u256 :: "node_id \<Rightarrow> u256" where
  "id_to_u256 i = word_of_int (from_be (id_bytes i))"

subsection \<open>Nodes\<close>

record node =
  nid :: node_id
  node_ip :: "bytes option"
  node_port :: "u16 option"

definition node_new :: "node_id \<Rightarrow> bytes option \<Rightarrow> u16 option \<Rightarrow> node" where
  "node_new i ip port = \<lparr>nid = i, node_ip = ip, node_port = port\<rparr>"

definition from_id :: "node_id \<Rightarrow> node" where
  "from_id i = node_new i None None"

definition long_id :: "node \<Rightarrow> u256" where
  "long_id n = id_to_u256 (nid n)"

definition distance_to :: "node \<Rightarrow> node \<Rightarrow> u256" where
  "distance_to self other = long_id self XOR long_id other"

definition same_home_as :: "node \<Rightarrow> node \<Rightarrow> bool" where
  "same_home_as self other \<longleftrightarrow> node_ip self = node_ip other \<and> node_port self = node_port other"

definition address :: "node \<Rightarrow> (bytes \<times> u16) option" where
  "address n = (case (node_ip n, node_port n) of
      (Some ip, Some port) \<Rightarrow> Some (ip, port)
    | _ \<Rightarrow> None)"

text \<open>A \<open>SocketAddr\<close>: the canonical text of its IP address, and its port.\<close>

type_synonym sock_addr = "bytes \<times> u16"

subsection \<open>The shortlist of a lookup\<close>

record heap_entry =
  he_distance :: u256
  he_node :: node

record node_heap =
  hp_node :: node
  hp_entries :: "heap_entry list"
  hp_contacted :: "node_id set"
  hp_maxsize :: nat

definition heap_new :: "node \<Rightarrow> nat \<Rightarrow> node_heap" where
  "heap_new n maxsize =
     \<lparr>hp_node = n, hp_entries = [], hp_contacted = {}, hp_maxsize = maxsize\<rparr>"

definition heap_contains :: "node_heap \<Rightarrow> node \<Rightarrow> bool" where
  "heap_contains h n \<longleftrightarrow> (\<exists>e\<in>set (hp_entries h). nid (he_node e) = nid n)"

text \<open>The \<open>for\<close> loop of \<open>push\<close>, with its flag \<open>added\<close>.\<close>

fun heap_push_loop :: "node_heap \<Rightarrow> bool \<Rightarrow> node list \<Rightarrow> node_heap \<times> bool" where
  "heap_push_loop h added [] = (h, added)"
| "heap_push_loop h added (n # ns) =
     (if \<not> heap_contains h n then
        heap_push_loop
          (h\<lparr>hp_entries :=
              hp_entries h @ [\<lparr>he_distance = distance_to (hp_node h) n, he_node = n\<rparr>]\<rparr>)
          True ns
      else heap_push_loop h added ns)"

definition heap_push :: "node_heap \<Rightarrow> node list \<Rightarrow> node_heap" where
  "heap_push h ns =
     (let (h', added) = heap_push_loop h False ns in
      if added
      then h'\<lparr>hp_entries := take (hp_maxsize h') (sort_key he_distance (hp_entries h'))\<rparr>
      else h')"

definition heap_push_one :: "node_heap \<Rightarrow> node \<Rightarrow> node_heap" where
  "heap_push_one h n = heap_push h [n]"

definition heap_remove :: "node_heap \<Rightarrow> node_id list \<Rightarrow> node_heap" where
  "heap_remove h peers =
     (if peers = [] then h
      else h\<lparr>hp_entries := filter (\<lambda>e. nid (he_node e) \<notin> set peers) (hp_entries h)\<rparr>)"

definition heap_popleft :: "node_heap \<Rightarrow> node_heap \<times> node option" where
  "heap_popleft h =
     (case hp_entries h of
        [] \<Rightarrow> (h, None)
      | e # es \<Rightarrow> (h\<lparr>hp_entries := es\<rparr>, Some (he_node e)))"

definition heap_get_node :: "node_heap \<Rightarrow> node_id \<Rightarrow> node option" where
  "heap_get_node h i = map_option he_node (find (\<lambda>e. nid (he_node e) = i) (hp_entries h))"

text \<open>\<open>iter\<close> and \<open>to_vec\<close>.\<close>

definition heap_iter :: "node_heap \<Rightarrow> node list" where
  "heap_iter h = map he_node (take (hp_maxsize h) (hp_entries h))"

definition heap_get_uncontacted :: "node_heap \<Rightarrow> node list" where
  "heap_get_uncontacted h = filter (\<lambda>n. nid n \<notin> hp_contacted h) (heap_iter h)"

definition heap_have_contacted_all :: "node_heap \<Rightarrow> bool" where
  "heap_have_contacted_all h \<longleftrightarrow> heap_get_uncontacted h = []"

definition heap_get_ids :: "node_heap \<Rightarrow> node_id list" where
  "heap_get_ids h = map nid (heap_iter h)"

definition heap_len :: "node_heap \<Rightarrow> nat" where
  "heap_len h = min (length (hp_entries h)) (hp_maxsize h)"

definition heap_mark_contacted :: "node_heap \<Rightarrow> node \<Rightarrow> node_heap" where
  "heap_mark_contacted h n = h\<lparr>hp_contacted := insert (nid n) (hp_contacted h)\<rparr>"

subsection \<open>Identifiers are 160-bit integers\<close>

lemma length_id_bytes [simp]: "length (id_bytes i) = 20"
  using id_bytes [of i] by simp

lemma id_of_bytes_id_bytes [simp]: "id_of_bytes (id_bytes i) = i"
  by (simp add: id_of_bytes_def id_bytes_inverse)

lemma id_eqI: "id_bytes i = id_bytes j \<Longrightarrow> i = j"
  by (simp add: id_bytes_inject)

lemma from_be_id_lt: "from_be (id_bytes i) < 2 ^ 160"
proof -
  have "(256 :: int) ^ 20 = 2 ^ 160" by simp
  then show ?thesis using from_be_lt [of "id_bytes i"] by (simp only: length_id_bytes)
qed

lemma uint_id_to_u256: "uint (id_to_u256 i) = from_be (id_bytes i)"
proof -
  have "(0::int) \<le> from_be (id_bytes i)" "from_be (id_bytes i) < 2 ^ 256"
    using from_be_id_lt [of i] by (simp_all add: less_trans)
  then show ?thesis by (simp add: id_to_u256_def uint_word_of_int)
qed

lemma id_to_u256_lt: "id_to_u256 i < 2 ^ 160"
  using from_be_id_lt [of i] by (simp add: word_less_def uint_id_to_u256)

lemma id_to_u256_le: "id_to_u256 i \<le> 2 ^ 160 - 1"
  using from_be_id_lt [of i] by (simp add: word_le_def uint_id_to_u256)

lemma id_to_u256_eq_iff [simp]: "id_to_u256 i = id_to_u256 j \<longleftrightarrow> i = j"
proof
  assume "id_to_u256 i = id_to_u256 j"
  then have "from_be (id_bytes i) = from_be (id_bytes j)"
    by (simp flip: uint_id_to_u256)
  then have "id_bytes i = id_bytes j" by (intro from_be_inj) simp_all
  then show "i = j" by (rule id_eqI)
qed simp

lemma long_id_eq_iff: "long_id m = long_id n \<longleftrightarrow> nid m = nid n"
  by (simp add: long_id_def)

lemma finite_node_id: "finite (UNIV :: node_id set)"
proof (rule finite_imageD)
  show "finite (id_to_u256 ` UNIV)" by (rule finite_subset [OF subset_UNIV]) simp
  show "inj id_to_u256" by (simp add: inj_def)
qed

instance node_id :: finite
  by standard (rule finite_node_id)

lemma finite_node_ids [simp]: "finite (A :: node_id set)"
  by (rule finite)

lemma nid_simps [simp]:
  "nid (node_new i ip port) = i" "nid (from_id i) = i"
  "node_ip (node_new i ip port) = ip" "node_port (node_new i ip port) = port"
  by (simp_all add: node_new_def from_id_def)

subsection \<open>The distance separates identifiers\<close>

locale id_metric =
  fixes d :: "'a \<Rightarrow> 'a \<Rightarrow> 'k :: {linorder, zero}"
    and ident :: "'a \<Rightarrow> 'i"
  assumes d_sym: "d x y = d y x"
    and d_zero: "d x y = 0 \<longleftrightarrow> ident x = ident y"
    and d_unique: "d p x = d p y \<longleftrightarrow> ident x = ident y"
begin

lemma inj_on_distance: "distinct (map ident xs) \<Longrightarrow> inj_on (d p) (set xs)"
  by (auto simp: inj_on_def d_unique distinct_map)

lemma left_out_is_farther:
  assumes "distinct (map ident xs)"
    and "x \<in> set (take k (sort_key (d p) xs))"
    and "y \<in> set xs" "y \<notin> set (take k (sort_key (d p) xs))"
  shows "d p x < d p y"
proof -
  have "d p x \<le> d p y" using assms(2-4) by (rule take_sort_key_le)
  moreover have "x \<in> set xs" using assms(2) set_take_sort_key_subset [of k "d p" xs] by blast
  then have "d p x \<noteq> d p y"
    using assms inj_on_distance [OF assms(1), of p] by (auto simp: inj_on_def)
  ultimately show ?thesis by simp
qed

lemma left_out_then_full:
  assumes "y \<in> set xs" "y \<notin> set (take k (sort_key (d p) xs))"
  shows "length (take k (sort_key (d p) xs)) = k"
proof (rule ccontr)
  assume "\<not> ?thesis"
  then have "length xs \<le> k" by simp
  then have "take k (sort_key (d p) xs) = sort_key (d p) xs" by simp
  with assms show False by simp
qed

text \<open>The order in which candidates arrive does not matter.\<close>

lemma closest_order_irrelevant:
  assumes "mset xs = mset ys" "distinct (map ident xs)"
  shows "take k (sort_key (d p) xs) = take k (sort_key (d p) ys)"
  using assms inj_on_distance [of xs p] sort_key_eq_sort_key [of xs ys "d p"] by simp

lemma strictly_sorted:
  assumes "distinct (map ident xs)" "sorted (map (d p) xs)"
  shows "sorted_wrt (<) (map (d p) xs)"
  using assms inj_on_distance [OF assms(1), of p]
  by (simp add: strict_sorted_iff distinct_map)

end

lemma distance_to_eq_iff:
  "distance_to p x = distance_to p y \<longleftrightarrow> nid x = nid y"
proof
  assume "distance_to p x = distance_to p y"
  then have "long_id p XOR (long_id p XOR long_id x) = long_id p XOR (long_id p XOR long_id y)"
    by (simp add: distance_to_def)
  then have "long_id x = long_id y" by (simp flip: xor.assoc)
  then show "nid x = nid y" by (simp add: long_id_eq_iff)
qed (simp add: distance_to_def long_id_def)

interpretation xor_dist: id_metric distance_to nid
proof
  show "distance_to x y = distance_to y x" for x y
    by (simp add: distance_to_def xor.commute)
  show "distance_to x y = 0 \<longleftrightarrow> nid x = nid y" for x y
    using distance_to_eq_iff [of x x y] by (auto simp: distance_to_def)
  show "distance_to p x = distance_to p y \<longleftrightarrow> nid x = nid y" for p x y
    by (rule distance_to_eq_iff)
qed

lemma distance_to_self [simp]: "distance_to n n = 0"
  by (simp add: xor_dist.d_zero)

text \<open>
  What a query for the \<open>k\<close> nodes closest to \<open>p\<close> promises, whatever the order of the candidates.
\<close>

definition k_closest :: "nat \<Rightarrow> node \<Rightarrow> node list \<Rightarrow> node list \<Rightarrow> bool" where
  "k_closest k p cands res \<longleftrightarrow>
     set res \<subseteq> set cands \<and> length res = min k (length cands) \<and>
     sorted_wrt (<) (map (distance_to p) res) \<and>
     (\<forall>m \<in> set cands. m \<notin> set res \<longrightarrow> (\<forall>x \<in> set res. distance_to p x < distance_to p m))"

lemma take_sort_k_closest:
  assumes "distinct (map nid xs)"
  shows "k_closest k p xs (take k (sort_key (distance_to p) xs))"
  unfolding k_closest_def
  using assms xor_dist.left_out_is_farther [OF assms, of _ k p]
    xor_dist.strictly_sorted [of "take k (sort_key (distance_to p) xs)" p]
    set_take_sort_key_subset [of k "distance_to p" xs]
  by (simp add: min.commute)

subsection \<open>The shortlist keeps the closest nodes it has been shown\<close>

text \<open>
  What the struct promises: distances are those to the pivot, entries are in ascending order, no
  identifier occurs twice, at most \<open>maxsize\<close> entries.
\<close>

definition heap_inv :: "node_heap \<Rightarrow> bool" where
  "heap_inv h \<longleftrightarrow>
     (\<forall>e\<in>set (hp_entries h). he_distance e = distance_to (hp_node h) (he_node e)) \<and>
     sorted (map he_distance (hp_entries h)) \<and>
     distinct (map (\<lambda>e. nid (he_node e)) (hp_entries h)) \<and>
     length (hp_entries h) \<le> hp_maxsize h"

definition entry_for :: "node \<Rightarrow> node \<Rightarrow> heap_entry" where
  "entry_for p n = \<lparr>he_distance = distance_to p n, he_node = n\<rparr>"

lemma entry_for_simps [simp]:
  "he_distance (entry_for p n) = distance_to p n" "he_node (entry_for p n) = n"
  by (simp_all add: entry_for_def)

text \<open>The nodes a push considers: those in the heap, then the new ones, first occurrence first.\<close>

fun append_new :: "node list \<Rightarrow> node list \<Rightarrow> node list" where
  "append_new ms [] = ms"
| "append_new ms (n # ns) =
     append_new (if nid n \<in> nid ` set ms then ms else ms @ [n]) ns"

lemma append_new_distinct: "distinct (map nid ms) \<Longrightarrow> distinct (map nid (append_new ms ns))"
  by (induction ns arbitrary: ms) auto

lemma set_append_new: "set ms \<subseteq> set (append_new ms ns) \<and> set (append_new ms ns) \<subseteq> set ms \<union> set ns"
  by (induction ns arbitrary: ms) (force split: if_splits)+

lemma ids_append_new: "nid ` set (append_new ms ns) = nid ` set ms \<union> nid ` set ns"
proof (induction ns arbitrary: ms)
  case (Cons n ns)
  show ?case by (simp add: Cons.IH) blast
qed simp

lemma append_new_id: "set (map nid ns) \<subseteq> nid ` set ms \<Longrightarrow> append_new ms ns = ms"
  by (induction ns) auto

text \<open>A heap in its invariant is determined by its list of nodes.\<close>

definition heap_nodes :: "node_heap \<Rightarrow> node list" where
  "heap_nodes h = map he_node (hp_entries h)"

lemma heap_entries_conv:
  "(\<forall>e\<in>set (hp_entries h). he_distance e = distance_to (hp_node h) (he_node e)) \<Longrightarrow>
   hp_entries h = map (entry_for (hp_node h)) (heap_nodes h)"
  by (simp add: heap_nodes_def map_idI entry_for_def)

lemma heap_inv_nodes:
  assumes "heap_inv h"
  shows "hp_entries h = map (entry_for (hp_node h)) (heap_nodes h)"
    and "distinct (map nid (heap_nodes h))"
    and "sorted (map (distance_to (hp_node h)) (heap_nodes h))"
    and "length (heap_nodes h) \<le> hp_maxsize h"
proof -
  show e: "hp_entries h = map (entry_for (hp_node h)) (heap_nodes h)"
    using assms by (intro heap_entries_conv) (simp add: heap_inv_def)
  show "distinct (map nid (heap_nodes h))"
    using assms by (simp add: heap_inv_def heap_nodes_def comp_def)
  have "sorted (map he_distance (hp_entries h))" using assms by (simp add: heap_inv_def)
  then show "sorted (map (distance_to (hp_node h)) (heap_nodes h))"
    by (subst (asm) e) (simp add: comp_def)
  show "length (heap_nodes h) \<le> hp_maxsize h"
    using assms by (simp add: heap_inv_def heap_nodes_def)
qed

lemma heap_iter_nodes: "heap_inv h \<Longrightarrow> heap_iter h = heap_nodes h"
  by (simp add: heap_inv_def heap_iter_def heap_nodes_def)

lemma heap_contains_iff: "heap_contains h n \<longleftrightarrow> nid n \<in> nid ` set (heap_nodes h)"
  unfolding heap_contains_def heap_nodes_def by (simp add: image_iff eq_commute)

lemma heap_push_loop_nodes:
  assumes "hp_entries h = map (entry_for (hp_node h)) ms"
  shows "heap_push_loop h added ns =
    (h\<lparr>hp_entries := map (entry_for (hp_node h)) (append_new ms ns)\<rparr>,
     added \<or> \<not> nid ` set ns \<subseteq> nid ` set ms)"
  using assms
proof (induction ns arbitrary: h added ms)
  case Nil
  then show ?case by simp
next
  case (Cons n ns)
  have ms: "heap_nodes h = ms" using Cons.prems by (simp add: heap_nodes_def comp_def)
  show ?case
  proof (cases "nid n \<in> nid ` set ms")
    case True
    then show ?thesis using Cons.IH [OF Cons.prems] by (simp add: heap_contains_iff ms)
  next
    case False
    let ?h = "h\<lparr>hp_entries := hp_entries h @ [entry_for (hp_node h) n]\<rparr>"
    have "hp_entries ?h = map (entry_for (hp_node ?h)) (ms @ [n])" using Cons.prems by simp
    from Cons.IH [OF this, of True] False show ?thesis
      by (simp add: heap_contains_iff ms flip: entry_for_def)
  qed
qed

text \<open>The functional specification of \<open>push\<close>, on the list of nodes.\<close>

lemma heap_push_nodes:
  assumes "heap_inv h"
  shows "heap_push h ns = h\<lparr>hp_entries := map (entry_for (hp_node h))
     (take (hp_maxsize h) (sort_key (distance_to (hp_node h)) (append_new (heap_nodes h) ns)))\<rparr>"
proof -
  note inv = heap_inv_nodes [OF assms]
  note loop = heap_push_loop_nodes [OF inv(1), of False ns]
  show ?thesis
  proof (cases "nid ` set ns \<subseteq> nid ` set (heap_nodes h)")
    case True
    then have "append_new (heap_nodes h) ns = heap_nodes h" by (intro append_new_id) auto
    moreover have "sort_key (distance_to (hp_node h)) (heap_nodes h) = heap_nodes h"
      using inv(3) by (rule sort_key_id_if_sorted)
    ultimately show ?thesis using inv(1,4) True by (simp add: heap_push_def loop)
  next
    case False
    then show ?thesis
      by (simp add: heap_push_def loop sort_key_map take_map comp_def)
  qed
qed

lemma heap_inv_of_nodes:
  assumes "distinct (map nid ms)" "sorted (map (distance_to (hp_node h)) ms)"
    and "length ms \<le> hp_maxsize h"
  shows "heap_inv (h\<lparr>hp_entries := map (entry_for (hp_node h)) ms\<rparr>)"
  using assms by (auto simp: heap_inv_def comp_def)

lemma heap_new_inv [inv_intros]: "heap_inv (heap_new n k)"
  by (simp add: heap_inv_def heap_new_def)

lemma heap_push_inv [inv_intros]: "heap_inv h \<Longrightarrow> heap_inv (heap_push h ns)"
  by (subst heap_push_nodes, assumption, rule heap_inv_of_nodes)
    (simp_all add: append_new_distinct heap_inv_nodes)

lemma heap_remove_inv [inv_intros]: "heap_inv h \<Longrightarrow> heap_inv (heap_remove h peers)"
  by (auto simp: heap_inv_def heap_remove_def distinct_map inj_on_def
      intro: sorted_filter order.trans [OF length_filter_le])

lemma heap_mark_contacted_inv [inv_intros]:
  "heap_inv h \<Longrightarrow> heap_inv (heap_mark_contacted h n)"
  by (simp add: heap_inv_def heap_mark_contacted_def)

lemma heap_popleft_inv [inv_intros]: "heap_inv h \<Longrightarrow> heap_inv (fst (heap_popleft h))"
  by (auto simp: heap_inv_def heap_popleft_def split: list.split)

lemma heap_push_loop_fields [simp]:
  "hp_node (fst (heap_push_loop h a ns)) = hp_node h"
  "hp_maxsize (fst (heap_push_loop h a ns)) = hp_maxsize h"
  "hp_contacted (fst (heap_push_loop h a ns)) = hp_contacted h"
  by (induction h a ns rule: heap_push_loop.induct) simp_all

lemma heap_push_fields [simp]:
  "hp_node (heap_push h ns) = hp_node h"
  "hp_maxsize (heap_push h ns) = hp_maxsize h"
  "hp_contacted (heap_push h ns) = hp_contacted h"
  by (simp_all add: heap_push_def Let_def case_prod_beta)

lemma heap_remove_fields [simp]:
  "hp_node (heap_remove h peers) = hp_node h" "hp_maxsize (heap_remove h peers) = hp_maxsize h"
  "hp_contacted (heap_remove h peers) = hp_contacted h"
  by (simp_all add: heap_remove_def)

lemma heap_mark_contacted_fields [simp]:
  "hp_node (heap_mark_contacted h n) = hp_node h"
  "hp_maxsize (heap_mark_contacted h n) = hp_maxsize h"
  "hp_entries (heap_mark_contacted h n) = hp_entries h"
  "hp_contacted (heap_mark_contacted h n) = insert (nid n) (hp_contacted h)"
  by (simp_all add: heap_mark_contacted_def)

lemma heap_nodes_push:
  "heap_inv h \<Longrightarrow> heap_nodes (heap_push h ns) =
     take (hp_maxsize h) (sort_key (distance_to (hp_node h)) (append_new (heap_nodes h) ns))"
  by (simp add: heap_push_nodes heap_nodes_def [of "hp_entries_update _ _"] comp_def)

lemma heap_nodes_remove:
  "heap_nodes (heap_remove h peers) = filter (\<lambda>n. nid n \<notin> set peers) (heap_nodes h)"
  by (simp add: heap_nodes_def heap_remove_def filter_map comp_def)

lemma heap_nodes_mark [simp]: "heap_nodes (heap_mark_contacted h n) = heap_nodes h"
  by (simp add: heap_nodes_def)

lemma heap_nodes_new [simp]: "heap_nodes (heap_new n k) = []"
  by (simp add: heap_nodes_def heap_new_def)

lemma set_heap_push_subset:
  "heap_inv h \<Longrightarrow> set (heap_nodes (heap_push h ns)) \<subseteq> set (heap_nodes h) \<union> set ns"
  using set_take_sort_key_subset [of "hp_maxsize h" "distance_to (hp_node h)"
      "append_new (heap_nodes h) ns"] set_append_new [of "heap_nodes h" ns]
  by (simp add: heap_nodes_push) blast

text \<open>
  Property C19. \<open>NodeHeap::push\<close> keeps the struct's invariant, and the heap afterwards holds
  exactly the \<open>maxsize\<close> closest of all identifiers it was shown: only nodes from the heap or the
  batch, in strictly ascending distance, and a node whose identifier is missing afterwards is
  strictly farther from the pivot than every node kept, and is missing only because the heap is
  full.
\<close>

theorem heap_push_keeps_closest:
  assumes "heap_inv h"
  shows "heap_inv (heap_push h ns) \<and>
    set (heap_iter (heap_push h ns)) \<subseteq> set (heap_iter h) \<union> set ns \<and>
    sorted_wrt (<) (map (distance_to (hp_node h)) (heap_iter (heap_push h ns))) \<and>
    (\<forall>m \<in> set (heap_iter h) \<union> set ns. nid m \<notin> nid ` set (heap_iter (heap_push h ns)) \<longrightarrow>
       length (heap_iter (heap_push h ns)) = hp_maxsize h \<and>
       (\<forall>x \<in> set (heap_iter (heap_push h ns)).
          distance_to (hp_node h) x < distance_to (hp_node h) m))"
proof (intro conjI ballI impI)
  let ?p = "hp_node h" and ?c = "append_new (heap_nodes h) ns" and ?h = "heap_push h ns"
  show inv': "heap_inv ?h" using assms by (rule heap_push_inv)
  have it: "heap_iter ?h = take (hp_maxsize h) (sort_key (distance_to ?p) ?c)"
    using inv' assms by (simp add: heap_iter_nodes heap_nodes_push)
  have dc: "distinct (map nid ?c)" using assms by (simp add: append_new_distinct heap_inv_nodes)
  show "set (heap_iter ?h) \<subseteq> set (heap_iter h) \<union> set ns"
    using set_heap_push_subset [OF assms, of ns] assms inv' by (simp add: heap_iter_nodes)
  show "sorted_wrt (<) (map (distance_to ?p) (heap_iter ?h))"
    unfolding it using dc by (intro xor_dist.strictly_sorted) simp_all
  fix m assume m: "m \<in> set (heap_iter h) \<union> set ns" and out: "nid m \<notin> nid ` set (heap_iter ?h)"
  have "nid m \<in> nid ` set ?c" using m assms by (auto simp: ids_append_new heap_iter_nodes)
  then obtain c where c: "c \<in> set ?c" "nid c = nid m" by auto
  then have cout: "c \<notin> set (take (hp_maxsize h) (sort_key (distance_to ?p) ?c))"
    using out it by (metis image_eqI)
  have d: "distance_to ?p c = distance_to ?p m" using c(2) by (simp add: distance_to_eq_iff)
  show "length (heap_iter ?h) = hp_maxsize h"
    using xor_dist.left_out_then_full [OF c(1) cout] it by simp
  show "distance_to ?p x < distance_to ?p m" if "x \<in> set (heap_iter ?h)" for x
    using xor_dist.left_out_is_farther [OF dc _ c(1) cout, of x] that it d by simp
qed

text \<open>Identifiers with a chosen first byte, for concrete instances.\<close>

definition wid :: "u8 \<Rightarrow> node_id" where
  "wid b = id_of_bytes (b # replicate 19 0)"

definition wnode :: "u8 \<Rightarrow> node" where
  "wnode b = from_id (wid b)"

theorem heap_push_keeps_closest_witness:
  "heap_iter (heap_push (heap_new (wnode 0) 1) [wnode 4, wnode 2]) = [wnode 2] \<and>
   distance_to (wnode 0) (wnode 2) < distance_to (wnode 0) (wnode 4)"
proof -
  have it: "heap_iter (heap_push (heap_new (wnode 0) 1) [wnode 4, wnode 2]) = [wnode 2]"
    by code_simp
  have out: "nid (wnode 4) \<notin> nid ` set [wnode 2]" by code_simp
  have piv: "hp_node (heap_new (wnode 0) 1) = wnode 0" by (simp add: heap_new_def)
  from heap_push_keeps_closest [OF heap_new_inv, of "wnode 0" 1 "[wnode 4, wnode 2]"] it out piv
  show ?thesis by simp
qed

end
