(* ===== verification/Routing.thy ===== *)
theory Routing
  imports Nodes
begin

text \<open>
  The Kademlia routing table with binary bucket splitting (\<open>src/src/routing.rs\<close>).

  A \<open>KBucket\<close> is a record of its inclusive range, its primary list in least-recently-seen order,
  its replacement list and its bounds. The \<open>RoutingTable\<close> is a record of the local node, the list
  of buckets and the health map of failing contacts. Clocks are arguments: \<open>now_s\<close> is
  \<open>now_secs()\<close>, \<open>now\<close> an \<open>Instant\<close>. The random part of a backoff, drawn by the \<open>rand\<close> crate,
  is the argument \<open>jit\<close>.

  \<open>RoutingTable::insert\<close> calls itself after every split. It is a
  \<^theory_text>\<open>partial_function (option)\<close>: not returning is \<open>None\<close>, and \<open>add_contact_returns\<close> proves
  that it returns on every table that satisfies the invariant \<open>rt_inv\<close>, with every bound on the
  table kept.
\<close>

subsection \<open>Backoff and health\<close>

definition STALE_AFTER_FAILURES :: nat where
  "STALE_AFTER_FAILURES = 5"

definition BACKOFF_BASE :: duration where
  "BACKOFF_BASE = secs 5"

definition BACKOFF_MAX :: duration where
  "BACKOFF_MAX = secs 300"

definition DEFAULT_MIN_LOOKUP_CONTACTS :: nat where
  "DEFAULT_MIN_LOOKUP_CONTACTS = 2"

text \<open>\<open>jit d\<close> is \<open>d.mul_f64(r)\<close> for the random \<open>r\<close> of this call.\<close>

definition with_jitter :: "(duration \<Rightarrow> duration) \<Rightarrow> duration \<Rightarrow> duration" where
  "with_jitter jit delay = delay + jit delay"

definition backoff :: "(duration \<Rightarrow> duration) \<Rightarrow> nat \<Rightarrow> duration" where
  "backoff jit failures =
     (let doublings = min (failures - 1) 16 in
      with_jitter jit (min (BACKOFF_BASE * 2 ^ doublings) BACKOFF_MAX))"

record contact_health =
  ch_failures :: nat
  ch_first_failure :: instant
  ch_retry_after :: instant

subsection \<open>Buckets\<close>

definition full_keyspace :: "u256 \<times> u256" where
  "full_keyspace = (0, push_bit 160 1 - 1)"

lemma full_keyspace_code [code]:
  "full_keyspace = (0, 1461501637330902918203684832716283019655932542975)"
  by (simp add: full_keyspace_def push_bit_eq_mult)

record kbucket =
  bk_range :: "u256 \<times> u256"
  bk_nodes :: "node list"
  bk_replacement_nodes :: "node list"
  bk_ksize :: nat
  bk_max_replacement_nodes :: nat
  bk_last_updated :: nat

definition kbucket_new :: "nat \<Rightarrow> u256 \<times> u256 \<Rightarrow> nat \<Rightarrow> kbucket" where
  "kbucket_new now_s rng ksize =
     \<lparr>bk_range = rng, bk_nodes = [], bk_replacement_nodes = [], bk_ksize = ksize,
      bk_max_replacement_nodes = ksize * 5, bk_last_updated = now_s\<rparr>"

definition touch_last_updated :: "nat \<Rightarrow> kbucket \<Rightarrow> kbucket" where
  "touch_last_updated now_s b = b\<lparr>bk_last_updated := now_s\<rparr>"

text \<open>\<open>while list.len() > m { list.pop_front() }\<close>\<close>

fun evict_front :: "nat \<Rightarrow> 'a list \<Rightarrow> 'a list" where
  "evict_front m [] = []"
| "evict_front m (x # xs) = (if length (x # xs) > m then evict_front m xs else x # xs)"

definition kbucket_add_node :: "kbucket \<Rightarrow> node \<Rightarrow> kbucket \<times> bool" where
  "kbucket_add_node b n =
     (case position (\<lambda>m. nid m = nid n) (bk_nodes b) of
        Some pos \<Rightarrow> (b\<lparr>bk_nodes := remove_at pos (bk_nodes b) @ [n]\<rparr>, True)
      | None \<Rightarrow>
          if length (bk_nodes b) < bk_ksize b
          then (b\<lparr>bk_nodes := bk_nodes b @ [n]\<rparr>, True)
          else
            (let others =
               (case position (\<lambda>m. nid m = nid n) (bk_replacement_nodes b) of
                  Some pos \<Rightarrow> remove_at pos (bk_replacement_nodes b)
                | None \<Rightarrow> bk_replacement_nodes b)
             in (b\<lparr>bk_replacement_nodes :=
                     evict_front (bk_max_replacement_nodes b) (others @ [n])\<rparr>, False)))"

definition kbucket_remove_node :: "kbucket \<Rightarrow> node \<Rightarrow> kbucket" where
  "kbucket_remove_node b n =
     (let repl = filter (\<lambda>m. nid m \<noteq> nid n) (bk_replacement_nodes b) in
      case position (\<lambda>m. nid m = nid n) (bk_nodes b) of
        None \<Rightarrow> b\<lparr>bk_replacement_nodes := repl\<rparr>
      | Some pos \<Rightarrow>
          (let ns = remove_at pos (bk_nodes b) in
           if repl = [] then b\<lparr>bk_nodes := ns, bk_replacement_nodes := repl\<rparr>
           else b\<lparr>bk_nodes := ns @ [last repl], bk_replacement_nodes := butlast repl\<rparr>))"

definition kbucket_contains :: "kbucket \<Rightarrow> node \<Rightarrow> bool" where
  "kbucket_contains b n \<longleftrightarrow> (\<exists>m\<in>set (bk_nodes b). nid m = nid n)"

definition kbucket_covers :: "kbucket \<Rightarrow> u256 \<Rightarrow> bool" where
  "kbucket_covers b x \<longleftrightarrow> fst (bk_range b) \<le> x \<and> x \<le> snd (bk_range b)"

fun split_loop :: "u256 \<Rightarrow> node list \<Rightarrow> kbucket \<times> kbucket \<Rightarrow> kbucket \<times> kbucket" where
  "split_loop mid [] (low, high) = (low, high)"
| "split_loop mid (n # ns) (low, high) =
     (if long_id n \<le> mid
      then split_loop mid ns (fst (kbucket_add_node low n), high)
      else split_loop mid ns (low, fst (kbucket_add_node high n)))"

definition kbucket_split :: "nat \<Rightarrow> kbucket \<Rightarrow> kbucket \<times> kbucket" where
  "kbucket_split now_s b =
     (let lo = fst (bk_range b); hi = snd (bk_range b);
          mid = lo + (hi - lo) div 2;
          low = kbucket_new now_s (lo, mid) (bk_ksize b);
          high = kbucket_new now_s (mid + 1, hi) (bk_ksize b)
      in split_loop mid (bk_nodes b @ bk_replacement_nodes b) (low, high))"

text \<open>
  \<open>depth\<close> walks the bits of the first identifier from the most significant one and stops at the
  first bit in which some other primary node differs (\<open>break 'outer\<close>).
\<close>

definition id_bit :: "node \<Rightarrow> nat \<Rightarrow> nat \<Rightarrow> u8" where
  "id_bit n byte_idx shift = drop_bit shift (id_bytes (nid n) ! byte_idx) AND 1"

fun depth_loop :: "node \<Rightarrow> node list \<Rightarrow> (nat \<times> nat) list \<Rightarrow> nat \<Rightarrow> nat" where
  "depth_loop first rest [] prefix_len = prefix_len"
| "depth_loop first rest ((i, s) # ps) prefix_len =
     (if \<exists>n\<in>set rest. id_bit n i s \<noteq> id_bit first i s then prefix_len
      else depth_loop first rest ps (prefix_len + 1))"

definition bit_positions :: "(nat \<times> nat) list" where
  "bit_positions = List.product [0..<20] (rev [0..<8])"

definition kbucket_depth :: "kbucket \<Rightarrow> nat" where
  "kbucket_depth b =
     (case bk_nodes b of
        [] \<Rightarrow> 0
      | [n] \<Rightarrow> length (id_bytes (nid n)) * 8
      | n # rest \<Rightarrow> depth_loop n rest bit_positions 0)"

definition kbucket_is_lonely :: "nat \<Rightarrow> kbucket \<Rightarrow> bool" where
  "kbucket_is_lonely now_s b \<longleftrightarrow> now_s - bk_last_updated b > 3600"

definition kbucket_head :: "kbucket \<Rightarrow> node option" where
  "kbucket_head b = (case bk_nodes b of [] \<Rightarrow> None | n # _ \<Rightarrow> Some n)"

definition kbucket_has_replacement :: "kbucket \<Rightarrow> bool" where
  "kbucket_has_replacement b \<longleftrightarrow> bk_replacement_nodes b \<noteq> []"

subsection \<open>The table\<close>

record routing_table =
  rt_node :: node
  rt_ksize :: nat
  rt_buckets :: "kbucket list"
  rt_health :: "node_id \<rightharpoonup> contact_health"
  rt_min_lookup_contacts :: nat

definition rt_new :: "nat \<Rightarrow> node \<Rightarrow> nat \<Rightarrow> routing_table" where
  "rt_new now_s n ksize =
     \<lparr>rt_node = n, rt_ksize = ksize, rt_buckets = [kbucket_new now_s full_keyspace ksize],
      rt_health = Map.empty, rt_min_lookup_contacts = DEFAULT_MIN_LOOKUP_CONTACTS\<rparr>"

definition set_min_lookup_contacts :: "routing_table \<Rightarrow> nat \<Rightarrow> routing_table" where
  "set_min_lookup_contacts rt cnt = rt\<lparr>rt_min_lookup_contacts := cnt\<rparr>"

definition bucket_index_for :: "routing_table \<Rightarrow> u256 \<Rightarrow> nat" where
  "bucket_index_for rt x =
     (case position (\<lambda>b. kbucket_covers b x) (rt_buckets rt) of
        Some i \<Rightarrow> i
      | None \<Rightarrow> length (rt_buckets rt) - 1)"

definition has_failures :: "routing_table \<Rightarrow> node_id \<Rightarrow> bool" where
  "has_failures rt i \<longleftrightarrow> rt_health rt i \<noteq> None"

definition is_stale :: "routing_table \<Rightarrow> node_id \<Rightarrow> bool" where
  "is_stale rt i \<longleftrightarrow>
     (case rt_health rt i of
        None \<Rightarrow> False
      | Some h \<Rightarrow> ch_failures h \<ge> STALE_AFTER_FAILURES)"

definition remove_contact :: "routing_table \<Rightarrow> node \<Rightarrow> routing_table" where
  "remove_contact rt n =
     (let idx = bucket_index_for rt (long_id n) in
      rt\<lparr>rt_buckets := (rt_buckets rt)[idx := kbucket_remove_node (rt_buckets rt ! idx) n],
         rt_health := (rt_health rt)(nid n := None)\<rparr>)"

definition replace_stale_if_full :: "routing_table \<Rightarrow> nat \<Rightarrow> node \<Rightarrow> routing_table" where
  "replace_stale_if_full rt idx n =
     (let b = rt_buckets rt ! idx in
      if length (bk_nodes b) < rt_ksize rt \<or> kbucket_contains b n then rt
      else (case find (\<lambda>m. is_stale rt (nid m)) (bk_nodes b) of
              None \<Rightarrow> rt
            | Some stale \<Rightarrow> remove_contact rt stale))"

definition split_bucket :: "nat \<Rightarrow> routing_table \<Rightarrow> nat \<Rightarrow> routing_table" where
  "split_bucket now_s rt idx =
     (let (low, high) = kbucket_split now_s (rt_buckets rt ! idx) in
      rt\<lparr>rt_buckets := take idx (rt_buckets rt) @ low # high # drop (Suc idx) (rt_buckets rt)\<rparr>)"

partial_function (option) rt_insert ::
    "nat \<Rightarrow> routing_table \<Rightarrow> node \<Rightarrow> (routing_table \<times> node option) option" where
  "rt_insert now_s rt n =
     (let idx = bucket_index_for rt (long_id n);
          rt1 = replace_stale_if_full rt idx n;
          (b, added) = kbucket_add_node (rt_buckets rt1 ! idx) n;
          rt2 = rt1\<lparr>rt_buckets := (rt_buckets rt1)[idx := b]\<rparr>
      in if added then Some (rt2, None)
         else if kbucket_covers b (long_id (rt_node rt2)) \<or> \<not> 5 dvd kbucket_depth b
         then rt_insert now_s (split_bucket now_s rt2 idx) n
         else Some (rt2, kbucket_head b))"

declare rt_insert.simps [code]

definition add_contact ::
    "nat \<Rightarrow> routing_table \<Rightarrow> node \<Rightarrow> (routing_table \<times> node option) option" where
  "add_contact now_s rt n =
     (if nid n = nid (rt_node rt) then Some (rt, None) else rt_insert now_s rt n)"

definition record_failure_at ::
    "(duration \<Rightarrow> duration) \<Rightarrow> routing_table \<Rightarrow> node \<Rightarrow> instant \<Rightarrow> routing_table" where
  "record_failure_at jit rt n now =
     (let idx = bucket_index_for rt (long_id n); b = rt_buckets rt ! idx;
          replace_if_stale = (\<lambda>failures rt'.
            if failures \<ge> STALE_AFTER_FAILURES \<and> kbucket_has_replacement (rt_buckets rt' ! idx)
            then remove_contact rt' n else rt')
      in if \<not> kbucket_contains b n
         then rt\<lparr>rt_buckets := (rt_buckets rt)[idx := kbucket_remove_node b n]\<rparr>
         else
           (case rt_health rt (nid n) of
              Some h \<Rightarrow>
                if now < ch_retry_after h then rt
                else
                  (let failures = ch_failures h + 1 in
                   replace_if_stale failures
                     (rt\<lparr>rt_health := (rt_health rt)(nid n \<mapsto>
                        h\<lparr>ch_failures := failures, ch_retry_after := now + backoff jit failures\<rparr>)\<rparr>))
            | None \<Rightarrow>
                replace_if_stale 1
                  (rt\<lparr>rt_health := (rt_health rt)(nid n \<mapsto>
                     \<lparr>ch_failures = 1, ch_first_failure = now,
                      ch_retry_after = now + backoff jit 1\<rparr>)\<rparr>)))"

text \<open>\<open>first_failure.elapsed()\<close> is the time since then, zero if the clock went backwards.\<close>

definition record_success ::
    "routing_table \<Rightarrow> node_id \<Rightarrow> instant \<Rightarrow> routing_table \<times> duration option" where
  "record_success rt i now =
     (rt\<lparr>rt_health := (rt_health rt)(i := None)\<rparr>,
      map_option (\<lambda>h. now - ch_first_failure h) (rt_health rt i))"

definition primaries :: "routing_table \<Rightarrow> node list" where
  "primaries rt = concat (map bk_nodes (rt_buckets rt))"

definition contacts_due_for_probe :: "routing_table \<Rightarrow> nat \<Rightarrow> instant \<Rightarrow> node list" where
  "contacts_due_for_probe rt limit now =
     (let due = List.map_filter
            (\<lambda>n. case rt_health rt (nid n) of
                None \<Rightarrow> None
              | Some h \<Rightarrow> if now \<ge> ch_retry_after h then Some (ch_retry_after h, n) else None)
            (primaries rt)
      in map snd (take limit (sort_key fst due)))"

definition live_contacts :: "routing_table \<Rightarrow> nat" where
  "live_contacts rt = length (filter (\<lambda>n. \<not> has_failures rt (nid n)) (primaries rt))"

definition has_contacts :: "routing_table \<Rightarrow> bool" where
  "has_contacts rt \<longleftrightarrow> (\<exists>b\<in>set (rt_buckets rt). bk_nodes b \<noteq> [])"

definition is_new_node :: "routing_table \<Rightarrow> node \<Rightarrow> bool" where
  "is_new_node rt n \<longleftrightarrow>
     \<not> kbucket_contains (rt_buckets rt ! bucket_index_for rt (long_id n)) n"

definition get_contact :: "routing_table \<Rightarrow> node_id \<Rightarrow> node option" where
  "get_contact rt i =
     find (\<lambda>n. nid n = i)
       (concat (map (\<lambda>b. bk_nodes b @ bk_replacement_nodes b) (rt_buckets rt)))"

text \<open>
  \<open>closest\<close> touches the bucket of the target through its atomic timestamp, then sorts every
  primary contact it may return.
\<close>

definition closest ::
    "nat \<Rightarrow> routing_table \<Rightarrow> node \<Rightarrow> node option \<Rightarrow> (node \<Rightarrow> bool) \<Rightarrow>
     routing_table \<times> node list" where
  "closest now_s rt target exclude keep =
     (let idx = bucket_index_for rt (long_id target);
          rt' = rt\<lparr>rt_buckets := (rt_buckets rt)[idx := touch_last_updated now_s (rt_buckets rt ! idx)]\<rparr>;
          candidates = filter
            (\<lambda>n. nid n \<noteq> nid target \<and>
                 (case exclude of None \<Rightarrow> True | Some e \<Rightarrow> nid n \<noteq> nid e) \<and> keep n)
            (primaries rt');
          nodes = map (\<lambda>n. (distance_to n target, n)) candidates
      in (rt', map snd (take (rt_ksize rt') (sort_key fst nodes))))"

definition find_neighbors ::
    "nat \<Rightarrow> routing_table \<Rightarrow> node \<Rightarrow> node option \<Rightarrow> routing_table \<times> node list" where
  "find_neighbors now_s rt target exclude =
     (let (rt1, healthy) = closest now_s rt target exclude (\<lambda>n. \<not> has_failures rt (nid n)) in
      if length healthy \<ge> rt_min_lookup_contacts rt1 then (rt1, healthy)
      else
        (let (rt2, not_stale) = closest now_s rt1 target exclude (\<lambda>n. \<not> is_stale rt1 (nid n)) in
         if not_stale = [] then closest now_s rt2 target exclude (\<lambda>_. True)
         else (rt2, not_stale)))"

definition find_neighbors_to_advertise ::
    "nat \<Rightarrow> routing_table \<Rightarrow> node \<Rightarrow> node option \<Rightarrow> routing_table \<times> node list" where
  "find_neighbors_to_advertise now_s rt target exclude =
     closest now_s rt target exclude (\<lambda>n. \<not> is_stale rt (nid n))"

definition lonely_buckets :: "nat \<Rightarrow> routing_table \<Rightarrow> kbucket list" where
  "lonely_buckets now_s rt = filter (kbucket_is_lonely now_s) (rt_buckets rt)"

end
