(* ===== verification/RoutingInv.thy ===== *)
theory RoutingInv
  imports Routing
begin

text \<open>
  The invariants of the routing table and of its buckets, what every operation of
  \<open>src/src/routing.rs\<close> keeps of them, and the termination of \<open>RoutingTable::insert\<close>.
\<close>

lemma disjoint_insert_mono: "S \<subseteq> insert x B \<Longrightarrow> x \<notin> A \<Longrightarrow> A \<inter> B = {} \<Longrightarrow> A \<inter> S = {}"
  by blast

subsection \<open>Bucket operations, as lists\<close>

lemma evict_front_drop: "evict_front m xs = drop (length xs - m) xs"
proof (induction xs)
  case (Cons x xs)
  show ?case
  proof (cases "length (x # xs) > m")
    case True
    then have "length (x # xs) - m = Suc (length xs - m)" by simp
    with True Cons.IH show ?thesis by simp
  qed simp
qed simp

lemma evict_front_facts:
  "length (evict_front m xs) = min m (length xs)"
  "set (evict_front m xs) \<subseteq> set xs"
  "distinct (map f xs) \<Longrightarrow> distinct (map f (evict_front m xs))"
  by (auto simp: evict_front_drop set_drop_subset simp flip: drop_map)

lemma evict_front_id [simp]: "length xs \<le> m \<Longrightarrow> evict_front m xs = xs"
  by (simp add: evict_front_drop)

lemma evict_front_snoc: "0 < m \<Longrightarrow> \<exists>ys. evict_front m (xs @ [x]) = ys @ [x] \<and> set ys \<subseteq> set xs"
  by (auto simp: evict_front_drop dest: in_set_dropD)

text \<open>
  What every bucket of a table satisfies: the capacities of its constructor, no identifier twice,
  every node in its range, and a replacement only waits when the primary list is full.
\<close>

definition bucket_inv :: "nat \<Rightarrow> kbucket \<Rightarrow> bool" where
  "bucket_inv k b \<longleftrightarrow>
     bk_ksize b = k \<and> bk_max_replacement_nodes b = k * 5 \<and>
     length (bk_nodes b) \<le> k \<and> length (bk_replacement_nodes b) \<le> k * 5 \<and>
     distinct (map nid (bk_nodes b @ bk_replacement_nodes b)) \<and>
     (\<forall>n \<in> set (bk_nodes b @ bk_replacement_nodes b). kbucket_covers b (long_id n)) \<and>
     (bk_replacement_nodes b \<noteq> [] \<longrightarrow> length (bk_nodes b) = k)"

lemma bucket_invD:
  assumes "bucket_inv k b"
  shows "bk_ksize b = k" "bk_max_replacement_nodes b = k * 5"
    "length (bk_nodes b) \<le> k" "length (bk_replacement_nodes b) \<le> k * 5"
    "distinct (map nid (bk_nodes b))" "distinct (map nid (bk_replacement_nodes b))"
    "nid ` set (bk_nodes b) \<inter> nid ` set (bk_replacement_nodes b) = {}"
    "n \<in> set (bk_nodes b) \<union> set (bk_replacement_nodes b) \<Longrightarrow> kbucket_covers b (long_id n)"
    "bk_replacement_nodes b \<noteq> [] \<Longrightarrow> length (bk_nodes b) = k"
  using assms by (auto simp: bucket_inv_def)

lemma kbucket_contains_iff: "kbucket_contains b n \<longleftrightarrow> nid n \<in> nid ` set (bk_nodes b)"
  by (simp add: kbucket_contains_def image_iff eq_commute)

lemma position_nid_None:
  "nid n \<notin> nid ` set ms \<Longrightarrow> position (\<lambda>m. nid m = nid n) ms = None"
  by (auto simp: position_None_iff image_iff)

lemma position_nid_Some:
  "nid n \<in> nid ` set ms \<Longrightarrow> \<exists>i. position (\<lambda>m. nid m = nid n) ms = Some i"
  by (force simp: image_iff simp flip: not_None_eq)

abbreviation others :: "node \<Rightarrow> node list \<Rightarrow> node list" where
  "others n ms \<equiv> filter (\<lambda>m. nid m \<noteq> nid n) ms"

lemma others_id [simp]: "nid n \<notin> nid ` set ms \<Longrightarrow> others n ms = ms"
  by (force simp: filter_id_conv image_iff)

text \<open>\<open>add_node\<close>, one equation per branch.\<close>

lemma add_node_known:
  assumes "distinct (map nid (bk_nodes b))" "nid n \<in> nid ` set (bk_nodes b)"
  shows "kbucket_add_node b n = (b\<lparr>bk_nodes := others n (bk_nodes b) @ [n]\<rparr>, True)"
  using position_nid_Some [OF assms(2)] assms(1)
  by (auto simp: kbucket_add_node_def remove_at_position_filter)

lemma add_node_room:
  assumes "nid n \<notin> nid ` set (bk_nodes b)" "length (bk_nodes b) < bk_ksize b"
  shows "kbucket_add_node b n = (b\<lparr>bk_nodes := bk_nodes b @ [n]\<rparr>, True)"
  unfolding kbucket_add_node_def position_nid_None [OF assms(1)] using assms(2) by simp

lemma add_node_full:
  assumes "nid n \<notin> nid ` set (bk_nodes b)" "\<not> length (bk_nodes b) < bk_ksize b"
    and "distinct (map nid (bk_replacement_nodes b))"
  shows "kbucket_add_node b n =
    (b\<lparr>bk_replacement_nodes := evict_front (bk_max_replacement_nodes b)
        (others n (bk_replacement_nodes b) @ [n])\<rparr>, False)"
proof (cases "nid n \<in> nid ` set (bk_replacement_nodes b)")
  case True
  from position_nid_Some [OF this] obtain i where
    "position (\<lambda>m. nid m = nid n) (bk_replacement_nodes b) = Some i" by blast
  then show ?thesis unfolding kbucket_add_node_def position_nid_None [OF assms(1)]
    using assms(2,3) by (simp add: remove_at_position_filter)
next
  case False
  then show ?thesis
    unfolding kbucket_add_node_def position_nid_None [OF assms(1)] position_nid_None [OF False]
    using assms(2) by simp
qed

lemma covers_update [simp]:
  "kbucket_covers (b\<lparr>bk_nodes := ns\<rparr>) x = kbucket_covers b x"
  "kbucket_covers (b\<lparr>bk_replacement_nodes := rs\<rparr>) x = kbucket_covers b x"
  "kbucket_covers (b\<lparr>bk_last_updated := t\<rparr>) x = kbucket_covers b x"
  by (simp_all add: kbucket_covers_def)

lemma add_node_frame [simp]:
  "bk_range (fst (kbucket_add_node b n)) = bk_range b"
  "bk_ksize (fst (kbucket_add_node b n)) = bk_ksize b"
  "bk_max_replacement_nodes (fst (kbucket_add_node b n)) = bk_max_replacement_nodes b"
  by (auto simp: kbucket_add_node_def Let_def split: option.splits)

lemma bucket_inv_update:
  assumes "bucket_inv k b" "length ns \<le> k" "length rs \<le> k * 5"
    and "distinct (map nid ns)" "distinct (map nid rs)" "nid ` set ns \<inter> nid ` set rs = {}"
    and "\<And>n. n \<in> set ns \<union> set rs \<Longrightarrow> kbucket_covers b (long_id n)"
    and "rs \<noteq> [] \<Longrightarrow> length ns = k"
  shows "bucket_inv k (b\<lparr>bk_nodes := ns, bk_replacement_nodes := rs\<rparr>)"
  unfolding bucket_inv_def using bucket_invD(1,2) [OF assms(1)] assms(2-) by simp

lemma bucket_inv_nodes_update:
  assumes "bucket_inv k b" "length ns \<le> k" "distinct (map nid ns)"
    and "nid ` set ns \<inter> nid ` set (bk_replacement_nodes b) = {}"
    and "\<And>n. n \<in> set ns \<Longrightarrow> kbucket_covers b (long_id n)"
    and "bk_replacement_nodes b \<noteq> [] \<Longrightarrow> length ns = k"
  shows "bucket_inv k (b\<lparr>bk_nodes := ns\<rparr>)"
proof -
  note D = bucket_invD [OF assms(1)]
  have "bucket_inv k (b\<lparr>bk_nodes := ns, bk_replacement_nodes := bk_replacement_nodes b\<rparr>)"
    by (rule bucket_inv_update) (use assms D in blast)+
  then show ?thesis by simp
qed

lemma bucket_inv_replacements_update:
  assumes "bucket_inv k b" "length rs \<le> k * 5" "distinct (map nid rs)"
    and "nid ` set (bk_nodes b) \<inter> nid ` set rs = {}"
    and "\<And>n. n \<in> set rs \<Longrightarrow> kbucket_covers b (long_id n)"
    and "rs \<noteq> [] \<Longrightarrow> length (bk_nodes b) = k"
  shows "bucket_inv k (b\<lparr>bk_replacement_nodes := rs\<rparr>)"
proof -
  note D = bucket_invD [OF assms(1)]
  have "bucket_inv k (b\<lparr>bk_nodes := bk_nodes b, bk_replacement_nodes := rs\<rparr>)"
    by (rule bucket_inv_update) (use assms D in blast)+
  then show ?thesis by simp
qed

lemma distinct_others: "distinct (map nid ms) \<Longrightarrow> distinct (map nid (others n ms))"
  by (rule distinct_map_filter)

lemma length_others_known:
  assumes "distinct (map nid ms)" "nid n \<in> nid ` set ms"
  shows "length (others n ms) + 1 = length ms"
proof -
  from position_nid_Some [OF assms(2)] obtain i where
    i: "position (\<lambda>m. nid m = nid n) ms = Some i" by blast
  then have "others n ms = remove_at i ms" using assms(1) by (simp add: remove_at_position_filter)
  with position_SomeD(1) [OF i] show ?thesis by simp
qed

lemma add_node_inv [inv_intros]:
  assumes inv: "bucket_inv k b" and cov: "kbucket_covers b (long_id n)"
  shows "bucket_inv k (fst (kbucket_add_node b n))"
proof -
  note D = bucket_invD [OF inv]
  consider (known) "nid n \<in> nid ` set (bk_nodes b)"
    | (room) "nid n \<notin> nid ` set (bk_nodes b)" "length (bk_nodes b) < k"
    | (full) "nid n \<notin> nid ` set (bk_nodes b)" "length (bk_nodes b) = k"
    using D(3) by linarith
  then show ?thesis
  proof cases
    case known
    have len: "length (others n (bk_nodes b) @ [n]) = length (bk_nodes b)"
      using length_others_known [OF D(5) known] by simp
    have img: "nid ` set (others n (bk_nodes b) @ [n]) = nid ` set (bk_nodes b)"
      using known by auto
    have "bucket_inv k (b\<lparr>bk_nodes := others n (bk_nodes b) @ [n]\<rparr>)"
    proof (rule bucket_inv_nodes_update [OF inv])
      show "distinct (map nid (others n (bk_nodes b) @ [n]))"
        using distinct_others [OF D(5), of n] by auto
      show "nid ` set (others n (bk_nodes b) @ [n]) \<inter> nid ` set (bk_replacement_nodes b) = {}"
        unfolding img by (rule D(7))
      show "kbucket_covers b (long_id m)" if "m \<in> set (others n (bk_nodes b) @ [n])" for m
        using that cov D(8) by auto
    qed (use len D(3,9) in presburger)+
    then show ?thesis by (simp add: add_node_known [OF D(5) known])
  next
    case room
    then have "bk_replacement_nodes b = []" using D(9) by fastforce
    then have "bucket_inv k (b\<lparr>bk_nodes := bk_nodes b @ [n]\<rparr>)"
      by (intro bucket_inv_nodes_update [OF inv]) (use room D(5,8) cov in auto)
    then show ?thesis using room D(1) by (simp add: add_node_room)
  next
    case full
    let ?r = "evict_front (k * 5) (others n (bk_replacement_nodes b) @ [n])"
    have d: "distinct (map nid ?r)"
      using distinct_others [OF D(6), of n] by (auto intro!: evict_front_facts(3))
    have sub: "set ?r \<subseteq> insert n (set (bk_replacement_nodes b))"
      using evict_front_facts(2) [of "k * 5" "others n (bk_replacement_nodes b) @ [n]"] by auto
    have "bucket_inv k (b\<lparr>bk_replacement_nodes := ?r\<rparr>)"
    proof (rule bucket_inv_replacements_update [OF inv _ d])
      have "nid ` set ?r \<subseteq> insert (nid n) (nid ` set (bk_replacement_nodes b))"
        using image_mono [OF sub, of nid] by (simp only: image_insert)
      then show "nid ` set (bk_nodes b) \<inter> nid ` set ?r = {}" 
        by (rule disjoint_insert_mono) (fact full(1) D(7))+
      show "kbucket_covers b (long_id m)" if "m \<in> set ?r" for m
        using subsetD [OF sub that] cov D(8) [of m] by auto
    qed (simp_all add: full evict_front_facts(1))
    then show ?thesis using full D(1,2) by (simp add: add_node_full D(6))
  qed
qed

lemma remove_node_absent:
  assumes "nid n \<notin> nid ` set (bk_nodes b)"
  shows "kbucket_remove_node b n =
    b\<lparr>bk_replacement_nodes := others n (bk_replacement_nodes b)\<rparr>"
  unfolding kbucket_remove_node_def position_nid_None [OF assms] by (simp add: Let_def)

lemma remove_node_present:
  assumes "bucket_inv k b" "nid n \<in> nid ` set (bk_nodes b)"
  shows "kbucket_remove_node b n =
    (if bk_replacement_nodes b = [] then b\<lparr>bk_nodes := others n (bk_nodes b)\<rparr>
     else b\<lparr>bk_nodes := others n (bk_nodes b) @ [last (bk_replacement_nodes b)],
            bk_replacement_nodes := butlast (bk_replacement_nodes b)\<rparr>)"
proof -
  note D = bucket_invD [OF assms(1)]
  have "nid n \<notin> nid ` set (bk_replacement_nodes b)" using D(7) assms(2) by blast
  then have "others n (bk_replacement_nodes b) = bk_replacement_nodes b" by simp
  then show ?thesis
    using position_nid_Some [OF assms(2)] D(5)
    by (auto simp: kbucket_remove_node_def remove_at_position_filter Let_def)
qed

lemma distinct_map_butlast_last:
  "xs \<noteq> [] \<Longrightarrow> distinct (map f xs) \<Longrightarrow> f (last xs) \<notin> f ` set (butlast xs) \<and> distinct (map f (butlast xs))"
  by (cases xs rule: rev_cases) auto

lemma remove_node_frame [simp]:
  "bk_range (kbucket_remove_node b n) = bk_range b"
  "bk_ksize (kbucket_remove_node b n) = bk_ksize b"
  "bk_max_replacement_nodes (kbucket_remove_node b n) = bk_max_replacement_nodes b"
  by (auto simp: kbucket_remove_node_def Let_def split: option.splits)

lemma remove_node_absent_inv:
  assumes inv: "bucket_inv k b" and absent: "nid n \<notin> nid ` set (bk_nodes b)"
  shows "bucket_inv k (kbucket_remove_node b n)"
proof -
  note D = bucket_invD [OF inv]
  have "bucket_inv k (b\<lparr>bk_replacement_nodes := others n (bk_replacement_nodes b)\<rparr>)"
  proof (rule bucket_inv_replacements_update [OF inv])
    show "length (others n (bk_replacement_nodes b)) \<le> k * 5"
      using D(4) by (rule le_trans [OF length_filter_le])
    show "distinct (map nid (others n (bk_replacement_nodes b)))" by (rule distinct_others [OF D(6)])
    show "nid ` set (bk_nodes b) \<inter> nid ` set (others n (bk_replacement_nodes b)) = {}"
      using D(7) by auto
    show "kbucket_covers b (long_id m)" if "m \<in> set (others n (bk_replacement_nodes b))" for m
      using that by (intro D(8)) simp
    show "length (bk_nodes b) = k" if "others n (bk_replacement_nodes b) \<noteq> []"
      using that by (intro D(9)) auto
  qed
  then show ?thesis by (simp add: remove_node_absent [OF absent])
qed

lemma remove_node_present_inv:
  assumes inv: "bucket_inv k b" and present: "nid n \<in> nid ` set (bk_nodes b)"
  shows "bucket_inv k (kbucket_remove_node b n)"
proof (cases "bk_replacement_nodes b = []")
  case True
  note D = bucket_invD [OF inv]
  have "bucket_inv k (b\<lparr>bk_nodes := others n (bk_nodes b)\<rparr>)"
    using True D(3) distinct_others [OF D(5)] D(8)
    by (intro bucket_inv_nodes_update [OF inv]) (auto intro: le_trans [OF length_filter_le])
  then show ?thesis by (simp add: remove_node_present [OF inv present] True)
next
  case False
  note D = bucket_invD [OF inv]
  let ?ns = "others n (bk_nodes b)" and ?x = "last (bk_replacement_nodes b)"
    and ?rs = "butlast (bk_replacement_nodes b)"
  have full: "length (bk_nodes b) = k" by (rule D(9) [OF False])
  have x: "?x \<in> set (bk_replacement_nodes b)" using False by simp
  have rs: "set ?rs \<subseteq> set (bk_replacement_nodes b)" by (auto dest: in_set_butlastD)
  have ns: "set ?ns \<subseteq> set (bk_nodes b)" by auto
  have dx: "nid ?x \<notin> nid ` set ?rs" "distinct (map nid ?rs)"
    using distinct_map_butlast_last [OF False D(6)] by blast+
  have dn: "nid ?x \<notin> nid ` set (bk_nodes b)" using D(7) x by (metis IntI empty_iff imageI)
  have len: "length (?ns @ [?x]) = k" using length_others_known [OF D(5) present] full by simp
  have "bucket_inv k (b\<lparr>bk_nodes := ?ns @ [?x], bk_replacement_nodes := ?rs\<rparr>)"
  proof (rule bucket_inv_update [OF inv])
    show "distinct (map nid (?ns @ [?x]))" using distinct_others [OF D(5), of n] dn by auto
    have "nid ` set (bk_nodes b) \<inter> nid ` set ?rs = {}"
      using D(7) image_mono [OF rs, of nid] by fast
    then show "nid ` set (?ns @ [?x]) \<inter> nid ` set ?rs = {}" using dx(1) by auto
    show "kbucket_covers b (long_id m)" if "m \<in> set (?ns @ [?x]) \<union> set ?rs" for m
      using that ns rs x by (intro D(8)) auto
  qed (use len dx D(4) in simp_all)
  then show ?thesis by (simp add: remove_node_present [OF inv present] False)
qed

lemma remove_node_inv [inv_intros]: "bucket_inv k b \<Longrightarrow> bucket_inv k (kbucket_remove_node b n)"
  using remove_node_absent_inv remove_node_present_inv by blast

lemma remove_node_set:
  assumes "bucket_inv k b"
  shows "set (bk_nodes (kbucket_remove_node b n)) \<union> set (bk_replacement_nodes (kbucket_remove_node b n))
       = {m \<in> set (bk_nodes b) \<union> set (bk_replacement_nodes b). nid m \<noteq> nid n}"
proof (cases "nid n \<in> nid ` set (bk_nodes b)")
  case True
  then have "nid n \<notin> nid ` set (bk_replacement_nodes b)"
    using bucket_invD(7) [OF assms] by (metis IntI empty_iff)
  then have r: "\<forall>m \<in> set (bk_replacement_nodes b). nid m \<noteq> nid n" by (auto simp: image_iff)
  show ?thesis
  proof (cases "bk_replacement_nodes b" rule: rev_cases)
    case Nil
    then show ?thesis using remove_node_present [OF assms True] by auto
  next
    case (snoc rs x)
    then show ?thesis using remove_node_present [OF assms True] r by auto
  qed
next
  case False
  then show ?thesis by (auto simp: remove_node_absent image_iff)
qed

lemma remove_node_keeps:
  assumes "bucket_inv k b" "m \<in> set (bk_nodes b)" "nid m \<noteq> nid n"
  shows "m \<in> set (bk_nodes (kbucket_remove_node b n))"
  using assms
  by (cases "nid n \<in> nid ` set (bk_nodes b)")
    (simp_all add: remove_node_present remove_node_absent)

subsection \<open>Splitting a bucket\<close>

definition add_all :: "kbucket \<Rightarrow> node list \<Rightarrow> kbucket" where
  "add_all b ns = foldl (\<lambda>b n. fst (kbucket_add_node b n)) b ns"

lemma split_loop_filter:
  "split_loop mid ns (low, high) =
     (add_all low (filter (\<lambda>n. long_id n \<le> mid) ns), add_all high (filter (\<lambda>n. \<not> long_id n \<le> mid) ns))"
  by (induction mid ns "(low, high)" arbitrary: low high rule: split_loop.induct)
    (simp_all add: add_all_def)

lemma add_all_new:
  assumes "distinct (map nid ns)" "length ns \<le> k * 6"
  shows "add_all (kbucket_new t r k) ns =
    (kbucket_new t r k)\<lparr>bk_nodes := take k ns, bk_replacement_nodes := drop k ns\<rparr>"
  using assms
proof (induction ns rule: rev_induct)
  case Nil
  show ?case by (simp add: add_all_def kbucket_new_def)
next
  case (snoc n ns)
  let ?b = "(kbucket_new t r k)\<lparr>bk_nodes := take k ns, bk_replacement_nodes := drop k ns\<rparr>"
  have IH: "add_all (kbucket_new t r k) (ns @ [n]) = fst (kbucket_add_node ?b n)"
    using snoc by (simp add: add_all_def)
  have fresh: "nid n \<notin> nid ` set ns" and dist: "distinct (map nid ns)" using snoc.prems(1) by auto
  have fresh': "nid n \<notin> nid ` set (take k ns)" "nid n \<notin> nid ` set (drop k ns)"
    using fresh by (auto dest: in_set_takeD in_set_dropD)
  have dd: "distinct (map nid (drop k ns))" using dist by (simp flip: drop_map)
  show ?case
  proof (cases "length ns < k")
    case True
    then show ?thesis using fresh unfolding IH by (simp add: add_node_room kbucket_new_def)
  next
    case False
    then have "fst (kbucket_add_node ?b n) =
        ?b\<lparr>bk_replacement_nodes := evict_front (k * 5) (drop k ns @ [n])\<rparr>"
      using fresh' dd by (simp add: add_node_full kbucket_new_def)
    with False snoc.prems(2) show ?thesis unfolding IH by simp
  qed
qed

lemma midpoint:
  fixes lo hi :: u256
  assumes "lo < hi"
  shows "lo \<le> lo + (hi - lo) div 2" "lo + (hi - lo) div 2 < hi"
proof -
  have d: "unat (hi - lo) = unat hi - unat lo" using assms by (simp add: unat_sub)
  have lt: "unat lo < unat hi" using assms by (simp add: word_less_nat_alt)
  have "unat lo + unat ((hi - lo) div 2) < unat hi" using lt d by (simp add: unat_div)
  moreover have "unat hi < 2 ^ LENGTH(256)" by (rule unsigned_less)
  ultimately have u: "unat (lo + (hi - lo) div 2) = unat lo + (unat hi - unat lo) div 2"
    by (subst unat_add_lem [THEN iffD1]) (simp_all add: unat_div d)
  show "lo \<le> lo + (hi - lo) div 2" by (simp add: word_le_nat_alt u)
  show "lo + (hi - lo) div 2 < hi" using lt by (simp add: word_less_nat_alt u)
qed

definition split_mid :: "kbucket \<Rightarrow> u256" where
  "split_mid b = fst (bk_range b) + (snd (bk_range b) - fst (bk_range b)) div 2"

definition half :: "nat \<Rightarrow> u256 \<times> u256 \<Rightarrow> (node \<Rightarrow> bool) \<Rightarrow> kbucket \<Rightarrow> kbucket" where
  "half t r P b = (let ns = filter P (bk_nodes b @ bk_replacement_nodes b); k = bk_ksize b in
     (kbucket_new t r k)\<lparr>bk_nodes := take k ns, bk_replacement_nodes := drop k ns\<rparr>)"

lemma split_halves:
  assumes "bucket_inv k b"
  shows "kbucket_split t b =
    (half t (fst (bk_range b), split_mid b) (\<lambda>n. long_id n \<le> split_mid b) b,
     half t (split_mid b + 1, snd (bk_range b)) (\<lambda>n. \<not> long_id n \<le> split_mid b) b)"
proof -
  note D = bucket_invD [OF assms]
  let ?all = "bk_nodes b @ bk_replacement_nodes b"
  have dist: "distinct (map nid ?all)" using assms by (simp add: bucket_inv_def)
  have len: "length (filter P ?all) \<le> k * 6" for P
    using D(3,4) length_filter_le [of P ?all] by simp
  show ?thesis
    unfolding kbucket_split_def Let_def split_loop_filter half_def split_mid_def D(1)
    by (simp only: add_all_new [OF distinct_map_filter [OF dist] len])
qed

lemma half_inv:
  assumes inv: "bucket_inv k b"
    and cov: "\<And>n. kbucket_covers b (long_id n) \<Longrightarrow> P n \<Longrightarrow> fst r \<le> long_id n \<and> long_id n \<le> snd r"
  shows "bucket_inv k (half t r P b)"
proof -
  note D = bucket_invD [OF inv]
  let ?all = "bk_nodes b @ bk_replacement_nodes b" and ?new = "kbucket_new t r k"
  let ?ns = "filter P ?all"
  have dist: "distinct (map nid ?ns)"
    using inv unfolding bucket_inv_def by (intro distinct_map_filter) blast
  have len: "length ?ns \<le> k * 6" using D(3,4) length_filter_le [of P ?all] by simp
  have new: "bucket_inv k ?new" by (simp add: bucket_inv_def kbucket_new_def)
  have "bucket_inv k (?new\<lparr>bk_nodes := take k ?ns, bk_replacement_nodes := drop k ?ns\<rparr>)"
  proof (rule bucket_inv_update [OF new])
    show "distinct (map nid (take k ?ns))" "distinct (map nid (drop k ?ns))"
      using dist by (simp_all only: take_map [symmetric] drop_map [symmetric] distinct_take distinct_drop)
    show "nid ` set (take k ?ns) \<inter> nid ` set (drop k ?ns) = {}"
      using dist set_take_disj_set_drop_if_distinct [of "map nid ?ns" k k]
      by (simp only: take_map drop_map set_map order_refl)
    show "kbucket_covers ?new (long_id m)" if "m \<in> set (take k ?ns) \<union> set (drop k ?ns)" for m
    proof -
      have "m \<in> set ?ns" using that by (auto dest: in_set_takeD in_set_dropD simp del: filter_append)
      then have "P m" "kbucket_covers b (long_id m)" using D(8) by auto
      then show ?thesis using cov by (simp add: kbucket_covers_def kbucket_new_def)
    qed
  qed (use len in \<open>simp_all del: filter_append\<close>)
  then show ?thesis by (simp add: half_def D(1))
qed

lemma half_range [simp]: "bk_range (half t r P b) = r"
  by (simp add: half_def Let_def kbucket_new_def)

lemma half_set:
  "set (bk_nodes (half t r P b)) \<union> set (bk_replacement_nodes (half t r P b)) =
     {n \<in> set (bk_nodes b) \<union> set (bk_replacement_nodes b). P n}"
proof -
  have "set (take k xs) \<union> set (drop k xs) = set xs" for k and xs :: "node list"
    by (metis append_take_drop_id set_append)
  then show ?thesis by (auto simp: half_def Let_def simp del: filter_append)
qed

lemma half_keeps:
  assumes "bucket_inv k b" "n \<in> set (bk_nodes b)" "P n"
  shows "n \<in> set (bk_nodes (half t r P b))"
proof -
  note D = bucket_invD [OF assms(1)]
  have "length (filter P (bk_nodes b)) \<le> k" using D(3) by (rule le_trans [OF length_filter_le])
  then have "set (filter P (bk_nodes b)) \<subseteq> set (take k (filter P (bk_nodes b @ bk_replacement_nodes b)))"
    by (simp add: take_append)
  then show ?thesis using assms(2,3) by (auto simp: half_def Let_def D(1))
qed

lemma split_inv:
  assumes inv: "bucket_inv k b" and proper: "fst (bk_range b) < snd (bk_range b)"
  shows "bucket_inv k (fst (kbucket_split t b))" "bucket_inv k (snd (kbucket_split t b))"
proof -
  have "bucket_inv k (half t (fst (bk_range b), split_mid b) (\<lambda>n. long_id n \<le> split_mid b) b)"
    by (rule half_inv [OF inv]) (simp add: kbucket_covers_def)
  moreover have
    "bucket_inv k (half t (split_mid b + 1, snd (bk_range b)) (\<lambda>n. \<not> long_id n \<le> split_mid b) b)"
    by (rule half_inv [OF inv]) (simp add: kbucket_covers_def inc_le)
  ultimately show "bucket_inv k (fst (kbucket_split t b))" "bucket_inv k (snd (kbucket_split t b))"
    by (simp_all add: split_halves [OF inv])
qed

subsection \<open>The ranges of a table partition the key space\<close>

fun tiles :: "u256 \<Rightarrow> (u256 \<times> u256) list \<Rightarrow> u256 \<Rightarrow> bool" where
  "tiles lo [] hi \<longleftrightarrow> False"
| "tiles lo [r] hi \<longleftrightarrow> r = (lo, hi) \<and> lo \<le> hi"
| "tiles lo (r # r' # rs) hi \<longleftrightarrow>
     fst r = lo \<and> lo \<le> snd r \<and> snd r < hi \<and> tiles (snd r + 1) (r' # rs) hi"

abbreviation in_range :: "u256 \<Rightarrow> u256 \<times> u256 \<Rightarrow> bool" where
  "in_range x r \<equiv> fst r \<le> x \<and> x \<le> snd r"

lemma covers_in_range: "kbucket_covers b x \<longleftrightarrow> in_range x (bk_range b)"
  by (simp add: kbucket_covers_def)

lemma word_above_iff:
  fixes a :: "'a::len word"
  assumes "a < b"
  shows "a + 1 \<le> x \<longleftrightarrow> a < x"
proof
  have "unat a + unat (1 :: 'a word) < 2 ^ LENGTH('a)"
    using assms [unfolded word_less_nat_alt] unsigned_less [of b, where ?'a = nat]
    unfolding unsigned_1 by linarith
  then have "unat (a + 1) = Suc (unat a)" by (simp add: unat_add_lem [THEN iffD1])
  then show "a < x" if "a + 1 \<le> x" using that by (simp add: word_le_nat_alt word_less_nat_alt)
qed (rule inc_le)

lemma tiles_member: "tiles lo rs hi \<Longrightarrow> r \<in> set rs \<Longrightarrow> lo \<le> fst r \<and> fst r \<le> snd r \<and> snd r \<le> hi"
proof (induction lo rs hi rule: tiles.induct)
  case (3 lo r' r'' rs hi)
  then have "lo \<le> snd r'" "snd r' < hi" by auto
  then have "lo \<le> snd r' + 1" 
    using word_above_iff [of "snd r'" hi "snd r' + 1"] by simp
  with 3 show ?case by fastforce
qed auto

lemma tiles_cover: "tiles lo rs hi \<Longrightarrow> lo \<le> x \<Longrightarrow> x \<le> hi \<Longrightarrow> \<exists>r \<in> set rs. in_range x r"
proof (induction lo rs hi rule: tiles.induct)
  case (3 lo r r' rs hi)
  show ?case
  proof (cases "x \<le> snd r")
    case False
    then have "snd r + 1 \<le> x" by (simp add: inc_le)
    with 3 show ?thesis by auto
  qed (use 3 in auto)
qed auto

lemma tiles_unique:
  "tiles lo rs hi \<Longrightarrow> i < length rs \<Longrightarrow> j < length rs \<Longrightarrow>
   in_range x (rs ! i) \<Longrightarrow> in_range x (rs ! j) \<Longrightarrow> i = j"
proof (induction lo rs hi arbitrary: i j rule: tiles.induct)
  case (3 lo r r' rs hi)
  have rest: "snd r < x" if "in_range x ((r' # rs) ! m)" "m < length (r' # rs)" for m
  proof -
    have "tiles (snd r + 1) (r' # rs) hi" "snd r < hi" using 3 by auto
    then have "snd r + 1 \<le> fst ((r' # rs) ! m)"
      using tiles_member nth_mem [OF that(2)] by blast
    then show ?thesis using that(1) word_above_iff [OF \<open>snd r < hi\<close>] by (meson order.trans)
  qed
  show ?case
  proof (cases i)
    case 0
    then show ?thesis using 3 rest [of "j - 1"] by (cases j) auto
  next
    case (Suc i')
    then have "snd r < x" using 3 rest [of i'] by simp
    then obtain j' where "j = Suc j'" using 3 by (cases j) auto
    with Suc 3 show ?thesis by simp
  qed
qed auto

lemma tiles_split:
  "tiles lo (xs @ r # ys) hi \<Longrightarrow> fst r \<le> m \<Longrightarrow> m < snd r \<Longrightarrow>
   tiles lo (xs @ (fst r, m) # (m + 1, snd r) # ys) hi"
proof (induction xs arbitrary: lo)
  case Nil
  then have "m + 1 \<le> snd r" by (simp add: inc_le)
  with Nil show ?case
    by (cases ys) (auto intro: order.strict_trans)
next
  case (Cons x xs)
  then show ?case by (cases xs) auto
qed

subsection \<open>The invariant of the table\<close>

definition bucket_ids :: "kbucket \<Rightarrow> node_id set" where
  "bucket_ids b = nid ` (set (bk_nodes b) \<union> set (bk_replacement_nodes b))"

definition health_ok :: "kbucket list \<Rightarrow> (node_id \<rightharpoonup> contact_health) \<Rightarrow> bool" where
  "health_ok bs health \<longleftrightarrow>
     (\<forall>i h. health i = Some h \<longrightarrow> 1 \<le> ch_failures h \<and> (\<exists>b \<in> set bs. i \<in> nid ` set (bk_nodes b)))"

definition rt_inv :: "routing_table \<Rightarrow> bool" where
  "rt_inv rt \<longleftrightarrow>
     tiles 0 (map bk_range (rt_buckets rt)) (2 ^ 160 - 1) \<and>
     (\<forall>b \<in> set (rt_buckets rt). bucket_inv (rt_ksize rt) b \<and> nid (rt_node rt) \<notin> bucket_ids b) \<and>
     health_ok (rt_buckets rt) (rt_health rt)"

lemma full_keyspace_eq: "full_keyspace = (0, 2 ^ 160 - 1)"
  by (simp add: full_keyspace_def push_bit_eq_mult)

lemma rt_new_inv [inv_intros]: "rt_inv (rt_new t n k)"
  by (simp add: rt_inv_def rt_new_def full_keyspace_eq kbucket_new_def bucket_inv_def
      bucket_ids_def health_ok_def)

lemma long_id_bound: "long_id n \<le> 2 ^ 160 - 1"
  using id_to_u256_lt [of "nid n"] by (simp add: long_id_def word_less_nat_alt word_le_nat_alt)

lemma rt_invD:
  assumes "rt_inv rt"
  shows "tiles 0 (map bk_range (rt_buckets rt)) (2 ^ 160 - 1)"
    and "b \<in> set (rt_buckets rt) \<Longrightarrow> bucket_inv (rt_ksize rt) b"
    and "b \<in> set (rt_buckets rt) \<Longrightarrow> nid (rt_node rt) \<notin> bucket_ids b"
    and "health_ok (rt_buckets rt) (rt_health rt)"
  using assms by (auto simp: rt_inv_def)

lemma bucket_index_covers:
  assumes "rt_inv rt"
  shows "bucket_index_for rt (long_id n) < length (rt_buckets rt)"
    and "kbucket_covers (rt_buckets rt ! bucket_index_for rt (long_id n)) (long_id n)"
proof -
  obtain b where "b \<in> set (rt_buckets rt)" "kbucket_covers b (long_id n)"
    using tiles_cover [OF rt_invD(1) [OF assms] _ long_id_bound] by (auto simp: covers_in_range)
  then obtain i where "position (\<lambda>b. kbucket_covers b (long_id n)) (rt_buckets rt) = Some i"
    by (metis not_None_eq position_None_iff)
  then show "bucket_index_for rt (long_id n) < length (rt_buckets rt)"
    and "kbucket_covers (rt_buckets rt ! bucket_index_for rt (long_id n)) (long_id n)"
    by (auto simp: bucket_index_for_def dest: position_SomeD)
qed

lemma covering_bucket_unique:
  assumes "rt_inv rt" "i < length (rt_buckets rt)" "kbucket_covers (rt_buckets rt ! i) (long_id n)"
  shows "bucket_index_for rt (long_id n) = i"
  using tiles_unique [OF rt_invD(1) [OF assms(1)], of "bucket_index_for rt (long_id n)" i "long_id n"]
    bucket_index_covers [OF assms(1), of n] assms(2,3) by (simp add: covers_in_range)

lemma rt_inv_update:
  assumes inv: "rt_inv rt" and i: "i < length (rt_buckets rt)"
    and b': "bucket_inv (rt_ksize rt) b'" "bk_range b' = bk_range (rt_buckets rt ! i)"
      "nid (rt_node rt) \<notin> bucket_ids b'"
    and h': "\<And>j h. health' j = Some h \<Longrightarrow> 1 \<le> ch_failures h \<and>
        (j \<in> nid ` set (bk_nodes b') \<or> rt_health rt j \<noteq> None \<and> j \<notin> nid ` set (bk_nodes (rt_buckets rt ! i)))"
  shows "rt_inv (rt\<lparr>rt_buckets := (rt_buckets rt)[i := b'], rt_health := health'\<rparr>)"
proof -
  have "map bk_range ((rt_buckets rt)[i := b']) = map bk_range (rt_buckets rt)"
    by (metis b'(2) i list_update_id map_update nth_map)
  moreover have "bucket_inv (rt_ksize rt) b \<and> nid (rt_node rt) \<notin> bucket_ids b"
    if "b \<in> set ((rt_buckets rt)[i := b'])" for b
    using that set_update_subset_insert [of "rt_buckets rt" i b'] rt_invD(2,3) [OF inv] b'(1,3)
    by blast
  moreover have "health_ok ((rt_buckets rt)[i := b']) health'"
    unfolding health_ok_def
  proof (intro allI impI conjI)
    fix j h assume j: "health' j = Some h"
    then show "1 \<le> ch_failures h" using h' by blast
    show "\<exists>b \<in> set ((rt_buckets rt)[i := b']). j \<in> nid ` set (bk_nodes b)"
    proof (cases "j \<in> nid ` set (bk_nodes b')")
      case True
      then show ?thesis using i by (meson set_update_memI)
    next
      case False
      then have "rt_health rt j \<noteq> None" and out: "j \<notin> nid ` set (bk_nodes (rt_buckets rt ! i))"
        using h' [OF j] by blast+
      then obtain b where "b \<in> set (rt_buckets rt)" and jb: "j \<in> nid ` set (bk_nodes b)"
        using rt_invD(4) [OF inv] unfolding health_ok_def by blast
      then obtain m where m: "m < length (rt_buckets rt)" "b = rt_buckets rt ! m"
        by (metis in_set_conv_nth)
      with out jb have "m \<noteq> i" by blast
      with m have "(rt_buckets rt)[i := b'] ! m = b" "m < length ((rt_buckets rt)[i := b'])" by simp_all
      with jb show ?thesis by (metis nth_mem)
    qed
  qed
  ultimately show ?thesis using rt_invD(1) [OF inv] by (simp add: rt_inv_def)
qed

subsection \<open>What the operations keep\<close>

lemma remove_contact_inv [inv_intros]:
  assumes inv: "rt_inv rt"
  shows "rt_inv (remove_contact rt n)"
proof -
  let ?i = "bucket_index_for rt (long_id n)"
  let ?b = "rt_buckets rt ! ?i"
  note i = bucket_index_covers(1) [OF inv, of n]
  have b: "?b \<in> set (rt_buckets rt)" by (rule nth_mem [OF i])
  have bi: "bucket_inv (rt_ksize rt) ?b" by (rule rt_invD(2) [OF inv b])
  have sub: "bucket_ids (kbucket_remove_node ?b n) \<subseteq> bucket_ids ?b"
    unfolding bucket_ids_def remove_node_set [OF bi] by auto
  have "rt_inv (rt\<lparr>rt_buckets := (rt_buckets rt)[?i := kbucket_remove_node ?b n],
      rt_health := (rt_health rt)(nid n := None)\<rparr>)"
  proof (rule rt_inv_update [OF inv i])
    show "nid (rt_node rt) \<notin> bucket_ids (kbucket_remove_node ?b n)"
      using sub rt_invD(3) [OF inv b] by blast
    show "1 \<le> ch_failures h \<and> (j \<in> nid ` set (bk_nodes (kbucket_remove_node ?b n)) \<or>
        rt_health rt j \<noteq> None \<and> j \<notin> nid ` set (bk_nodes ?b))"
      if j: "((rt_health rt)(nid n := None)) j = Some h" for j h
    proof -
      have hj: "rt_health rt j = Some h" "j \<noteq> nid n" using j by (auto split: if_splits)
      then have "1 \<le> ch_failures h" using rt_invD(4) [OF inv] by (auto simp: health_ok_def)
      moreover have "j \<in> nid ` set (bk_nodes (kbucket_remove_node ?b n))" if "j \<in> nid ` set (bk_nodes ?b)"
        using that hj(2) remove_node_keeps [OF bi] by blast
      ultimately show ?thesis using hj(1) by auto
    qed
  qed (simp_all add: remove_node_inv [OF bi])
  then show ?thesis by (simp add: remove_contact_def Let_def)
qed

lemma replace_stale_inv [inv_intros]: "rt_inv rt \<Longrightarrow> rt_inv (replace_stale_if_full rt i n)"
  by (simp add: replace_stale_if_full_def Let_def remove_contact_inv split: option.split)

lemma remove_contact_frame [simp]:
  "rt_node (remove_contact rt n) = rt_node rt"
  "rt_ksize (remove_contact rt n) = rt_ksize rt"
  "rt_min_lookup_contacts (remove_contact rt n) = rt_min_lookup_contacts rt"
  "rt_health (remove_contact rt n) = (rt_health rt)(nid n := None)"
  "map bk_range (rt_buckets (remove_contact rt n)) = map bk_range (rt_buckets rt)"
proof -
  show "map bk_range (rt_buckets (remove_contact rt n)) = map bk_range (rt_buckets rt)"
    by (simp add: remove_contact_def Let_def map_update)
      (metis list_update_beyond list_update_id linorder_not_le nth_map length_map)
qed (simp_all add: remove_contact_def Let_def)

lemma replace_stale_frame [simp]:
  "rt_node (replace_stale_if_full rt i n) = rt_node rt"
  "rt_ksize (replace_stale_if_full rt i n) = rt_ksize rt"
  "rt_min_lookup_contacts (replace_stale_if_full rt i n) = rt_min_lookup_contacts rt"
  "map bk_range (rt_buckets (replace_stale_if_full rt i n)) = map bk_range (rt_buckets rt)"
  by (simp_all add: replace_stale_if_full_def Let_def split: option.split)

lemma same_ranges_index:
  assumes "map bk_range (rt_buckets rt') = map bk_range (rt_buckets rt)"
  shows "bucket_index_for rt' x = bucket_index_for rt x"
proof -
  have "position (\<lambda>b. kbucket_covers b x) bs = position (in_range x) (map bk_range bs)" for bs
    by (induction bs) (simp_all add: covers_in_range)
  moreover have "length (rt_buckets rt') = length (rt_buckets rt)" by (metis assms length_map)
  ultimately show ?thesis by (simp only: bucket_index_for_def assms)
qed

lemma add_node_sets:
  assumes "bucket_inv k b"
  shows "bucket_ids (fst (kbucket_add_node b n)) \<subseteq> insert (nid n) (bucket_ids b)"
    and "nid ` set (bk_nodes b) \<subseteq> nid ` set (bk_nodes (fst (kbucket_add_node b n)))"
    and "snd (kbucket_add_node b n) \<Longrightarrow> n \<in> set (bk_nodes (fst (kbucket_add_node b n)))"
    and "\<not> snd (kbucket_add_node b n) \<Longrightarrow>
      length (bk_nodes b) = k \<and> nid n \<notin> nid ` set (bk_nodes b) \<and>
      bk_nodes (fst (kbucket_add_node b n)) = bk_nodes b \<and>
      (0 < k \<longrightarrow> n \<in> set (bk_replacement_nodes (fst (kbucket_add_node b n))))"
proof -
  note D = bucket_invD [OF assms]
  let ?b' = "fst (kbucket_add_node b n)" and ?a = "snd (kbucket_add_node b n)"
  have "bucket_ids ?b' \<subseteq> insert (nid n) (bucket_ids b) \<and>
      nid ` set (bk_nodes b) \<subseteq> nid ` set (bk_nodes ?b') \<and> (?a \<longrightarrow> n \<in> set (bk_nodes ?b')) \<and>
      (\<not> ?a \<longrightarrow> length (bk_nodes b) = k \<and> nid n \<notin> nid ` set (bk_nodes b) \<and>
         bk_nodes ?b' = bk_nodes b \<and> (0 < k \<longrightarrow> n \<in> set (bk_replacement_nodes ?b')))"
  proof (cases "nid n \<in> nid ` set (bk_nodes b)")
    case True
    then show ?thesis by (auto simp: add_node_known [OF D(5)] bucket_ids_def)
  next
    case new: False
    show ?thesis
    proof (cases "length (bk_nodes b) < bk_ksize b")
      case True
      then show ?thesis by (auto simp: add_node_room [OF new] bucket_ids_def)
    next
      case False
      let ?r = "others n (bk_replacement_nodes b) @ [n]"
      have "set (evict_front (k * 5) ?r) \<subseteq> insert n (set (bk_replacement_nodes b))"
        using evict_front_facts(2) [of "k * 5" ?r] by auto
      moreover have "0 < k \<Longrightarrow> n \<in> set (evict_front (k * 5) ?r)"
        using evict_front_snoc [of "k * 5" "others n (bk_replacement_nodes b)" n] by auto
      ultimately show ?thesis
        using new False D(1,2,3) by (auto simp: add_node_full [OF new False D(6)] bucket_ids_def)
    qed
  qed
  then show "bucket_ids ?b' \<subseteq> insert (nid n) (bucket_ids b)"
    "nid ` set (bk_nodes b) \<subseteq> nid ` set (bk_nodes ?b')" "?a \<Longrightarrow> n \<in> set (bk_nodes ?b')"
    "\<not> ?a \<Longrightarrow> length (bk_nodes b) = k \<and> nid n \<notin> nid ` set (bk_nodes b) \<and>
       bk_nodes ?b' = bk_nodes b \<and> (0 < k \<longrightarrow> n \<in> set (bk_replacement_nodes ?b'))"
    by blast+
qed

text \<open>
  One round of \<open>insert\<close>: the stale contact dropped if the bucket is full, then \<open>add_node\<close>.
\<close>

definition round_table :: "routing_table \<Rightarrow> node \<Rightarrow> routing_table" where
  "round_table rt n =
     (let idx = bucket_index_for rt (long_id n); rt1 = replace_stale_if_full rt idx n
      in rt1\<lparr>rt_buckets := (rt_buckets rt1)[idx := fst (kbucket_add_node (rt_buckets rt1 ! idx) n)]\<rparr>)"

definition round_added :: "routing_table \<Rightarrow> node \<Rightarrow> bool" where
  "round_added rt n =
     (let idx = bucket_index_for rt (long_id n); rt1 = replace_stale_if_full rt idx n
      in snd (kbucket_add_node (rt_buckets rt1 ! idx) n))"

lemma rt_insert_round:
  assumes "rt_inv rt"
  shows "rt_insert t rt n =
    (let idx = bucket_index_for rt (long_id n); rt2 = round_table rt n; b = rt_buckets rt2 ! idx in
     if round_added rt n then Some (rt2, None)
     else if kbucket_covers b (long_id (rt_node rt)) \<or> \<not> 5 dvd kbucket_depth b
     then rt_insert t (split_bucket t rt2 idx) n
     else Some (rt2, kbucket_head b))"
proof -
  let ?i = "bucket_index_for rt (long_id n)"
  have "length (rt_buckets (replace_stale_if_full rt ?i n)) = length (rt_buckets rt)"
    by (metis length_map replace_stale_frame(4))
  then have "?i < length (rt_buckets (replace_stale_if_full rt ?i n))"
    using bucket_index_covers(1) [OF assms] by simp
  then show ?thesis
    by (subst rt_insert.simps) (simp add: round_table_def round_added_def Let_def case_prod_beta)
qed

end
