(* ===== verification/RoutingInsert.thy ===== *)
theory RoutingInsert
  imports RoutingInv
begin

text \<open>
  \<open>RoutingTable::insert\<close> returns on every well-formed table, keeps it well-formed, loses no
  contact that is not stale and registers the newcomer.
\<close>

text \<open>What one round, and a whole insertion, keep of the table they start from.\<close>

definition prim_ids :: "routing_table \<Rightarrow> node_id set" where
  "prim_ids rt = (\<Union>b \<in> set (rt_buckets rt). nid ` set (bk_nodes b))"

definition keeps_live :: "routing_table \<Rightarrow> routing_table \<Rightarrow> bool" where
  "keeps_live rt rt' \<longleftrightarrow>
     rt_node rt' = rt_node rt \<and> rt_ksize rt' = rt_ksize rt \<and>
     rt_min_lookup_contacts rt' = rt_min_lookup_contacts rt \<and>
     rt_health rt' \<subseteq>\<^sub>m rt_health rt \<and>
     (\<forall>i \<in> prim_ids rt. \<not> is_stale rt i \<longrightarrow> i \<in> prim_ids rt')"

lemma is_stale_mono: "rt_health rt' \<subseteq>\<^sub>m rt_health rt \<Longrightarrow> is_stale rt' i \<Longrightarrow> is_stale rt i"
  by (force simp: is_stale_def map_le_def dom_def split: option.splits)

lemma keeps_live_refl: "keeps_live rt rt"
  by (simp add: keeps_live_def)

lemma keeps_live_trans: "keeps_live rt rt1 \<Longrightarrow> keeps_live rt1 rt2 \<Longrightarrow> keeps_live rt rt2"
  unfolding keeps_live_def using is_stale_mono map_le_trans by metis

lemma prim_ids_update:
  assumes "i < length (rt_buckets rt)"
  shows "prim_ids (rt\<lparr>rt_buckets := (rt_buckets rt)[i := b']\<rparr>) \<supseteq>
    (prim_ids rt - nid ` set (bk_nodes (rt_buckets rt ! i))) \<union> nid ` set (bk_nodes b')"
proof -
  have "b' \<in> set ((rt_buckets rt)[i := b'])" using assms by (rule set_update_memI)
  moreover have "b \<in> set ((rt_buckets rt)[i := b'])"
    if "b \<in> set (rt_buckets rt)" "b \<noteq> rt_buckets rt ! i" for b
    using that by (metis in_set_conv_nth length_list_update nth_list_update_neq)
  ultimately show ?thesis unfolding prim_ids_def by fastforce
qed

lemma prim_ids_health [simp]: "prim_ids (rt\<lparr>rt_health := h\<rparr>) = prim_ids rt"
  by (simp add: prim_ids_def)

lemma diff_union_cover: "(A - B) \<union> C \<subseteq> P \<Longrightarrow> B - N \<subseteq> C \<Longrightarrow> A - N \<subseteq> P"
  by blast

lemma remove_contact_prim_ids:
  assumes inv: "rt_inv rt"
  shows "prim_ids rt - {nid n} \<subseteq> prim_ids (remove_contact rt n)"
proof -
  let ?i = "bucket_index_for rt (long_id n)"
  let ?b = "rt_buckets rt ! ?i"
  note i = bucket_index_covers(1) [OF inv, of n]
  have bi: "bucket_inv (rt_ksize rt) ?b" by (rule rt_invD(2) [OF inv nth_mem [OF i]])
  have "nid m \<in> nid ` set (bk_nodes (kbucket_remove_node ?b n))"
    if "m \<in> set (bk_nodes ?b)" "nid m \<noteq> nid n" for m
    using remove_node_keeps [OF bi that] by (rule imageI)
  then have "nid ` set (bk_nodes ?b) - {nid n} \<subseteq> nid ` set (bk_nodes (kbucket_remove_node ?b n))"
    by blast
  moreover have "prim_ids (remove_contact rt n) =
      prim_ids (rt\<lparr>rt_buckets := (rt_buckets rt)[?i := kbucket_remove_node ?b n]\<rparr>)"
    by (simp add: remove_contact_def Let_def prim_ids_def)
  ultimately show ?thesis by (metis diff_union_cover prim_ids_update [OF i])
qed

lemma remove_stale_keeps_live:
  assumes inv: "rt_inv rt" and "is_stale rt (nid n)"
  shows "keeps_live rt (remove_contact rt n)"
proof -
  have "i \<in> prim_ids (remove_contact rt n)" if "i \<in> prim_ids rt" "\<not> is_stale rt i" for i
    using that assms(2) remove_contact_prim_ids [OF inv, of n] by blast
  then show ?thesis by (auto simp: keeps_live_def map_le_def)
qed

lemma replace_stale_keeps_live:
  assumes "rt_inv rt"
  shows "keeps_live rt (replace_stale_if_full rt i n)"
  using remove_stale_keeps_live [OF assms]
  by (auto simp: replace_stale_if_full_def Let_def keeps_live_refl find_Some_iff split: option.split)

lemma round_facts:
  assumes inv: "rt_inv rt" and foreign: "nid n \<noteq> nid (rt_node rt)"
  defines "idx \<equiv> bucket_index_for rt (long_id n)" and "rt2 \<equiv> round_table rt n"
  shows "rt_inv rt2" "keeps_live rt rt2"
    "map bk_range (rt_buckets rt2) = map bk_range (rt_buckets rt)"
    "round_added rt n \<Longrightarrow> n \<in> set (bk_nodes (rt_buckets rt2 ! idx))"
    "\<not> round_added rt n \<Longrightarrow> length (bk_nodes (rt_buckets rt2 ! idx)) = rt_ksize rt \<and>
       nid n \<notin> nid ` set (bk_nodes (rt_buckets rt2 ! idx)) \<and>
       (0 < rt_ksize rt \<longrightarrow> n \<in> set (bk_replacement_nodes (rt_buckets rt2 ! idx)))"
proof -
  define rt1 where "rt1 = replace_stale_if_full rt idx n"
  let ?b = "rt_buckets rt1 ! idx"
  have inv1: "rt_inv rt1" unfolding rt1_def by (rule replace_stale_inv [OF inv])
  have kl1: "keeps_live rt rt1" unfolding rt1_def by (rule replace_stale_keeps_live [OF inv])
  have rg1: "map bk_range (rt_buckets rt1) = map bk_range (rt_buckets rt)" by (simp add: rt1_def)
  have idx1: "bucket_index_for rt1 (long_id n) = idx"
    using same_ranges_index [OF rg1] by (simp add: idx_def)
  note i1 = bucket_index_covers [OF inv1, of n, unfolded idx1]
  have k1: "rt_ksize rt1 = rt_ksize rt" "rt_node rt1 = rt_node rt" by (simp_all add: rt1_def)
  have bin: "?b \<in> set (rt_buckets rt1)" by (rule nth_mem [OF i1(1)])
  have bi: "bucket_inv (rt_ksize rt) ?b" using rt_invD(2) [OF inv1 bin] k1 by simp
  have rt2: "rt2 = rt1\<lparr>rt_buckets := (rt_buckets rt1)[idx := fst (kbucket_add_node ?b n)]\<rparr>"
    by (simp add: rt2_def round_table_def idx_def rt1_def Let_def)
  have at: "rt_buckets rt2 ! idx = fst (kbucket_add_node ?b n)" using i1(1) by (simp add: rt2)
  have added: "round_added rt n = snd (kbucket_add_node ?b n)"
    by (simp add: round_added_def Let_def rt1_def idx_def)
  note sets = add_node_sets [OF bi, of n]
  have "rt_inv (rt1\<lparr>rt_buckets := (rt_buckets rt1)[idx := fst (kbucket_add_node ?b n)],
      rt_health := rt_health rt1\<rparr>)"
  proof (rule rt_inv_update [OF inv1 i1(1)])
    show "bucket_inv (rt_ksize rt1) (fst (kbucket_add_node ?b n))"
      unfolding k1 by (rule add_node_inv [OF bi i1(2)])
    show "nid (rt_node rt1) \<notin> bucket_ids (fst (kbucket_add_node ?b n))"
      using sets(1) foreign rt_invD(3) [OF inv1 bin] k1 by auto
    show "1 \<le> ch_failures h \<and> (j \<in> nid ` set (bk_nodes (fst (kbucket_add_node ?b n))) \<or>
        rt_health rt1 j \<noteq> None \<and> j \<notin> nid ` set (bk_nodes ?b))" if "rt_health rt1 j = Some h" for j h
      using that rt_invD(4) [OF inv1] sets(2) by (auto simp: health_ok_def)
  qed simp
  then show "rt_inv rt2" by (simp add: rt2)
  have "prim_ids rt1 \<subseteq> prim_ids rt2"
    unfolding rt2
    using diff_union_cover [OF prim_ids_update [OF i1(1), of "fst (kbucket_add_node ?b n)"], of "{}"]
      sets(2) by simp
  then have "keeps_live rt1 rt2" by (auto simp: keeps_live_def rt2)
  with kl1 show "keeps_live rt rt2" by (rule keeps_live_trans)
  show "map bk_range (rt_buckets rt2) = map bk_range (rt_buckets rt)"
    unfolding rt2 rg1 [symmetric] using i1(1) by (simp add: map_update) (metis list_update_id nth_map)
  show "round_added rt n \<Longrightarrow> n \<in> set (bk_nodes (rt_buckets rt2 ! idx))"
    unfolding at added by (rule sets(3))
  show "\<not> round_added rt n \<Longrightarrow> length (bk_nodes (rt_buckets rt2 ! idx)) = rt_ksize rt \<and>
       nid n \<notin> nid ` set (bk_nodes (rt_buckets rt2 ! idx)) \<and>
       (0 < rt_ksize rt \<longrightarrow> n \<in> set (bk_replacement_nodes (rt_buckets rt2 ! idx)))"
    unfolding at added using sets(4) by simp
qed

subsection \<open>A split keeps the table\<close>

lemma split_content:
  assumes bi: "bucket_inv k b" and split: "kbucket_split t b = (low, high)"
  shows "bk_range low = (fst (bk_range b), split_mid b)"
    "bk_range high = (split_mid b + 1, snd (bk_range b))"
    "bucket_ids low \<subseteq> bucket_ids b" "bucket_ids high \<subseteq> bucket_ids b"
    "nid ` set (bk_nodes b) \<subseteq> nid ` set (bk_nodes low) \<union> nid ` set (bk_nodes high)"
proof -
  have low: "low = half t (fst (bk_range b), split_mid b) (\<lambda>n. long_id n \<le> split_mid b) b"
    and high: "high = half t (split_mid b + 1, snd (bk_range b)) (\<lambda>n. \<not> long_id n \<le> split_mid b) b"
    using split by (simp_all add: split_halves [OF bi])
  show "bk_range low = (fst (bk_range b), split_mid b)"
    "bk_range high = (split_mid b + 1, snd (bk_range b))" by (simp_all add: low high)
  show "bucket_ids low \<subseteq> bucket_ids b" "bucket_ids high \<subseteq> bucket_ids b"
    unfolding bucket_ids_def low high half_set by auto
  have "n \<in> set (bk_nodes low) \<union> set (bk_nodes high)" if "n \<in> set (bk_nodes b)" for n
    unfolding low high using half_keeps [OF bi that] by (cases "long_id n \<le> split_mid b") auto
  then show "nid ` set (bk_nodes b) \<subseteq> nid ` set (bk_nodes low) \<union> nid ` set (bk_nodes high)"
    by blast
qed

lemma replace_by_two:
  fixes xs :: "'a list" and l h
  assumes "i < length xs"
  defines "ys \<equiv> take i xs @ l # h # drop (Suc i) xs"
  shows "set xs \<subseteq> insert (xs ! i) (set ys)" "set ys \<subseteq> insert l (insert h (set xs))"
    "l \<in> set ys" "h \<in> set ys"
proof -
  have "set xs = set (take i xs @ xs ! i # drop (Suc i) xs)"
    using id_take_nth_drop [OF assms(1)] by simp
  then show "set xs \<subseteq> insert (xs ! i) (set ys)" "set ys \<subseteq> insert l (insert h (set xs))"
    by (auto simp: ys_def)
qed (simp_all add: ys_def)

lemma split_bucket_facts:
  fixes t rt i
  defines "rt' \<equiv> split_bucket t rt i" and "b \<equiv> rt_buckets rt ! i"
  assumes inv: "rt_inv rt" and i: "i < length (rt_buckets rt)"
    and proper: "fst (bk_range b) < snd (bk_range b)"
  shows "rt_inv rt'" "keeps_live rt rt'"
    "length (rt_buckets rt') = Suc (length (rt_buckets rt))"
    "bk_range (rt_buckets rt' ! i) = (fst (bk_range b), split_mid b)"
    "bk_range (rt_buckets rt' ! Suc i) = (split_mid b + 1, snd (bk_range b))"
proof -
  have bin: "b \<in> set (rt_buckets rt)" unfolding b_def by (rule nth_mem [OF i])
  have bi: "bucket_inv (rt_ksize rt) b" by (rule rt_invD(2) [OF inv bin])
  obtain low high where split: "kbucket_split t b = (low, high)" by fastforce
  note C = split_content [OF bi split]
  let ?pre = "take i (rt_buckets rt)" and ?post = "drop (Suc i) (rt_buckets rt)"
  have rt': "rt' = rt\<lparr>rt_buckets := ?pre @ low # high # ?post\<rparr>"
    using split by (simp add: rt'_def split_bucket_def b_def)
  note members = replace_by_two [OF i, of low high]
  have bs: "rt_buckets rt = ?pre @ b # ?post" unfolding b_def by (rule id_take_nth_drop [OF i])
  have halves: "bucket_inv (rt_ksize rt) low" "bucket_inv (rt_ksize rt) high"
    using split_inv [OF bi proper, of t] by (simp_all add: split)
  have primsub: "prim_ids rt \<subseteq> prim_ids rt'"
  proof -
    have "nid ` set (bk_nodes c) \<subseteq> prim_ids rt'" if "c \<in> set (rt_buckets rt)" for c
      using subsetD [OF members(1) that] members(3,4) C(5)
      by (cases "c = b") (auto simp: prim_ids_def rt' b_def [symmetric])
    then show ?thesis unfolding prim_ids_def by blast
  qed
  have mid: "fst (bk_range b) \<le> split_mid b" "split_mid b < snd (bk_range b)"
    using midpoint [OF proper] by (simp_all add: split_mid_def)
  have "tiles 0 (map bk_range ?pre @ bk_range b # map bk_range ?post) (2 ^ 160 - 1)"
    using rt_invD(1) [OF inv] by (subst (asm) bs) simp
  from tiles_split [OF this mid] have tl: "tiles 0 (map bk_range (rt_buckets rt')) (2 ^ 160 - 1)"
    by (simp add: rt' C(1,2))
  have "bucket_inv (rt_ksize rt) c \<and> nid (rt_node rt) \<notin> bucket_ids c"
    if "c \<in> set (?pre @ low # high # ?post)" for c
    using subsetD [OF members(2) that] rt_invD(2,3) [OF inv] rt_invD(3) [OF inv bin] halves C(3,4)
    by auto
  moreover have "health_ok (rt_buckets rt') (rt_health rt)"
    using rt_invD(4) [OF inv] primsub by (fastforce simp: health_ok_def prim_ids_def)
  ultimately show "rt_inv rt'" using tl by (simp add: rt_inv_def rt')
  show "keeps_live rt rt'" using primsub by (auto simp: keeps_live_def rt')
  show "length (rt_buckets rt') = Suc (length (rt_buckets rt))" using i by (simp add: rt')
  show "bk_range (rt_buckets rt' ! i) = (fst (bk_range b), split_mid b)"
    "bk_range (rt_buckets rt' ! Suc i) = (split_mid b + 1, snd (bk_range b))"
    using i by (simp_all add: rt' nth_append C(1,2) min_def)
qed

subsection \<open>The insertion returns\<close>

definition home_bucket :: "routing_table \<Rightarrow> node \<Rightarrow> kbucket" where
  "home_bucket rt n = rt_buckets rt ! bucket_index_for rt (long_id n)"

definition home_span :: "routing_table \<Rightarrow> node \<Rightarrow> nat" where
  "home_span rt n =
     unat (snd (bk_range (home_bucket rt n))) - unat (fst (bk_range (home_bucket rt n)))"

definition insert_post :: "routing_table \<Rightarrow> node \<Rightarrow> routing_table \<Rightarrow> node option \<Rightarrow> bool" where
  "insert_post rt n rt' r \<longleftrightarrow>
     rt_inv rt' \<and> keeps_live rt rt' \<and>
     (let b = home_bucket rt' n in
      r = None \<and> n \<in> set (bk_nodes b) \<or>
      r = kbucket_head b \<and> length (bk_nodes b) = rt_ksize rt \<and> nid n \<notin> nid ` set (bk_nodes b) \<and>
      (0 < rt_ksize rt \<longrightarrow> n \<in> set (bk_replacement_nodes b)) \<and>
      \<not> kbucket_covers b (long_id (rt_node rt)) \<and> 5 dvd kbucket_depth b)"

lemma between_two:
  fixes x y :: "'a::linorder"
  shows "x \<noteq> y \<Longrightarrow> lo \<le> x \<and> x \<le> hi \<Longrightarrow> lo \<le> y \<and> y \<le> hi \<Longrightarrow> lo < hi"
  by (cases x y rule: linorder_cases) auto

lemma two_ids_proper:
  assumes "kbucket_covers b (long_id m)" "kbucket_covers b (long_id n)" "nid m \<noteq> nid n"
  shows "fst (bk_range b) < snd (bk_range b)"
proof -
  have "long_id m \<noteq> long_id n" using assms(3) by (simp add: long_id_eq_iff)
  then show ?thesis using assms(1,2) unfolding kbucket_covers_def by (rule between_two)
qed

lemma split_case_proper:
  assumes inv: "rt_inv rt" and bin: "b \<in> set (rt_buckets rt)" and cov: "kbucket_covers b (long_id n)"
    and full: "length (bk_nodes b) = rt_ksize rt" and new: "nid n \<notin> nid ` set (bk_nodes b)"
    and foreign: "nid n \<noteq> nid (rt_node rt)"
    and cond: "kbucket_covers b (long_id (rt_node rt)) \<or> \<not> 5 dvd kbucket_depth b"
  shows "fst (bk_range b) < snd (bk_range b)"
proof (cases "bk_nodes b")
  case Nil
  then have "kbucket_covers b (long_id (rt_node rt))" using cond by (simp add: kbucket_depth_def)
  then show ?thesis using two_ids_proper cov foreign by blast
next
  case (Cons m ms)
  then have "kbucket_covers b (long_id m)" using bucket_invD(8) [OF rt_invD(2) [OF inv bin]] by simp
  moreover have "nid m \<noteq> nid n" using new Cons by auto
  ultimately show ?thesis using two_ids_proper cov by blast
qed

lemma split_shrinks:
  assumes inv: "rt_inv rt"
    and proper: "fst (bk_range (home_bucket rt n)) < snd (bk_range (home_bucket rt n))"
  shows "home_span (split_bucket t rt (bucket_index_for rt (long_id n))) n < home_span rt n"
proof -
  let ?i = "bucket_index_for rt (long_id n)"
  let ?rt' = "split_bucket t rt ?i" and ?b = "home_bucket rt n"
  note i = bucket_index_covers [OF inv, of n]
  note F = split_bucket_facts [OF inv i(1) proper [unfolded home_bucket_def], of t, folded home_bucket_def]
  have cov: "in_range (long_id n) (bk_range ?b)" using i(2) by (simp add: covers_in_range home_bucket_def)
  have mid: "unat (fst (bk_range ?b)) \<le> unat (split_mid ?b)" "unat (split_mid ?b) < unat (snd (bk_range ?b))"
    using midpoint [OF proper] by (simp_all add: split_mid_def word_le_nat_alt word_less_nat_alt)
  show ?thesis
  proof (cases "long_id n \<le> split_mid ?b")
    case True
    then have "bucket_index_for ?rt' (long_id n) = ?i"
      using cov F(3,4) i(1) by (intro covering_bucket_unique [OF F(1)]) (simp_all add: covers_in_range)
    then have "bk_range (home_bucket ?rt' n) = (fst (bk_range ?b), split_mid ?b)"
      using F(4) by (simp add: home_bucket_def)
    then show ?thesis using mid by (simp add: home_span_def)
  next
    case False
    then have above: "split_mid ?b + 1 \<le> long_id n" by (simp add: inc_le)
    then have "bucket_index_for ?rt' (long_id n) = Suc ?i"
      using cov F(3,5) i(1) by (intro covering_bucket_unique [OF F(1)]) (simp_all add: covers_in_range)
    then have r: "bk_range (home_bucket ?rt' n) = (split_mid ?b + 1, snd (bk_range ?b))"
      using F(5) by (simp add: home_bucket_def)
    have "split_mid ?b < split_mid ?b + 1"
      using word_above_iff [of "split_mid ?b" "snd (bk_range ?b)" "split_mid ?b + 1"] mid
      by (simp add: word_less_nat_alt)
    then have "unat (split_mid ?b) < unat (split_mid ?b + 1)" by (simp add: word_less_nat_alt)
    then show ?thesis using mid r by (simp add: home_span_def)
  qed
qed

lemma rt_insert_returns:
  assumes "rt_inv rt" "nid n \<noteq> nid (rt_node rt)"
  shows "\<exists>rt' r. rt_insert t rt n = Some (rt', r) \<and> insert_post rt n rt' r"
  using assms
proof (induction "home_span rt n" arbitrary: rt rule: less_induct)
  case less
  let ?i = "bucket_index_for rt (long_id n)" and ?rt2 = "round_table rt n"
  let ?b = "rt_buckets ?rt2 ! ?i"
  note R = round_facts [OF less.prems]
  have i2: "bucket_index_for ?rt2 (long_id n) = ?i" by (rule same_ranges_index [OF R(3)])
  have hb: "home_bucket ?rt2 n = ?b" by (simp add: home_bucket_def i2)
  note cov = bucket_index_covers [OF R(1), of n, unfolded i2]
  have same: "rt_node ?rt2 = rt_node rt" "rt_ksize ?rt2 = rt_ksize rt"
    using R(2) by (simp_all add: keeps_live_def)
  show ?case
  proof (cases "round_added rt n")
    case True
    then show ?thesis using R(1,2,4) hb
      by (simp add: rt_insert_round [OF less.prems(1)] insert_post_def Let_def)
  next
    case full: False
    note B = R(5) [OF full]
    show ?thesis
    proof (cases "kbucket_covers ?b (long_id (rt_node rt)) \<or> \<not> 5 dvd kbucket_depth ?b")
      case False
      then show ?thesis using R(1,2) B full hb
        by (simp add: rt_insert_round [OF less.prems(1)] insert_post_def Let_def)
    next
      case True
      let ?rt3 = "split_bucket t ?rt2 ?i"
      have proper: "fst (bk_range ?b) < snd (bk_range ?b)"
        using split_case_proper [OF R(1) nth_mem [OF cov(1)] cov(2)] B True less.prems(2) same by simp
      note S = split_bucket_facts(1,2) [OF R(1) cov(1) proper, of t]
      have "home_span ?rt3 n < home_span ?rt2 n"
        using split_shrinks [OF R(1), of n t] proper by (simp add: hb i2)
      moreover have "home_span ?rt2 n = home_span rt n"
        unfolding home_span_def hb using R(3) cov(1) bucket_index_covers(1) [OF less.prems(1), of n]
        by (metis home_bucket_def nth_map)
      ultimately have "\<exists>rt' r. rt_insert t ?rt3 n = Some (rt', r) \<and> insert_post ?rt3 n rt' r"
        using less.hyps [of ?rt3] S less.prems(2) same by (simp add: keeps_live_def)
      then obtain rt' r where res: "rt_insert t ?rt3 n = Some (rt', r)" "insert_post ?rt3 n rt' r"
        by blast
      have "rt_ksize ?rt3 = rt_ksize rt" "rt_node ?rt3 = rt_node rt"
        using S(2) same by (simp_all add: keeps_live_def)
      then have "insert_post rt n rt' r"
        using res(2) keeps_live_trans [OF R(2) keeps_live_trans [OF S(2)]] by (simp add: insert_post_def)
      then show ?thesis using res(1) True full
        by (simp add: rt_insert_round [OF less.prems(1)] Let_def)
    qed
  qed
qed

end
