(* ===== verification/RoutingProps.thy ===== *)
theory RoutingProps
  imports RoutingInsert
begin

text \<open>
  The properties of the routing table: the invariant over every sequence of operations, what
  \<open>add_contact\<close> returns, the exactness of the neighbour queries, and the failure bookkeeping.
\<close>

subsection \<open>Failures\<close>

lemma dom_prim_ids: "rt_inv rt \<Longrightarrow> rt_health rt i = Some h \<Longrightarrow> i \<in> prim_ids rt"
  by (auto simp: rt_inv_def health_ok_def prim_ids_def)

lemma health_insert_inv:
  assumes inv: "rt_inv rt" and known: "kbucket_contains (home_bucket rt n) n" and "1 \<le> ch_failures h"
  shows "rt_inv (rt\<lparr>rt_health := (rt_health rt)(nid n \<mapsto> h)\<rparr>)"
proof -
  note i = bucket_index_covers(1) [OF inv, of n]
  let ?b = "home_bucket rt n"
  have b: "?b \<in> set (rt_buckets rt)" unfolding home_bucket_def by (rule nth_mem [OF i])
  have "health_ok (rt_buckets rt) ((rt_health rt)(nid n \<mapsto> h))"
    using rt_invD(4) [OF inv] b known assms(3)
    by (auto simp: health_ok_def kbucket_contains_iff)
  then show ?thesis using inv by (simp add: rt_inv_def)
qed

lemma prim_ids_home:
  assumes inv: "rt_inv rt"
  shows "nid n \<in> prim_ids rt \<longleftrightarrow> kbucket_contains (home_bucket rt n) n"
proof
  assume "nid n \<in> prim_ids rt"
  then obtain b where b: "b \<in> set (rt_buckets rt)" "nid n \<in> nid ` set (bk_nodes b)"
    unfolding prim_ids_def by blast
  then obtain j m where j: "j < length (rt_buckets rt)" "b = rt_buckets rt ! j"
    and m: "m \<in> set (bk_nodes b)" "nid m = nid n" by (metis imageE in_set_conv_nth)
  have "kbucket_covers b (long_id m)" using m(1) bucket_invD(8) [OF rt_invD(2) [OF inv b(1)]] by simp
  then have "bucket_index_for rt (long_id n) = j"
    using j covering_bucket_unique [OF inv] m(2) by (simp add: long_id_def)
  then show "kbucket_contains (home_bucket rt n) n"
    using b(2) j(2) by (simp add: home_bucket_def kbucket_contains_iff)
next
  assume "kbucket_contains (home_bucket rt n) n"
  then show "nid n \<in> prim_ids rt"
    using nth_mem [OF bucket_index_covers(1) [OF inv, of n]]
    by (auto simp: prim_ids_def home_bucket_def kbucket_contains_iff)
qed

lemma drop_replacement_inv:
  assumes inv: "rt_inv rt" and new: "\<not> kbucket_contains (home_bucket rt n) n"
  shows "rt_inv (rt\<lparr>rt_buckets := (rt_buckets rt)[bucket_index_for rt (long_id n) :=
      kbucket_remove_node (home_bucket rt n) n]\<rparr>)"
proof -
  have "rt_inv (remove_contact rt n)" by (rule remove_contact_inv [OF inv])
  moreover have "rt_health rt (nid n) = None"
    using new dom_prim_ids [OF inv, of "nid n"] prim_ids_home [OF inv, of n] by (metis not_None_eq)
  then have "(rt_health rt)(nid n := None) = rt_health rt" by auto
  ultimately show ?thesis by (simp add: remove_contact_def Let_def home_bucket_def)
qed

lemma record_failure_at_inv [inv_intros]:
  assumes inv: "rt_inv rt"
  shows "rt_inv (record_failure_at jit rt n now)"
proof (cases "kbucket_contains (home_bucket rt n) n")
  case False
  then show ?thesis using drop_replacement_inv [OF inv False]
    by (simp add: record_failure_at_def Let_def home_bucket_def)
next
  case True
  note ins = health_insert_inv [OF inv True]
  show ?thesis
    using True inv ins
    by (auto simp: record_failure_at_def Let_def home_bucket_def intro!: remove_contact_inv ins
        split: option.split)
qed

lemma record_success_inv [inv_intros]: "rt_inv rt \<Longrightarrow> rt_inv (fst (record_success rt i now))"
  by (auto simp: rt_inv_def record_success_def health_ok_def)

subsection \<open>Queries\<close>

lemma touch_frame [simp]:
  "bk_nodes (touch_last_updated t b) = bk_nodes b"
  "bk_replacement_nodes (touch_last_updated t b) = bk_replacement_nodes b"
  "bk_range (touch_last_updated t b) = bk_range b"
  "bucket_inv k (touch_last_updated t b) = bucket_inv k b"
  "bucket_ids (touch_last_updated t b) = bucket_ids b"
  by (simp_all add: touch_last_updated_def bucket_inv_def bucket_ids_def kbucket_covers_def)

lemma map_update_same: "f y = f (xs ! i) \<Longrightarrow> map f (xs[i := y]) = map f xs"
  by (metis list_update_beyond list_update_id linorder_not_le length_map map_update nth_map)

lemma closest_fst:
  "fst (closest t rt target ex keep) =
     rt\<lparr>rt_buckets := (rt_buckets rt)[bucket_index_for rt (long_id target) :=
        touch_last_updated t (rt_buckets rt ! bucket_index_for rt (long_id target))]\<rparr>"
  by (simp add: closest_def Let_def)

lemma closest_frame [simp]:
  "rt_node (fst (closest t rt target ex keep)) = rt_node rt"
  "rt_ksize (fst (closest t rt target ex keep)) = rt_ksize rt"
  "rt_health (fst (closest t rt target ex keep)) = rt_health rt"
  "rt_min_lookup_contacts (fst (closest t rt target ex keep)) = rt_min_lookup_contacts rt"
  "primaries (fst (closest t rt target ex keep)) = primaries rt"
  "has_failures (fst (closest t rt target ex keep)) = has_failures rt"
  "is_stale (fst (closest t rt target ex keep)) = is_stale rt"
  by (simp_all add: closest_fst primaries_def map_update_same has_failures_def [abs_def] is_stale_def [abs_def])

lemma closest_inv [inv_intros]:
  assumes inv: "rt_inv rt"
  shows "rt_inv (fst (closest t rt target ex keep))"
proof -
  let ?i = "bucket_index_for rt (long_id target)"
  let ?b = "rt_buckets rt ! ?i"
  note i = bucket_index_covers(1) [OF inv, of target]
  have b: "?b \<in> set (rt_buckets rt)" by (rule nth_mem [OF i])
  have "rt_inv (rt\<lparr>rt_buckets := (rt_buckets rt)[?i := touch_last_updated t ?b], rt_health := rt_health rt\<rparr>)"
    using rt_invD(2,3) [OF inv b] rt_invD(4) [OF inv]
    by (intro rt_inv_update [OF inv i]) (auto simp: health_ok_def)
  then show ?thesis by (simp add: closest_fst)
qed

lemma distinct_map_concat:
  assumes "\<And>xs. xs \<in> set xss \<Longrightarrow> distinct (map f xs)"
    and "\<And>i j x y. i < length xss \<Longrightarrow> j < length xss \<Longrightarrow> x \<in> set (xss ! i) \<Longrightarrow> y \<in> set (xss ! j) \<Longrightarrow>
      f x = f y \<Longrightarrow> i = j"
  shows "distinct (map f (concat xss))"
  using assms
proof (induction xss)
  case (Cons xs xss)
  have "distinct (map f (concat xss))"
  proof (rule Cons.IH)
    show "i = j" if "i < length xss" "j < length xss" "x \<in> set (xss ! i)" "y \<in> set (xss ! j)" "f x = f y"
      for i j x y using Cons.prems(2) [of "Suc i" "Suc j" x y] that by simp
  qed (simp add: Cons.prems(1))
  moreover have "f x \<noteq> f y" if "x \<in> set xs" "y \<in> set (concat xss)" for x y
  proof -
    obtain ys where "ys \<in> set xss" "y \<in> set ys" using \<open>y \<in> set (concat xss)\<close> by auto
    then obtain j where "j < length xss" "y \<in> set (xss ! j)" by (metis in_set_conv_nth)
    then show ?thesis using Cons.prems(2) [of 0 "Suc j" x y] \<open>x \<in> set xs\<close> by auto
  qed
  ultimately show ?case using Cons.prems(1) [of xs] by (fastforce simp: image_iff)
qed simp

lemma primaries_distinct:
  assumes inv: "rt_inv rt"
  shows "distinct (map nid (primaries rt))"
  unfolding primaries_def
proof (rule distinct_map_concat)
  show "distinct (map nid ns)" if "ns \<in> set (map bk_nodes (rt_buckets rt))" for ns
    using that rt_invD(2) [OF inv] bucket_invD(5) by auto
next
  have home: "bucket_index_for rt (long_id m) = i"
    if "i < length (rt_buckets rt)" "m \<in> set (bk_nodes (rt_buckets rt ! i))" for i m
    using bucket_invD(8) [OF rt_invD(2) [OF inv nth_mem [OF that(1)]], of m] that
    by (simp add: covering_bucket_unique [OF inv])
  show "i = j" if "i < length (map bk_nodes (rt_buckets rt))" "j < length (map bk_nodes (rt_buckets rt))"
    "m \<in> set (map bk_nodes (rt_buckets rt) ! i)" "n \<in> set (map bk_nodes (rt_buckets rt) ! j)" "nid m = nid n"
    for i j m n
    using home [of i m] home [of j n] that by (simp add: long_id_def)
qed

definition eligible ::
    "routing_table \<Rightarrow> node \<Rightarrow> node option \<Rightarrow> (node_id \<Rightarrow> bool) \<Rightarrow> node list" where
  "eligible rt target ex keep =
     filter (\<lambda>n. nid n \<noteq> nid target \<and> nid n \<notin> set_option (map_option nid ex) \<and> keep (nid n)) (primaries rt)"

lemma closest_snd:
  assumes "rt_inv rt"
  shows "snd (closest t rt target ex (\<lambda>n. keep (nid n))) =
    take (rt_ksize rt) (sort_key (distance_to target) (eligible rt target ex keep))"
  by (cases ex) (simp_all add: closest_def Let_def primaries_def map_update_same eligible_def
      sort_key_map take_map comp_def xor_dist.d_sym [of _ target])

lemma eligible_distinct: "rt_inv rt \<Longrightarrow> distinct (map nid (eligible rt target ex keep))"
  unfolding eligible_def by (rule distinct_map_filter [OF primaries_distinct])

lemma eligible_closest [simp]: "eligible (fst (closest t rt a b c)) = eligible rt"
  by (simp add: eligible_def [abs_def])

text \<open>The contacts a lookup draws from: healthy ones, else those not stale, else all of them.\<close>

definition lookup_tier :: "routing_table \<Rightarrow> node \<Rightarrow> node option \<Rightarrow> node_id \<Rightarrow> bool" where
  "lookup_tier rt target ex =
     (if min (rt_ksize rt) (length (eligible rt target ex (\<lambda>i. \<not> has_failures rt i)))
         \<ge> rt_min_lookup_contacts rt
      then (\<lambda>i. \<not> has_failures rt i)
      else if rt_ksize rt \<noteq> 0 \<and> eligible rt target ex (\<lambda>i. \<not> is_stale rt i) \<noteq> []
      then (\<lambda>i. \<not> is_stale rt i)
      else (\<lambda>_. True))"

lemma take_sort_Nil_iff: "take k (sort_key f xs) = [] \<longleftrightarrow> k = 0 \<or> xs = []"
  by (metis length_0_conv length_sort take_eq_Nil)

lemma find_neighbors_tier:
  assumes inv: "rt_inv rt"
  shows "snd (find_neighbors t rt target ex) =
    take (rt_ksize rt) (sort_key (distance_to target) (eligible rt target ex (lookup_tier rt target ex)))"
    "primaries (fst (find_neighbors t rt target ex)) = primaries rt"
    "rt_inv (fst (find_neighbors t rt target ex))"
proof -
  note inv' = closest_inv [OF inv] closest_inv [OF closest_inv [OF inv]]
  note snds = closest_snd [OF inv, where keep = "\<lambda>i. \<not> has_failures rt i"]
    closest_snd [OF inv'(1), where keep = "\<lambda>i. \<not> is_stale rt i"]
    closest_snd [OF inv'(2), where keep = "\<lambda>_. True"]
  show "snd (find_neighbors t rt target ex) =
    take (rt_ksize rt) (sort_key (distance_to target) (eligible rt target ex (lookup_tier rt target ex)))"
    by (simp add: find_neighbors_def case_prod_beta Let_def snds lookup_tier_def take_sort_Nil_iff
        del: take_eq_Nil)
  show "primaries (fst (find_neighbors t rt target ex)) = primaries rt"
    by (simp add: find_neighbors_def case_prod_beta Let_def)
  show "rt_inv (fst (find_neighbors t rt target ex))"
    using inv' closest_inv [OF inv'(2)] by (simp add: find_neighbors_def case_prod_beta Let_def)
qed

lemma find_neighbors_frame [simp]:
  "rt_node (fst (find_neighbors t rt target ex)) = rt_node rt"
  "rt_ksize (fst (find_neighbors t rt target ex)) = rt_ksize rt"
  by (simp_all add: find_neighbors_def case_prod_beta Let_def)

text \<open>
  Property C5. \<open>find_neighbors\<close> returns the exact \<open>k\<close> contacts closest to the target, in ascending
  distance, among the tier the comment describes: healthy contacts when at least
  \<open>min_lookup_contacts\<close> of them can be returned, otherwise the contacts that are not stale, and
  every contact only when nothing else is left. The target and the excluded node are never
  returned, and the query changes no contact.
\<close>

theorem find_neighbors_exact:
  assumes "rt_inv rt"
  shows "k_closest (rt_ksize rt) target (eligible rt target ex (lookup_tier rt target ex))
      (snd (find_neighbors t rt target ex)) \<and>
    primaries (fst (find_neighbors t rt target ex)) = primaries rt \<and>
    rt_inv (fst (find_neighbors t rt target ex))"
  using find_neighbors_tier [OF assms] take_sort_k_closest [OF eligible_distinct [OF assms]] by simp

subsection \<open>Every sequence of operations\<close>

inductive rt_reach :: "node \<Rightarrow> nat \<Rightarrow> routing_table \<Rightarrow> bool" for n k where
  new: "rt_reach n k (rt_new t n k)"
| add: "rt_reach n k rt \<Longrightarrow> add_contact t rt m = Some (rt', r) \<Longrightarrow> rt_reach n k rt'"
| remove: "rt_reach n k rt \<Longrightarrow> rt_reach n k (remove_contact rt m)"
| failure: "rt_reach n k rt \<Longrightarrow> rt_reach n k (record_failure_at jit rt m now)"
| success: "rt_reach n k rt \<Longrightarrow> rt_reach n k (fst (record_success rt i now))"
| lookup: "rt_reach n k rt \<Longrightarrow> rt_reach n k (fst (find_neighbors t rt target ex))"
| advertise: "rt_reach n k rt \<Longrightarrow> rt_reach n k (fst (find_neighbors_to_advertise t rt target ex))"
| set_min: "rt_reach n k rt \<Longrightarrow> rt_reach n k (set_min_lookup_contacts rt c)"

lemma add_contact_post:
  assumes "rt_inv rt"
  shows "\<exists>rt' r. add_contact t rt n = Some (rt', r) \<and> rt_inv rt' \<and> keeps_live rt rt' \<and>
    (nid n \<noteq> nid (rt_node rt) \<longrightarrow> insert_post rt n rt' r)"
  using rt_insert_returns [OF assms, of n t] assms
  by (auto simp: add_contact_def insert_post_def keeps_live_refl)

lemma record_failure_at_frame [simp]:
  "rt_node (record_failure_at jit rt m now) = rt_node rt"
  "rt_ksize (record_failure_at jit rt m now) = rt_ksize rt"
  by (auto simp: record_failure_at_def Let_def split: option.split)

lemma record_success_frame [simp]:
  "rt_node (fst (record_success rt i now)) = rt_node rt"
  "rt_ksize (fst (record_success rt i now)) = rt_ksize rt"
  by (simp_all add: record_success_def)

lemma rt_new_frame [simp]: "rt_node (rt_new t n k) = n" "rt_ksize (rt_new t n k) = k"
  by (simp_all add: rt_new_def)

lemma rt_reach_inv: "rt_reach n k rt \<Longrightarrow> rt_inv rt \<and> rt_node rt = n \<and> rt_ksize rt = k"
proof (induction rule: rt_reach.induct)
  case (add rt t m rt' r)
  then show ?case using add_contact_post [of rt t m] by (auto simp: keeps_live_def)
next
  case (set_min rt c)
  then show ?case by (auto simp: set_min_lookup_contacts_def rt_inv_def)
qed (simp_all add: rt_new_inv remove_contact_inv record_failure_at_inv
    record_success_inv find_neighbors_tier(3)
    find_neighbors_to_advertise_def closest_inv)

text \<open>
  Property C3. On every table reached from \<open>RoutingTable::new\<close> by any sequence of its operations,
  the bucket ranges partition the 160-bit key space, no bucket exceeds \<open>k\<close> contacts and \<open>5 * k\<close>
  replacements, every contact lies in the range of its bucket, no identifier is held twice in a
  bucket, the local node is in none, failures are only recorded for primary contacts, and
  \<open>add_contact\<close> returns for every node.
\<close>

theorem routing_table_reachable:
  assumes "rt_reach n k rt"
  shows "rt_inv rt \<and> (\<exists>rt' r. add_contact t rt m = Some (rt', r) \<and> rt_inv rt')"
  using rt_reach_inv [OF assms] add_contact_post [of rt t m] by blast

text \<open>
  Property C1. \<open>add_contact\<close> of another node returns; no primary contact is lost except a stale one;
  and either the newcomer is now a primary contact of the bucket that covers it, and nothing is
  returned, or that bucket is full, holds the newcomer as a replacement, may not be split, and the
  least recently seen contact of the bucket is returned for the caller to probe.
\<close>

theorem add_contact_outcome:
  assumes "rt_inv rt" "nid n \<noteq> nid (rt_node rt)"
  shows "\<exists>rt' r. add_contact t rt n = Some (rt', r) \<and> insert_post rt n rt' r"
  using add_contact_post [OF assms(1), of t n] assms(2) by blast

subsection \<open>Failure bookkeeping\<close>

lemma remove_contact_health:
  "prim_ids (remove_contact (rt\<lparr>rt_health := h\<rparr>) n) = prim_ids (remove_contact rt n)"
proof -
  have "bucket_index_for (rt\<lparr>rt_health := h\<rparr>) (long_id n) = bucket_index_for rt (long_id n)"
    by (rule same_ranges_index) simp
  then show ?thesis by (simp add: remove_contact_def Let_def prim_ids_def)
qed

lemma remove_contact_gone:
  assumes inv: "rt_inv rt"
  shows "nid n \<notin> prim_ids (remove_contact rt n)"
proof -
  note i = bucket_index_covers(1) [OF inv, of n]
  have "home_bucket (remove_contact rt n) n = kbucket_remove_node (home_bucket rt n) n"
    using i same_ranges_index [OF remove_contact_frame(5), of rt n]
    by (simp add: home_bucket_def) (simp add: remove_contact_def Let_def)
  moreover have bi: "bucket_inv (rt_ksize rt) (home_bucket rt n)"
    unfolding home_bucket_def by (rule rt_invD(2) [OF inv nth_mem [OF i]])
  have "nid m \<noteq> nid n" if "m \<in> set (bk_nodes (kbucket_remove_node (home_bucket rt n) n))" for m
  proof -
    have "m \<in> {m \<in> set (bk_nodes (home_bucket rt n)) \<union> set (bk_replacement_nodes (home_bucket rt n)).
        nid m \<noteq> nid n}"
      unfolding remove_node_set [OF bi, symmetric] using that by (rule UnI1)
    then show ?thesis by blast
  qed
  ultimately have "\<not> kbucket_contains (home_bucket (remove_contact rt n) n) n"
    by (auto simp: kbucket_contains_def)
  then show ?thesis by (simp add: prim_ids_home [OF remove_contact_inv [OF inv]])
qed

lemma length_primaries_update:
  "length (bk_nodes b') = length (bk_nodes (rt_buckets rt ! i)) \<Longrightarrow>
   length (primaries (rt\<lparr>rt_buckets := (rt_buckets rt)[i := b']\<rparr>)) = length (primaries rt)"
  by (simp add: primaries_def length_concat comp_def map_update_same)

lemma primaries_health [simp]: "primaries (rt\<lparr>rt_health := h\<rparr>) = primaries rt"
  by (simp add: primaries_def)

lemma remove_node_length:
  assumes "bucket_inv k b" "\<not> kbucket_contains b n \<or> kbucket_has_replacement b"
  shows "length (bk_nodes (kbucket_remove_node b n)) = length (bk_nodes b)"
proof (cases "nid n \<in> nid ` set (bk_nodes b)")
  case True
  then show ?thesis
    using remove_node_present [OF assms(1) True] assms(2) length_others_known [OF bucket_invD(5) [OF assms(1)] True]
    by (simp add: kbucket_has_replacement_def kbucket_contains_iff)
next
  case False
  then show ?thesis by (simp add: remove_node_absent)
qed

text \<open>
  Property C23. However often contacts fail to answer, \<open>record_failure\<close> never makes the table
  smaller: the number of primary contacts is unchanged, so a node that lost its own connection
  keeps its table.
\<close>

theorem record_failure_keeps_size:
  assumes "rt_inv rt"
  shows "length (primaries (record_failure_at jit rt n now)) = length (primaries rt)"
proof -
  let ?b = "rt_buckets rt ! bucket_index_for rt (long_id n)"
  have bi: "bucket_inv (rt_ksize rt) ?b"
    using rt_invD(2) [OF assms nth_mem [OF bucket_index_covers(1) [OF assms]]] .
  have removed: "length (primaries (remove_contact (rt\<lparr>rt_health := h\<rparr>) n)) = length (primaries rt)"
    if "kbucket_has_replacement ?b" for h
  proof -
    have "bucket_index_for (rt\<lparr>rt_health := h\<rparr>) (long_id n) = bucket_index_for rt (long_id n)"
      by (rule same_ranges_index) simp
    then show ?thesis
      using length_primaries_update [OF remove_node_length [OF bi, of n]] that
      by (simp add: remove_contact_def Let_def primaries_def)
  qed
  show ?thesis
    using removed length_primaries_update [OF remove_node_length [OF bi, of n]]
    by (auto simp: record_failure_at_def Let_def split: option.split)
qed

text \<open>
  Property C24. A failure of a primary contact inside its backoff window changes nothing. Outside
  it, the count grows by exactly one and the next window starts now; the contact stays registered
  unless it has reached \<open>STALE_AFTER_FAILURES\<close> and a replacement waits, in which case it is gone
  and its failures are forgotten.
\<close>

theorem record_failure_counts:
  assumes "rt_inv rt" "\<not> is_new_node rt n"
  shows "(let rt' = record_failure_at jit rt n now;
              f = (case rt_health rt (nid n) of None \<Rightarrow> 1 | Some h \<Rightarrow> ch_failures h + 1) in
     if \<exists>h. rt_health rt (nid n) = Some h \<and> now < ch_retry_after h then rt' = rt
     else if f \<ge> STALE_AFTER_FAILURES \<and> kbucket_has_replacement (home_bucket rt n)
     then nid n \<notin> prim_ids rt' \<and> rt_health rt' = (rt_health rt)(nid n := None)
     else rt_buckets rt' = rt_buckets rt \<and>
       (\<exists>h'. rt_health rt' = (rt_health rt)(nid n \<mapsto> h') \<and> ch_failures h' = f \<and>
          ch_retry_after h' = now + backoff jit f \<and>
          ch_first_failure h' = (case rt_health rt (nid n) of None \<Rightarrow> now | Some h \<Rightarrow> ch_first_failure h)))"
proof -
  have gone: "nid n \<notin> prim_ids (remove_contact (rt\<lparr>rt_health := h\<rparr>) n)" for h
    using remove_contact_gone [OF assms(1), of n] by (simp add: remove_contact_health)
  show ?thesis
    using assms gone by (auto simp: record_failure_at_def Let_def is_new_node_def home_bucket_def split: option.split)
qed

text \<open>
  With a jitter of at most a quarter of the delay (the random factor of
  \<open>with_jitter\<close> is below 0.25), the backoff after any number of failures lies between 5 s and
  375 s, doubles from one failure to the next until it is capped, and is at least \<open>BACKOFF_MAX\<close>
  from the seventh failure on.
\<close>

theorem backoff_bounds:
  assumes "\<And>d. 4 dvd d \<Longrightarrow> 4 * jit d \<le> d"
  shows "BACKOFF_BASE \<le> backoff jit f \<and> 4 * backoff jit f \<le> 5 * BACKOFF_MAX \<and>
    (1 \<le> f \<and> f \<le> 6 \<longrightarrow> BACKOFF_BASE * 2 ^ (f - 1) \<le> backoff jit f \<and>
       4 * backoff jit f \<le> 5 * (BACKOFF_BASE * 2 ^ (f - 1))) \<and>
    (7 \<le> f \<longrightarrow> BACKOFF_MAX \<le> backoff jit f)"
proof -
  define d where "d = min (BACKOFF_BASE * 2 ^ min (f - 1) 16) BACKOFF_MAX"
  have b: "backoff jit f = d + jit d" by (simp add: backoff_def with_jitter_def d_def Let_def)
  have "4 dvd d" by (simp add: d_def min_def BACKOFF_BASE_def BACKOFF_MAX_def secs_def)
  then have j: "4 * jit d \<le> d" by (rule assms)
  have lo: "BACKOFF_BASE \<le> d" by (simp add: d_def BACKOFF_BASE_def BACKOFF_MAX_def secs_def)
  have hi: "d \<le> BACKOFF_MAX" by (simp add: d_def)
  have small: "d = BACKOFF_BASE * 2 ^ (f - 1)" if "1 \<le> f" "f \<le> 6"
  proof -
    have "(2::nat) ^ (f - 1) \<le> 2 ^ 5" using that by (intro power_increasing) auto
    then show ?thesis using that by (simp add: d_def BACKOFF_BASE_def BACKOFF_MAX_def secs_def)
  qed
  have big: "d = BACKOFF_MAX" if "7 \<le> f"
  proof -
    have "(2::nat) ^ 6 \<le> 2 ^ min (f - 1) 16" using that by (intro power_increasing) auto
    then show ?thesis by (simp add: d_def BACKOFF_BASE_def BACKOFF_MAX_def secs_def)
  qed
  show ?thesis unfolding b using j lo hi small big by auto
qed

subsection \<open>Depth\<close>

definition id_bits :: "node \<Rightarrow> u8 list" where
  "id_bits n = map (\<lambda>(i, s). id_bit n i s) bit_positions"

lemma depth_loop_prefix:
  assumes "depth_loop first rest ps c = c + d"
  shows "d \<le> length ps"
    and "x \<in> set rest \<Longrightarrow> map (\<lambda>(i, s). id_bit x i s) (take d ps) = map (\<lambda>(i, s). id_bit first i s) (take d ps)"
    and "d < length ps \<Longrightarrow> \<exists>x \<in> set rest. (case ps ! d of (i, s) \<Rightarrow> id_bit x i s \<noteq> id_bit first i s)"
proof -
  have mono: "c \<le> depth_loop first rest ps c" for c ps
    by (induction first rest ps c rule: depth_loop.induct) auto
  have "d \<le> length ps \<and>
      (x \<in> set rest \<longrightarrow> map (\<lambda>(i, s). id_bit x i s) (take d ps) = map (\<lambda>(i, s). id_bit first i s) (take d ps)) \<and>
      (d < length ps \<longrightarrow> (\<exists>x \<in> set rest. (case ps ! d of (i, s) \<Rightarrow> id_bit x i s \<noteq> id_bit first i s)))"
    using assms
  proof (induction ps arbitrary: c d)
    case (Cons p ps)
    obtain i s where p: "p = (i, s)" by (cases p)
    show ?case
    proof (cases "\<exists>n\<in>set rest. id_bit n i s \<noteq> id_bit first i s")
      case True
      with Cons.prems p show ?thesis by auto
    next
      case False
      then have eq: "depth_loop first rest ps (c + 1) = c + d" using Cons.prems p by simp
      then have "1 \<le> d" using mono [of "c + 1" ps] by simp
      then obtain d' where d: "d = Suc d'" by (cases d) auto
      show ?thesis using Cons.IH [of "c + 1" d'] eq False by (auto simp: p d)
    qed
  qed simp
  then show "d \<le> length ps"
    "x \<in> set rest \<Longrightarrow> map (\<lambda>(i, s). id_bit x i s) (take d ps) = map (\<lambda>(i, s). id_bit first i s) (take d ps)"
    "d < length ps \<Longrightarrow> \<exists>x \<in> set rest. (case ps ! d of (i, s) \<Rightarrow> id_bit x i s \<noteq> id_bit first i s)"
    by blast+
qed

text \<open>
  The depth of a bucket with several primary contacts is the length of the longest
  prefix all their identifiers share: every contact has the first contact's first \<open>depth\<close> bits,
  and if the depth is below 160 some contact differs from it in the next bit.
\<close>

theorem depth_is_shared_prefix:
  assumes "bk_nodes b = n # m # rest"
  shows "kbucket_depth b \<le> 160 \<and>
    (\<forall>x \<in> set (bk_nodes b). take (kbucket_depth b) (id_bits x) = take (kbucket_depth b) (id_bits n)) \<and>
    (kbucket_depth b < 160 \<longrightarrow>
       (\<exists>x \<in> set (bk_nodes b). id_bits x ! kbucket_depth b \<noteq> id_bits n ! kbucket_depth b))"
proof -
  let ?d = "kbucket_depth b"
  have len: "length bit_positions = 160" by (simp add: bit_positions_def)
  have "depth_loop n (m # rest) bit_positions 0 = 0 + ?d" using assms by (simp add: kbucket_depth_def)
  note P = depth_loop_prefix [OF this]
  have "take ?d (id_bits x) = take ?d (id_bits n)" if "x \<in> set (bk_nodes b)" for x
    using that P(2) [of x] assms by (auto simp: id_bits_def take_map)
  moreover have "\<exists>x \<in> set (bk_nodes b). id_bits x ! ?d \<noteq> id_bits n ! ?d" if "?d < 160"
    using P(3) that len assms by (auto simp: id_bits_def case_prod_beta)
  ultimately show ?thesis using P(1) len by simp
qed

subsection \<open>Concrete tables\<close>

text \<open>A table of bucket size \<open>k\<close> for the local node \<open>wnode 0\<close>, after a list of contacts.\<close>

definition wtable :: "nat \<Rightarrow> node list \<Rightarrow> routing_table" where
  "wtable k ms = foldl (\<lambda>rt m. case add_contact 0 rt m of Some (rt', _) \<Rightarrow> rt' | None \<Rightarrow> rt)
     (rt_new 0 (wnode 0) k) ms"

lemma wtable_reach: "rt_reach (wnode 0) k (wtable k ms)"
proof (induction ms rule: rev_induct)
  case Nil
  show ?case by (simp add: wtable_def rt_reach.new)
next
  case (snoc m ms)
  then show ?case
    by (auto simp: wtable_def split: option.split prod.split intro: rt_reach.add)
qed

lemmas wtable_inv = rt_reach_inv [OF wtable_reach, THEN conjunct1]

theorem find_neighbors_exact_witness:
  "snd (find_neighbors 0 (wtable 2 [wnode 1, wnode 128, wnode 129]) (wnode 131) None) = [wnode 129, wnode 128] \<and>
   k_closest 2 (wnode 131) [wnode 1, wnode 128, wnode 129] [wnode 129, wnode 128]"
proof -
  let ?rt = "wtable 2 [wnode 1, wnode 128, wnode 129]"
  have r: "snd (find_neighbors 0 ?rt (wnode 131) None) = [wnode 129, wnode 128]" by code_simp
  have e: "eligible ?rt (wnode 131) None (lookup_tier ?rt (wnode 131) None) = [wnode 1, wnode 128, wnode 129]"
    by code_simp
  show ?thesis
    using find_neighbors_exact [OF wtable_inv [of 2 "[wnode 1, wnode 128, wnode 129]"], of "wnode 131" None 0] r e
      rt_reach_inv [OF wtable_reach] by simp
qed

theorem routing_table_reachable_witness:
  "rt_inv (wtable 2 [wnode 1, wnode 128]) \<and>
   (\<exists>rt' r. add_contact 0 (wtable 2 [wnode 1, wnode 128]) (wnode 129) = Some (rt', r) \<and> rt_inv rt')"
  by (rule routing_table_reachable [OF wtable_reach])

theorem add_contact_outcome_witness:
  "\<exists>rt' r. add_contact 0 (wtable 2 [wnode 1, wnode 128]) (wnode 129) = Some (rt', r) \<and>
     insert_post (wtable 2 [wnode 1, wnode 128]) (wnode 129) rt' r"
proof (rule add_contact_outcome [OF wtable_inv])
  have "nid (wnode 129) \<noteq> nid (wnode 0)" by code_simp
  then show "nid (wnode 129) \<noteq> nid (rt_node (wtable 2 [wnode 1, wnode 128]))"
    using rt_reach_inv [OF wtable_reach] by simp
qed

theorem record_failure_keeps_size_witness:
  "length (primaries (record_failure_at (\<lambda>d. 0) (wtable 2 [wnode 1, wnode 128]) (wnode 1) 0)) = 2"
proof -
  have "length (primaries (wtable 2 [wnode 1, wnode 128])) = 2" by code_simp
  then show ?thesis using record_failure_keeps_size [OF wtable_inv] by simp
qed

theorem record_failure_counts_witness:
  "rt_buckets (record_failure_at (\<lambda>d. 0) (wtable 2 [wnode 1]) (wnode 1) 7) =
     rt_buckets (wtable 2 [wnode 1]) \<and>
   (\<exists>h. rt_health (record_failure_at (\<lambda>d. 0) (wtable 2 [wnode 1]) (wnode 1) 7) (nid (wnode 1)) = Some h \<and>
      ch_failures h = 1 \<and> ch_retry_after h = 7 + secs 5)"
proof -
  let ?rt = "wtable 2 [wnode 1]"
  have known: "\<not> is_new_node ?rt (wnode 1)" by code_simp
  have healthy: "rt_health ?rt (nid (wnode 1)) = None" by code_simp
  have "backoff (\<lambda>d. 0) 1 = secs 5"
    by (simp add: backoff_def with_jitter_def BACKOFF_BASE_def BACKOFF_MAX_def secs_def)
  then show ?thesis
    using record_failure_counts [OF wtable_inv known, of "\<lambda>d. 0" 7] healthy
    by (auto simp: Let_def STALE_AFTER_FAILURES_def)
qed

theorem backoff_bounds_witness:
  "BACKOFF_MAX \<le> backoff (\<lambda>d. d div 4) 9 \<and> 4 * backoff (\<lambda>d. d div 4) 9 \<le> 5 * BACKOFF_MAX"
  using backoff_bounds [of "\<lambda>d. d div 4" 9] by simp

theorem depth_is_shared_prefix_witness:
  "take 7 (id_bits (wnode 129)) = take 7 (id_bits (wnode 128)) \<and> id_bits (wnode 129) ! 7 \<noteq> id_bits (wnode 128) ! 7"
proof -
  let ?b = "(kbucket_new 0 full_keyspace 2)\<lparr>bk_nodes := [wnode 128, wnode 129]\<rparr>"
  have "kbucket_depth ?b = 7" by code_simp
  then show ?thesis using depth_is_shared_prefix [of ?b "wnode 128" "wnode 129" "[]"] by simp
qed

end
