(* ===== verification/Storage.thy ===== *)
theory Storage
  imports Prelude
begin

text \<open>
  The record store of a node (\<open>src/src/storage.rs\<close>): the \<open>IStorage\<close> contract as the locale
  \<open>record_store\<close>, and \<open>ForgetfulStorage\<close>, which is interpreted as one.

  The \<open>DashMap\<close> is an association list with distinct keys; its list order is one unspecified
  iteration order. \<open>Instant::now()\<close> is the argument \<open>now\<close>, and \<open>inserted_at.elapsed()\<close> is
  \<open>now - inserted_at\<close>, which saturates at zero like the standard library. The byte counter is an
  \<open>AtomicUsize\<close>: \<open>checked_add\<close> fails and \<open>fetch_sub\<close> wraps at \<open>usize_size\<close>.

  \<open>prune_expired\<close> drops the expired entries first and gives their bytes back afterwards; other
  threads may write in between, so its two halves are separate definitions and the step relation
  \<open>st_step\<close> interleaves them with every other operation.
\<close>

subsection \<open>Types\<close>

definition DEFAULT_TTL :: int where
  "DEFAULT_TTL = 14 * 24 * 60 * 60"

definition DEFAULT_MAX_STORAGE_BYTES :: nat where
  "DEFAULT_MAX_STORAGE_BYTES = 512 * 1024 * 1024"

datatype storage_write_status = Stored | AlreadyStored | Conflict | CapacityExceeded

record storage =
  st_data :: "(bytes \<times> bytes \<times> instant) list"
  st_ttl :: int
  st_current_storage_bytes :: nat
  st_max_storage_bytes :: nat

definition with_max_storage_bytes :: "int \<Rightarrow> nat \<Rightarrow> storage" where
  "with_max_storage_bytes ttl max_bytes =
     \<lparr>st_data = [], st_ttl = ttl, st_current_storage_bytes = 0, st_max_storage_bytes = max_bytes\<rparr>"

definition storage_new :: "int \<Rightarrow> storage" where
  "storage_new ttl = with_max_storage_bytes ttl DEFAULT_MAX_STORAGE_BYTES"

subsection \<open>Byte accounting and expiry\<close>

definition checked_add :: "nat \<Rightarrow> nat \<Rightarrow> nat option" where
  "checked_add a b = (if a + b < usize_size then Some (a + b) else None)"

definition reserve_bytes :: "nat \<Rightarrow> storage \<Rightarrow> storage option" where
  "reserve_bytes additional s =
     (if additional = 0 then Some s
      else (case checked_add (st_current_storage_bytes s) additional of
              None \<Rightarrow> None
            | Some next \<Rightarrow>
                if next \<le> st_max_storage_bytes s
                then Some (s\<lparr>st_current_storage_bytes := next\<rparr>) else None))"

definition release_bytes :: "nat \<Rightarrow> storage \<Rightarrow> storage" where
  "release_bytes released s =
     (if released = 0 then s
      else s\<lparr>st_current_storage_bytes :=
               (st_current_storage_bytes s + usize_size - released) mod usize_size\<rparr>)"

text \<open>\<open>self.ttl as u64\<close> reinterprets a negative number.\<close>

definition is_expired :: "instant \<Rightarrow> storage \<Rightarrow> instant \<Rightarrow> bool" where
  "is_expired now s inserted_at \<longleftrightarrow>
     (if st_ttl s = - 1 then False
      else now - inserted_at > secs (nat (st_ttl s mod 2 ^ 64)))"

definition put_slot :: "bytes \<Rightarrow> bytes \<Rightarrow> instant \<Rightarrow> storage \<Rightarrow> storage" where
  "put_slot key value now s = s\<lparr>st_data := AList.update key (value, now) (st_data s)\<rparr>"

definition replace_value ::
    "instant \<Rightarrow> nat \<Rightarrow> bytes \<Rightarrow> bytes \<Rightarrow> bytes \<Rightarrow> storage \<Rightarrow> storage \<times> storage_write_status" where
  "replace_value now old_value_len key slot value s =
     (if slot = value then (put_slot key slot now s, AlreadyStored)
      else
        (let new_value_len = length value;
             reserved =
               (if new_value_len > old_value_len
                then reserve_bytes (new_value_len - old_value_len) s else Some s)
         in case reserved of
              None \<Rightarrow> (s, CapacityExceeded)
            | Some s1 \<Rightarrow>
                (let s2 = put_slot key value now s1 in
                 (if old_value_len > new_value_len
                  then release_bytes (old_value_len - new_value_len) s2 else s2, Stored))))"

definition insert_vacant ::
    "instant \<Rightarrow> bytes \<Rightarrow> bytes \<Rightarrow> storage \<Rightarrow> storage \<times> storage_write_status" where
  "insert_vacant now key value s =
     (case reserve_bytes (length key + length value) s of
        None \<Rightarrow> (s, CapacityExceeded)
      | Some s1 \<Rightarrow> (put_slot key value now s1, Stored))"

subsection \<open>The operations of \<open>IStorage\<close>\<close>

definition st_set ::
    "instant \<Rightarrow> bytes \<Rightarrow> bytes \<Rightarrow> storage \<Rightarrow> storage \<times> storage_write_status" where
  "st_set now key value s =
     (case map_of (st_data s) key of
        None \<Rightarrow> insert_vacant now key value s
      | Some (slot, inserted_at) \<Rightarrow> replace_value now (length slot) key slot value s)"

definition insert_if_absent ::
    "instant \<Rightarrow> bytes \<Rightarrow> bytes \<Rightarrow> storage \<Rightarrow> storage \<times> storage_write_status" where
  "insert_if_absent now key value s =
     (case map_of (st_data s) key of
        None \<Rightarrow> insert_vacant now key value s
      | Some (slot, inserted_at) \<Rightarrow>
          if is_expired now s inserted_at
          then replace_value now (length slot) key slot value s
          else if slot = value then (put_slot key slot now s, AlreadyStored)
          else (s, Conflict))"

definition get_default :: "instant \<Rightarrow> bytes \<Rightarrow> bytes option \<Rightarrow> storage \<Rightarrow> bytes option" where
  "get_default now key dflt s =
     (case map_of (st_data s) key of
        Some (slot, inserted_at) \<Rightarrow>
          if \<not> is_expired now s inserted_at then Some slot else dflt
      | None \<Rightarrow> dflt)"

definition st_get :: "instant \<Rightarrow> bytes \<Rightarrow> storage \<Rightarrow> bytes option" where
  "st_get now key s = get_default now key None s"

definition iter_older_than :: "instant \<Rightarrow> nat \<Rightarrow> storage \<Rightarrow> (bytes \<times> bytes) list" where
  "iter_older_than now seconds_old s =
     map (\<lambda>(k, v, i). (k, v))
       (filter (\<lambda>(k, v, i). now - i \<ge> secs seconds_old \<and> \<not> is_expired now s i) (st_data s))"

definition iter_all :: "instant \<Rightarrow> storage \<Rightarrow> (bytes \<times> bytes) list" where
  "iter_all now s =
     map (\<lambda>(k, v, i). (k, v)) (filter (\<lambda>(k, v, i). \<not> is_expired now s i) (st_data s))"

text \<open>\<open>retain\<close> and the two counters it fills; the bytes are released after it.\<close>

definition prune_retain :: "instant \<Rightarrow> storage \<Rightarrow> storage \<times> nat \<times> nat" where
  "prune_retain now s =
     (if st_ttl s = - 1 then (s, 0, 0)
      else
        (let gone = filter (\<lambda>(k, v, i). is_expired now s i) (st_data s) in
         (s\<lparr>st_data := filter (\<lambda>(k, v, i). \<not> is_expired now s i) (st_data s)\<rparr>,
          length gone, sum_list (map (\<lambda>(k, v, i). length k + length v) gone))))"

definition prune_expired :: "instant \<Rightarrow> storage \<Rightarrow> storage \<times> nat" where
  "prune_expired now s =
     (let (s', records, reclaimed) = prune_retain now s in (release_bytes reclaimed s', records))"

subsection \<open>The contract\<close>

text \<open>
  What \<open>IStorage\<close> promises its clients. \<open>read\<close> sees live records only; \<open>store_absent\<close> never
  replaces one; a write that does not report success leaves the store as it was.
\<close>

locale record_store =
  fixes ok :: "'s \<Rightarrow> bool"
    and read :: "instant \<Rightarrow> bytes \<Rightarrow> 's \<Rightarrow> bytes option"
    and store :: "instant \<Rightarrow> bytes \<Rightarrow> bytes \<Rightarrow> 's \<Rightarrow> 's \<times> storage_write_status"
    and store_absent :: "instant \<Rightarrow> bytes \<Rightarrow> bytes \<Rightarrow> 's \<Rightarrow> 's \<times> storage_write_status"
  assumes store_ok: "ok s \<Longrightarrow> ok (fst (store now k v s))"
    and store_absent_ok: "ok s \<Longrightarrow> ok (fst (store_absent now k v s))"
    and store_other: "k' \<noteq> k \<Longrightarrow> read now' k' (fst (store now k v s)) = read now' k' s"
    and store_absent_other: "k' \<noteq> k \<Longrightarrow> read now' k' (fst (store_absent now k v s)) = read now' k' s"
    and store_done: "snd (store now k v s) \<in> {Stored, AlreadyStored} \<Longrightarrow>
      read now k (fst (store now k v s)) = Some v"
    and store_refused: "snd (store now k v s) \<notin> {Stored, AlreadyStored} \<Longrightarrow>
      snd (store now k v s) = CapacityExceeded \<and> fst (store now k v s) = s"
    and absent_live: "read now k s = Some w \<Longrightarrow>
      snd (store_absent now k v s) = (if w = v then AlreadyStored else Conflict) \<and>
      read now k (fst (store_absent now k v s)) = Some w"
    and absent_vacant: "read now k s = None \<Longrightarrow>
      snd (store_absent now k v s) = CapacityExceeded \<and> fst (store_absent now k v s) = s \<or>
      snd (store_absent now k v s) \<in> {Stored, AlreadyStored} \<and>
      read now k (fst (store_absent now k v s)) = Some v"
begin

definition store_absent_all :: "instant \<Rightarrow> (bytes \<times> bytes) list \<Rightarrow> 's \<Rightarrow> 's" where
  "store_absent_all now kvs s = foldl (\<lambda>s (k, v). fst (store_absent now k v s)) s kvs"

lemma first_writer_wins:
  "read now k s = Some w \<Longrightarrow> read now k (store_absent_all now kvs s) = Some w"
  unfolding store_absent_all_def
proof (induction kvs arbitrary: s)
  case (Cons kv kvs)
  obtain k' v where kv: "kv = (k', v)" by (cases kv)
  have "read now k (fst (store_absent now k' v s)) = Some w"
    using Cons.prems absent_live store_absent_other by (cases "k' = k") metis+
  with Cons.IH kv show ?case by simp
qed simp

lemma store_absent_all_ok: "ok s \<Longrightarrow> ok (store_absent_all now kvs s)"
  unfolding store_absent_all_def by (induction kvs arbitrary: s) (auto simp: store_absent_ok)

lemma absent_accepted:
  assumes "snd (store_absent now k v s) \<in> {Stored, AlreadyStored}"
  shows "read now k (fst (store_absent now k v s)) = Some v"
proof (cases "read now k s")
  case None
  with absent_vacant [OF None, of v] assms show ?thesis by auto
next
  case (Some w)
  with absent_live [OF Some, of v] assms show ?thesis by (auto split: if_splits)
qed

lemma absent_repeat:
  assumes "snd (store_absent now k v s) \<in> {Stored, AlreadyStored}"
  shows "snd (store_absent now k v (fst (store_absent now k v s))) = AlreadyStored"
  using absent_live [OF absent_accepted [OF assms], of v] by simp

end

subsection \<open>Byte accounting\<close>

definition alist_size :: "(bytes \<times> bytes \<times> instant) list \<Rightarrow> nat" where
  "alist_size xs = sum_list (map (\<lambda>(k, v, i). length k + length v) xs)"

lemma alist_size_simps [simp]:
  "alist_size [] = 0"
  "alist_size ((k, v, i) # xs) = length k + length v + alist_size xs"
  by (simp_all add: alist_size_def)

lemma alist_size_update:
  "alist_size (AList.update k (v, t) xs) +
     (case map_of xs k of None \<Rightarrow> 0 | Some (w, _) \<Rightarrow> length k + length w) =
   alist_size xs + length k + length v"
  by (induction xs) auto

lemma alist_size_member: "map_of xs k = Some (w, i) \<Longrightarrow> length k + length w \<le> alist_size xs"
  by (induction xs) (auto split: if_splits)

text \<open>
  \<open>pending\<close> is what concurrent \<open>prune_expired\<close> calls have dropped and not yet given back.
\<close>

definition st_inv :: "nat \<Rightarrow> storage \<Rightarrow> bool" where
  "st_inv pending s \<longleftrightarrow>
     distinct (map fst (st_data s)) \<and>
     st_current_storage_bytes s = alist_size (st_data s) + pending \<and>
     st_current_storage_bytes s \<le> st_max_storage_bytes s \<and> st_max_storage_bytes s < usize_size"

lemma reserve_bytes_iff:
  assumes "st_max_storage_bytes s < usize_size" "st_current_storage_bytes s \<le> st_max_storage_bytes s"
  shows "reserve_bytes n s =
    (if st_current_storage_bytes s + n \<le> st_max_storage_bytes s
     then Some (s\<lparr>st_current_storage_bytes := st_current_storage_bytes s + n\<rparr>) else None)"
  using assms by (auto simp: reserve_bytes_def checked_add_def)

lemma release_bytes_exact:
  assumes "n \<le> st_current_storage_bytes s" "st_current_storage_bytes s < usize_size"
  shows "release_bytes n s = s\<lparr>st_current_storage_bytes := st_current_storage_bytes s - n\<rparr>"
proof -
  have "(st_current_storage_bytes s + usize_size - n) mod usize_size = st_current_storage_bytes s - n"
    using assms mod_add_self2 [of "st_current_storage_bytes s - n" usize_size] by simp
  then show ?thesis by (auto simp: release_bytes_def)
qed

lemma put_slot_fields [simp]:
  "st_data (put_slot k v now s) = AList.update k (v, now) (st_data s)"
  "st_ttl (put_slot k v now s) = st_ttl s"
  "st_current_storage_bytes (put_slot k v now s) = st_current_storage_bytes s"
  "st_max_storage_bytes (put_slot k v now s) = st_max_storage_bytes s"
  by (simp_all add: put_slot_def)

lemma reserve_bytes_fields:
  assumes "reserve_bytes n s = Some s'"
  shows "st_data s' = st_data s" "st_ttl s' = st_ttl s" "st_max_storage_bytes s' = st_max_storage_bytes s"
  using assms by (auto simp: reserve_bytes_def split: if_splits option.splits)

lemma release_bytes_fields [simp]:
  "st_data (release_bytes n s) = st_data s" "st_ttl (release_bytes n s) = st_ttl s"
  "st_max_storage_bytes (release_bytes n s) = st_max_storage_bytes s"
  by (simp_all add: release_bytes_def)

lemma insert_vacant_inv:
  assumes inv: "st_inv p s" and new: "map_of (st_data s) k = None"
  shows "st_inv p (fst (insert_vacant now k v s))"
  using inv new alist_size_update [of k v now "st_data s"] reserve_bytes_iff [of s "length k + length v"]
  by (auto simp: insert_vacant_def st_inv_def distinct_update split: option.splits)

lemma replace_value_inv:
  assumes inv: "st_inv p s" and old: "map_of (st_data s) k = Some (w, i)"
  shows "st_inv p (fst (replace_value now (length w) k w v s))"
proof -
  note size = alist_size_update [of k v now "st_data s", unfolded old]
    alist_size_update [of k w now "st_data s", unfolded old]
  note le = alist_size_member [OF old]
  show ?thesis
    using inv size le reserve_bytes_iff [of s "length v - length w"]
      release_bytes_exact [of "length w - length v" "put_slot k v now s"]
    by (auto simp: replace_value_def st_inv_def Let_def distinct_update split: option.splits)
qed

lemma st_set_inv [inv_intros]: "st_inv p s \<Longrightarrow> st_inv p (fst (st_set now k v s))"
  by (auto simp: st_set_def insert_vacant_inv replace_value_inv split: option.split)

lemma put_same_inv:
  assumes "st_inv p s" "map_of (st_data s) k = Some (w, i)"
  shows "st_inv p (put_slot k w now s)"
  using replace_value_inv [OF assms, of now w] by (simp add: replace_value_def)

lemma insert_if_absent_inv [inv_intros]: "st_inv p s \<Longrightarrow> st_inv p (fst (insert_if_absent now k v s))"
  by (auto simp: insert_if_absent_def insert_vacant_inv replace_value_inv put_same_inv split: option.split)

lemma prune_retain_inv [inv_intros]:
  assumes "st_inv p s" "prune_retain now s = (s', records, reclaimed)"
  shows "st_inv (p + reclaimed) s'"
proof -
  have "alist_size (filter (\<lambda>(k, v, i). is_expired now s i) xs) +
      alist_size (filter (\<lambda>(k, v, i). \<not> is_expired now s i) xs) = alist_size xs" for xs
    by (induction xs) auto
  then show ?thesis using assms
    by (auto simp: prune_retain_def st_inv_def Let_def alist_size_def [symmetric] distinct_map_filter
        add.commute split: if_splits)
qed

lemma release_inv [inv_intros]: "st_inv p s \<Longrightarrow> n \<le> p \<Longrightarrow> st_inv (p - n) (release_bytes n s)"
  using release_bytes_exact [of n s] by (auto simp: st_inv_def)

lemma storage_new_inv [inv_intros]:
  "max_bytes < usize_size \<Longrightarrow> st_inv 0 (with_max_storage_bytes ttl max_bytes)"
  by (simp add: st_inv_def with_max_storage_bytes_def)

subsection \<open>\<open>ForgetfulStorage\<close> keeps the contract\<close>

lemma is_expired_now [simp]: "\<not> is_expired now s now"
  by (simp add: is_expired_def)

lemma is_expired_cong: "st_ttl s' = st_ttl s \<Longrightarrow> is_expired now s' = is_expired now s"
  by (simp add: is_expired_def fun_eq_iff)

lemma get_default_None: "st_get now k s =
    (case map_of (st_data s) k of None \<Rightarrow> None | Some (v, i) \<Rightarrow> if is_expired now s i then None else Some v)"
  by (auto simp: st_get_def get_default_def split: option.split)

lemma st_get_put:
  assumes "st_data s' = AList.update k (v, now) (st_data s)" "st_ttl s' = st_ttl s"
  shows "st_get now' k' s' = (if k' = k then (if is_expired now' s now then None else Some v) else st_get now' k' s)"
  using assms is_expired_cong [OF assms(2)]
  by (auto simp: get_default_None update_conv' split: option.split)

lemma insert_vacant_cases:
  "insert_vacant now k v s = (s, CapacityExceeded) \<or>
   (\<exists>s'. insert_vacant now k v s = (s', Stored) \<and>
      st_data s' = AList.update k (v, now) (st_data s) \<and> st_ttl s' = st_ttl s)"
  by (auto simp: insert_vacant_def dest: reserve_bytes_fields split: option.split)

lemma replace_value_cases:
  "replace_value now n k w v s = (s, CapacityExceeded) \<or>
   (\<exists>s' r. replace_value now n k w v s = (s', r) \<and> r = (if w = v then AlreadyStored else Stored) \<and>
      st_data s' = AList.update k (v, now) (st_data s) \<and> st_ttl s' = st_ttl s)"
  by (auto simp: replace_value_def Let_def dest: reserve_bytes_fields split: option.split)

lemma st_set_cases:
  "st_set now k v s = (s, CapacityExceeded) \<or>
   (\<exists>s' r. st_set now k v s = (s', r) \<and> r \<in> {Stored, AlreadyStored} \<and>
      st_data s' = AList.update k (v, now) (st_data s) \<and> st_ttl s' = st_ttl s)"
proof (cases "map_of (st_data s) k")
  case None
  then show ?thesis using insert_vacant_cases [of now k v s] by (auto simp: st_set_def)
next
  case (Some p)
  then show ?thesis using replace_value_cases [of now "length (fst p)" k "fst p" v s]
    by (auto simp: st_set_def case_prod_beta)
qed

lemma insert_if_absent_cases:
  "insert_if_absent now k v s = (s, CapacityExceeded) \<and> st_get now k s = None \<or>
   (\<exists>w. insert_if_absent now k v s = (s, Conflict) \<and> st_get now k s = Some w \<and> w \<noteq> v) \<or>
   (\<exists>s' r. insert_if_absent now k v s = (s', r) \<and> r \<in> {Stored, AlreadyStored} \<and>
      (st_get now k s = None \<or> st_get now k s = Some v \<and> r = AlreadyStored) \<and>
      st_data s' = AList.update k (v, now) (st_data s) \<and> st_ttl s' = st_ttl s)"
proof (cases "map_of (st_data s) k")
  case None
  then show ?thesis using insert_vacant_cases [of now k v s]
    by (auto simp: insert_if_absent_def get_default_None)
next
  case (Some p)
  obtain w i where p: "p = (w, i)" by (cases p)
  show ?thesis
  proof (cases "is_expired now s i")
    case True
    then show ?thesis using Some p replace_value_cases [of now "length w" k w v s]
      by (auto simp: insert_if_absent_def get_default_None)
  next
    case False
    then show ?thesis using Some p by (auto simp: insert_if_absent_def get_default_None)
  qed
qed

interpretation fs: record_store "st_inv 0" st_get st_set insert_if_absent
proof
  fix s k k' v w now now'
  show "st_inv 0 s \<Longrightarrow> st_inv 0 (fst (st_set now k v s))" by (rule st_set_inv)
  show "st_inv 0 s \<Longrightarrow> st_inv 0 (fst (insert_if_absent now k v s))" by (rule insert_if_absent_inv)
  show "k' \<noteq> k \<Longrightarrow> st_get now' k' (fst (st_set now k v s)) = st_get now' k' s"
    using st_set_cases [of now k v s] by (auto simp: st_get_put)
  show "k' \<noteq> k \<Longrightarrow> st_get now' k' (fst (insert_if_absent now k v s)) = st_get now' k' s"
    using insert_if_absent_cases [of now k v s] by (auto simp: st_get_put)
  show "snd (st_set now k v s) \<in> {Stored, AlreadyStored} \<Longrightarrow> st_get now k (fst (st_set now k v s)) = Some v"
    using st_set_cases [of now k v s] by (auto simp: st_get_put)
  show "snd (st_set now k v s) \<notin> {Stored, AlreadyStored} \<Longrightarrow>
      snd (st_set now k v s) = CapacityExceeded \<and> fst (st_set now k v s) = s"
    using st_set_cases [of now k v s] by auto
  show "st_get now k s = Some w \<Longrightarrow>
      snd (insert_if_absent now k v s) = (if w = v then AlreadyStored else Conflict) \<and>
      st_get now k (fst (insert_if_absent now k v s)) = Some w"
    using insert_if_absent_cases [of now k v s] by (auto simp: st_get_put)
  show "st_get now k s = None \<Longrightarrow>
      snd (insert_if_absent now k v s) = CapacityExceeded \<and> fst (insert_if_absent now k v s) = s \<or>
      snd (insert_if_absent now k v s) \<in> {Stored, AlreadyStored} \<and>
      st_get now k (fst (insert_if_absent now k v s)) = Some v"
    using insert_if_absent_cases [of now k v s] by (auto simp: st_get_put)
qed

subsection \<open>Properties\<close>

inductive st_reach :: "int \<Rightarrow> nat \<Rightarrow> nat list \<Rightarrow> storage \<Rightarrow> bool" for ttl max_bytes where
  new: "st_reach ttl max_bytes [] (with_max_storage_bytes ttl max_bytes)"
| set: "st_reach ttl max_bytes ps s \<Longrightarrow> st_reach ttl max_bytes ps (fst (st_set now k v s))"
| insert: "st_reach ttl max_bytes ps s \<Longrightarrow> st_reach ttl max_bytes ps (fst (insert_if_absent now k v s))"
| retain: "st_reach ttl max_bytes ps s \<Longrightarrow> prune_retain now s = (s', records, reclaimed) \<Longrightarrow>
    st_reach ttl max_bytes (reclaimed # ps) s'"
| release: "st_reach ttl max_bytes ps s \<Longrightarrow> i < length ps \<Longrightarrow>
    st_reach ttl max_bytes (remove_at i ps) (release_bytes (ps ! i) s)"

lemma sum_list_remove_at: "i < length ps \<Longrightarrow> sum_list (remove_at i ps) = sum_list ps - ps ! i" for ps :: "nat list"
  using arg_cong [OF mset_remove_at [of i ps], of sum_mset] by (simp add: sum_mset_sum_list)

lemma st_reach_inv:
  assumes "st_reach ttl max_bytes ps s" "max_bytes < usize_size"
  shows "st_inv (sum_list ps) s"
  using assms
proof induction
  case (retain ps s now s' records reclaimed)
  then show ?case using prune_retain_inv [of "sum_list ps" s] by (simp add: add.commute)
next
  case (release ps s i)
  then show ?case using release_inv [of "sum_list ps" s "ps ! i"]
    by (simp add: sum_list_remove_at member_le_sum_list)
qed (simp_all add: inv_intros)

text \<open>
  Property C9. Whatever order writes and the two halves of concurrent \<open>prune_expired\<close> calls run
  in, the byte counter is the size of all keys and values held plus what is still to be released;
  it never exceeds the budget; and releasing an amount never wraps the counter around.
\<close>

theorem storage_accounting:
  assumes "st_reach ttl max_bytes ps s" "max_bytes < usize_size"
  shows "st_current_storage_bytes s = alist_size (st_data s) + sum_list ps \<and>
    st_current_storage_bytes s \<le> st_max_storage_bytes s \<and>
    distinct (map fst (st_data s)) \<and>
    (\<forall>n \<in> set ps. st_current_storage_bytes (release_bytes n s) + n = st_current_storage_bytes s)"
proof -
  have inv: "st_inv (sum_list ps) s" by (rule st_reach_inv [OF assms])
  have "st_current_storage_bytes (release_bytes n s) + n = st_current_storage_bytes s" if "n \<in> set ps" for n
  proof -
    have "n \<le> sum_list ps" using that by (simp add: member_le_sum_list)
    then show ?thesis using inv release_bytes_exact [of n s] by (auto simp: st_inv_def)
  qed
  then show ?thesis using inv by (simp add: st_inv_def)
qed

text \<open>The bytes a write of \<open>v\<close> under \<open>k\<close> adds to the counter.\<close>

definition extra_bytes :: "bytes \<Rightarrow> bytes \<Rightarrow> storage \<Rightarrow> nat" where
  "extra_bytes k v s =
     (case map_of (st_data s) k of
        None \<Rightarrow> length k + length v
      | Some (w, _) \<Rightarrow> if w = v then 0 else length v - length w)"

definition fits :: "bytes \<Rightarrow> bytes \<Rightarrow> storage \<Rightarrow> bool" where
  "fits k v s \<longleftrightarrow> st_current_storage_bytes s + extra_bytes k v s \<le> st_max_storage_bytes s"

lemma insert_vacant_fits:
  assumes "st_inv p s" "map_of (st_data s) k = None"
  shows "snd (insert_vacant now k v s) = CapacityExceeded \<longleftrightarrow> \<not> fits k v s"
  using assms reserve_bytes_iff [of s "length k + length v"]
  by (auto simp: insert_vacant_def fits_def extra_bytes_def st_inv_def split: option.splits)

lemma replace_value_fits:
  assumes "st_inv p s" "map_of (st_data s) k = Some (w, i)"
  shows "snd (replace_value now (length w) k w v s) = CapacityExceeded \<longleftrightarrow> \<not> fits k v s"
  using assms reserve_bytes_iff [of s "length v - length w"]
  by (auto simp: replace_value_def fits_def extra_bytes_def st_inv_def Let_def split: option.splits)

lemma insert_if_absent_fits:
  assumes "st_inv p s" "st_get now k s = None"
  shows "snd (insert_if_absent now k v s) = CapacityExceeded \<longleftrightarrow> \<not> fits k v s"
  using assms insert_vacant_fits [OF assms(1)] replace_value_fits [OF assms(1)]
  by (auto simp: insert_if_absent_def get_default_None split: option.splits if_splits)

lemma st_set_fits:
  assumes "st_inv p s"
  shows "snd (st_set now k v s) = CapacityExceeded \<longleftrightarrow> \<not> fits k v s"
  using insert_vacant_fits [OF assms] replace_value_fits [OF assms]
  by (auto simp: st_set_def split: option.splits)

text \<open>
  Property C7. \<open>insert_if_absent\<close> is an atomic insert into the map of live records. A live record
  is never replaced: an identical value is reported as already stored, a different one as a
  conflict that changes nothing. Where no live record exists the value is stored if it fits in the
  byte budget, and otherwise the call is refused and changes nothing. Other keys are untouched.
\<close>

theorem insert_if_absent_functional:
  assumes "st_inv p s"
  shows "(let (s', r) = insert_if_absent now k v s; live = (\<lambda>t k. st_get now k t) in
    case live s k of
      Some w \<Rightarrow> r = (if w = v then AlreadyStored else Conflict) \<and> live s' = live s \<and> (r = Conflict \<longrightarrow> s' = s)
    | None \<Rightarrow>
        if fits k v s then r \<in> {Stored, AlreadyStored} \<and> live s' = (live s)(k \<mapsto> v)
        else r = CapacityExceeded \<and> s' = s)"
proof -
  have other: "k' \<noteq> k \<Longrightarrow> st_get now k' (fst (insert_if_absent now k v s)) = st_get now k' s" for k'
    by (rule fs.store_absent_other)
  show ?thesis
  proof (cases "st_get now k s")
    case None
    show ?thesis
      using fs.absent_vacant [OF None, of v] insert_if_absent_fits [OF assms None, of v] None other
      by (auto simp: Let_def case_prod_beta fun_eq_iff)
  next
    case (Some w)
    have "s' = s" if "insert_if_absent now k v s = (s', Conflict)" for s'
      using that insert_if_absent_cases [of now k v s] by auto
    moreover have "st_get now k' (fst (insert_if_absent now k v s)) = st_get now k' s" for k'
      using fs.absent_live [OF Some, of v] Some other by (cases "k' = k") simp_all
    ultimately show ?thesis
      using fs.absent_live [OF Some, of v] Some
      by (auto simp: Let_def case_prod_beta fun_eq_iff prod_eq_iff)
  qed
qed

text \<open>
  Property C27. \<open>set\<close> replaces the record of its key whenever the new value fits and refuses it,
  changing nothing, otherwise; a stored record can be read from the moment of the write until
  exactly \<open>ttl\<close> seconds have passed (for ever with \<open>ttl = -1\<close>), and not afterwards.
\<close>

theorem st_set_readable_until_expiry:
  assumes "st_inv p s" "-1 \<le> st_ttl s" "st_ttl s < 2 ^ 63" "now \<le> now'"
  shows "(let (s', r) = st_set now k v s in
    if fits k v s
    then r \<in> {Stored, AlreadyStored} \<and>
      (\<forall>k'. st_get now' k' s' =
        (if k' = k then (if st_ttl s = -1 \<or> now' \<le> now + secs (nat (st_ttl s)) then Some v else None)
         else st_get now' k' s))
    else r = CapacityExceeded \<and> s' = s)"
proof -
  have exp: "is_expired now' s now \<longleftrightarrow> \<not> (st_ttl s = -1 \<or> now' \<le> now + secs (nat (st_ttl s)))"
    using assms(2-4) by (auto simp: is_expired_def)
  from st_set_cases [of now k v s] show ?thesis
  proof
    assume "st_set now k v s = (s, CapacityExceeded)"
    then show ?thesis using st_set_fits [OF assms(1), of now k v] by simp
  next
    assume "\<exists>s' r. st_set now k v s = (s', r) \<and> r \<in> {Stored, AlreadyStored} \<and>
      st_data s' = AList.update k (v, now) (st_data s) \<and> st_ttl s' = st_ttl s"
    then obtain s' r where "st_set now k v s = (s', r)" "r \<in> {Stored, AlreadyStored}"
      "st_data s' = AList.update k (v, now) (st_data s)" "st_ttl s' = st_ttl s" by blast
    then show ?thesis using st_set_fits [OF assms(1), of now k v] exp by (auto simp: st_get_put)
  qed
qed

lemma map_of_filter_snd:
  "distinct (map fst xs) \<Longrightarrow>
   map_of (filter (\<lambda>(k, v, i). P i) xs) k =
     (case map_of xs k of Some (v, i) \<Rightarrow> if P i then Some (v, i) else None | None \<Rightarrow> None)"
proof (induction xs)
  case (Cons x xs)
  then show ?case by (cases x) (auto simp: map_of_eq_None_iff split: option.split)
qed simp

lemma is_expired_later: "is_expired now s i \<Longrightarrow> now \<le> now' \<Longrightarrow> is_expired now' s i"
  by (auto simp: is_expired_def split: if_splits)

text \<open>
  Property C29. \<open>prune_expired\<close> changes no answer: every later read returns what it returned
  before. It removes every expired entry and nothing else, reports their number, and afterwards
  the counter is the size of the entries that are left.
\<close>

theorem prune_expired_correct:
  assumes "st_inv 0 s" "prune_expired now s = (s', cnt)" "now \<le> now'"
  shows "st_inv 0 s' \<and> st_get now' k s' = st_get now' k s \<and>
    (\<forall>(k, v, i) \<in> set (st_data s'). \<not> is_expired now s i) \<and>
    length (st_data s') + cnt = length (st_data s)"
proof -
  obtain s1 n where ret: "prune_retain now s = (s1, cnt, n)" and s': "s' = release_bytes n s1"
    using assms(2) by (auto simp: prune_expired_def split: prod.splits)
  have "st_inv 0 s'" using release_inv [OF prune_retain_inv [OF assms(1) ret], of n] s' by simp
  moreover have data: "st_data s' = filter (\<lambda>(k, v, i). \<not> is_expired now s i) (st_data s)"
    "st_ttl s' = st_ttl s"
    using ret s' by (auto simp: prune_retain_def Let_def is_expired_def split: if_splits)
  moreover have "length (filter (\<lambda>(k, v, i). \<not> is_expired now s i) xs) +
      length (filter (\<lambda>(k, v, i). is_expired now s i) xs) = length xs" for xs by (induction xs) auto
  then have "length (st_data s') + cnt = length (st_data s)"
    using ret data by (auto simp: prune_retain_def Let_def is_expired_def split: if_splits)
  moreover have "st_get now' k s' = st_get now' k s"
    using assms(1) is_expired_later [OF _ assms(3)] is_expired_cong [OF data(2)]
    by (auto simp: get_default_None data(1) st_inv_def map_of_filter_snd split: option.split)
  ultimately show ?thesis by (auto simp: data(1))
qed

subsection \<open>Concrete instances\<close>

definition wstore :: storage where
  "wstore = fst (st_set 0 [1] [2, 3] (with_max_storage_bytes 60 8))"

lemma wstore_reach: "st_reach 60 8 [] wstore"
  unfolding wstore_def by (intro st_reach.intros)

lemma eight_lt_usize: "8 < usize_size"
  by (simp add: usize_size_def)

lemma wstore_eq:
  "wstore = \<lparr>st_data = [([1], [2, 3], 0)], st_ttl = 60, st_current_storage_bytes = 3, st_max_storage_bytes = 8\<rparr>"
  using eight_lt_usize
  by (simp add: wstore_def st_set_def insert_vacant_def with_max_storage_bytes_def reserve_bytes_def
      checked_add_def put_slot_def)

lemma wstore_inv: "st_inv 0 wstore"
  using st_reach_inv [OF wstore_reach eight_lt_usize] by simp

theorem storage_accounting_witness:
  "st_current_storage_bytes wstore = alist_size (st_data wstore) \<and>
   st_current_storage_bytes wstore \<le> st_max_storage_bytes wstore"
  using storage_accounting [OF wstore_reach eight_lt_usize] by simp

theorem insert_if_absent_functional_witness:
  "insert_if_absent 0 [1] [9] wstore = (wstore, Conflict) \<and>
   snd (insert_if_absent 0 [4] [5, 6] wstore) \<in> {Stored, AlreadyStored} \<and>
   insert_if_absent 0 [4] [5, 6, 7, 8, 9] wstore = (wstore, CapacityExceeded)"
proof -
  have g: "st_get 0 [1] wstore = Some [2, 3]" "st_get 0 [4] wstore = None"
    by (simp_all add: get_default_None wstore_eq is_expired_def)
  have f: "fits [4] [5, 6] wstore" "\<not> fits [4] [5, 6, 7, 8, 9] wstore"
    by (simp_all add: fits_def extra_bytes_def wstore_eq)
  from g f show ?thesis
    using insert_if_absent_functional [OF wstore_inv, of 0 "[1]" "[9]"]
      insert_if_absent_functional [OF wstore_inv, of 0 "[4]" "[5, 6]"]
      insert_if_absent_functional [OF wstore_inv, of 0 "[4]" "[5, 6, 7, 8, 9]"]
    by (auto simp: Let_def case_prod_beta prod_eq_iff)
qed

theorem st_set_readable_until_expiry_witness:
  "st_get (secs 60) [4] (fst (st_set 0 [4] [5] wstore)) = Some [5] \<and>
   st_get (secs 61) [4] (fst (st_set 0 [4] [5] wstore)) = None"
proof -
  have f: "fits [4] [5] wstore" and ttl: "st_ttl wstore = 60"
    by (simp_all add: fits_def extra_bytes_def wstore_eq)
  have "secs 61 > secs 60" by (simp add: secs_def)
  with f ttl show ?thesis
    using st_set_readable_until_expiry [OF wstore_inv, of 0 "secs 60" "[4]" "[5]"]
      st_set_readable_until_expiry [OF wstore_inv, of 0 "secs 61" "[4]" "[5]"]
    by (auto simp: case_prod_beta)
qed

theorem prune_expired_correct_witness:
  "snd (prune_expired (secs 61) wstore) = 1 \<and> st_inv 0 (fst (prune_expired (secs 61) wstore)) \<and>
   length (st_data (fst (prune_expired (secs 61) wstore))) + 1 = length (st_data wstore)"
proof -
  have "snd (prune_expired (secs 61) wstore) = 1"
    by (simp add: prune_expired_def prune_retain_def wstore_eq is_expired_def secs_def case_prod_beta)
  then show ?thesis
    using prune_expired_correct [OF wstore_inv, of "secs 61" "fst (prune_expired (secs 61) wstore)" 1 "secs 61" "[]"]
    by (metis order_refl prod.collapse)
qed

end
