(* ===== verification/Fragmentation.thy ===== *)
theory Fragmentation
  imports Nodes
begin

text \<open>
  Application-level fragmentation (\<open>src/src/fragmentation.rs\<close>): a message is cut into datagrams
  with a twelve-byte header, and a receiver collects the datagrams of each message in a bounded
  map from (peer, fragment id) to a reassembly entry.

  The map behind the mutex is an association list. Header fields keep their width, so the casts
  \<open>as u16\<close> of the encoder are \<open>word_of_nat\<close> and lose what does not fit.
\<close>

subsection \<open>Wire format\<close>

definition FRAG_MAGIC :: u32 where
  "FRAG_MAGIC = 0x4B414446"

definition FRAG_HEADER_LEN :: nat where
  "FRAG_HEADER_LEN = 4 + 4 + 2 + 2"

definition FRAG_CHUNK_SIZE :: nat where
  "FRAG_CHUNK_SIZE = 1400"

definition REASSEMBLY_TTL :: duration where
  "REASSEMBLY_TTL = secs 10"

definition REASSEMBLY_GC_INTERVAL :: duration where
  "REASSEMBLY_GC_INTERVAL = secs 1"

definition MAX_MESSAGE_SIZE :: nat where
  "MAX_MESSAGE_SIZE = 256 * 1024"

definition MAX_REASSEMBLY_ENTRIES :: nat where
  "MAX_REASSEMBLY_ENTRIES = 64"

definition MAX_REASSEMBLY_ENTRIES_PER_PEER :: nat where
  "MAX_REASSEMBLY_ENTRIES_PER_PEER = 8"

definition frag_datagram :: "u32 \<Rightarrow> u16 \<Rightarrow> u16 \<Rightarrow> bytes \<Rightarrow> bytes" where
  "frag_datagram frag_id index tot chunk =
     u32_to_be_bytes FRAG_MAGIC @ u32_to_be_bytes frag_id @ u16_to_be_bytes index @
     u16_to_be_bytes tot @ chunk"

definition div_ceil :: "nat \<Rightarrow> nat \<Rightarrow> nat" where
  "div_ceil a b = (if a mod b > 0 then a div b + 1 else a div b)"

definition encode_fragments :: "u32 \<Rightarrow> bytes \<Rightarrow> bytes list" where
  "encode_fragments frag_id payload =
     (if payload = [] then [frag_datagram frag_id 0 1 []]
      else
        (let tot = word_of_nat (div_ceil (length payload) FRAG_CHUNK_SIZE) in
         map (\<lambda>(i, chunk). frag_datagram frag_id (word_of_nat i) tot chunk)
           (enumerate 0 (chunks FRAG_CHUNK_SIZE payload))))"

record frag_header =
  fh_frag_id :: u32
  fh_index :: u16
  fh_total :: u16

definition parse_fragment :: "bytes \<Rightarrow> (frag_header \<times> bytes) option" where
  "parse_fragment data =
     (if \<not> (FRAG_HEADER_LEN \<le> length data \<and> length data \<le> FRAG_HEADER_LEN + FRAG_CHUNK_SIZE) then None
      else if u32_from_be_bytes (take 4 data) \<noteq> FRAG_MAGIC then None
      else
        (let frag_id = u32_from_be_bytes (take 4 (drop 4 data));
             index = u16_from_be_bytes (take 2 (drop 8 data));
             tot = u16_from_be_bytes (take 2 (drop 10 data))
         in if tot = 0 \<or> index \<ge> tot then None
            else Some (\<lparr>fh_frag_id = frag_id, fh_index = index, fh_total = tot\<rparr>,
                       drop FRAG_HEADER_LEN data)))"

subsection \<open>Reassembly\<close>

record reassembly_entry =
  re_total :: u16
  re_received :: u16
  re_chunks :: "bytes option list"
  re_created_at :: instant

definition entry_new :: "instant \<Rightarrow> u16 \<Rightarrow> reassembly_entry" where
  "entry_new now tot =
     \<lparr>re_total = tot, re_received = 0, re_chunks = replicate (unat tot) None,
      re_created_at = now\<rparr>"

definition entry_insert :: "reassembly_entry \<Rightarrow> u16 \<Rightarrow> bytes \<Rightarrow> reassembly_entry \<times> bool" where
  "entry_insert e index payload =
     (let idx = unat index in
      if idx \<ge> length (re_chunks e) then (e, False)
      else
        (let e' = (if re_chunks e ! idx = None
                   then e\<lparr>re_chunks := (re_chunks e)[idx := Some payload],
                          re_received := re_received e + 1\<rparr>
                   else e)
         in (e', re_received e' = re_total e')))"

definition entry_assemble :: "reassembly_entry \<Rightarrow> bytes option" where
  "entry_assemble e = map_option concat (those (re_chunks e))"

type_synonym reassembly_map = "((sock_addr \<times> u32) \<times> reassembly_entry) list"

definition accept_fragment ::
    "instant \<Rightarrow> reassembly_map \<Rightarrow> sock_addr \<Rightarrow> frag_header \<Rightarrow> bytes \<Rightarrow>
     reassembly_map \<times> bytes option" where
  "accept_fragment now m peer header chunk =
     (let key = (peer, fh_frag_id header);
          admitted =
            (if map_of m key \<noteq> None then Some m
             else if length m \<ge> MAX_REASSEMBLY_ENTRIES then None
             else if length (filter (\<lambda>((entry_peer, _), _). entry_peer = peer) m)
                       \<ge> MAX_REASSEMBLY_ENTRIES_PER_PEER then None
             else Some (AList.update key (entry_new now (fh_total header)) m))
      in case admitted of
           None \<Rightarrow> (m, None)
         | Some m1 \<Rightarrow>
             (case map_of m1 key of
                None \<Rightarrow> (m1, None)
              | Some entry \<Rightarrow>
                  if re_total entry \<noteq> fh_total header then (AList.delete key m1, None)
                  else
                    (let (entry', complete) = entry_insert entry (fh_index header) chunk;
                         m2 = AList.update key entry' m1
                     in if \<not> complete then (m2, None)
                        else (AList.delete key m2, entry_assemble entry'))))"

text \<open>The sweep of \<open>gc_reassembly\<close>, without its rate limit.\<close>

definition reassembly_retain :: "instant \<Rightarrow> reassembly_map \<Rightarrow> reassembly_map" where
  "reassembly_retain now m = filter (\<lambda>(_, entry). now - re_created_at entry < REASSEMBLY_TTL) m"

subsection \<open>Datagrams parse back\<close>

lemma frag_datagram_fields [arr_simps]:
  "length (frag_datagram f i t c) = 12 + length c"
  "take 4 (frag_datagram f i t c) = u32_to_be_bytes FRAG_MAGIC"
  "take 4 (drop 4 (frag_datagram f i t c)) = u32_to_be_bytes f"
  "take 2 (drop 8 (frag_datagram f i t c)) = u16_to_be_bytes i"
  "take 2 (drop 10 (frag_datagram f i t c)) = u16_to_be_bytes t"
  "drop 12 (frag_datagram f i t c) = c"
  by (simp_all add: frag_datagram_def)

lemma parse_frag_datagram:
  assumes "i < t" "length c \<le> FRAG_CHUNK_SIZE"
  shows "parse_fragment (frag_datagram f i t c) =
    Some (\<lparr>fh_frag_id = f, fh_index = i, fh_total = t\<rparr>, c)"
proof -
  have "t \<noteq> 0" using assms(1) by auto
  then show ?thesis using assms
    by (auto simp: parse_fragment_def FRAG_HEADER_LEN_def arr_simps)
qed

lemma div_ceil_eq: "0 < b \<Longrightarrow> div_ceil a b = (a + b - 1) div b"
proof -
  assume b: "0 < b"
  show ?thesis
  proof (cases "a mod b = 0")
    case True
    then obtain c where "a = b * c" by auto
    with b show ?thesis using div_mult_self4 [of b c "b - 1"] by (simp add: div_ceil_def)
  next
    case False
    then have lt: "0 < a mod b" "a mod b < b" using b by auto
    have split: "a + b - 1 = (a mod b - 1) + (a div b + 1) * b"
      using lt div_mult_mod_eq [of a b] distrib_right [of "a div b" 1 b] by linarith
    have "(a + b - 1) div b = (a div b + 1) + (a mod b - 1) div b"
      unfolding split by (rule div_mult_self1) (use b in simp)
    then show ?thesis using lt by (simp add: div_ceil_def)
  qed
qed

definition frag_chunks :: "bytes \<Rightarrow> bytes list" where
  "frag_chunks payload = (if payload = [] then [[]] else chunks FRAG_CHUNK_SIZE payload)"

definition frag_total :: "bytes \<Rightarrow> nat" where
  "frag_total payload = length (frag_chunks payload)"

definition frag_head :: "u32 \<Rightarrow> bytes \<Rightarrow> nat \<Rightarrow> frag_header" where
  "frag_head f payload i =
     \<lparr>fh_frag_id = f, fh_index = word_of_nat i, fh_total = word_of_nat (frag_total payload)\<rparr>"

lemma FRAG_CHUNK_SIZE_pos [simp]: "0 < FRAG_CHUNK_SIZE"
  by (simp add: FRAG_CHUNK_SIZE_def)

lemma frag_total_div_ceil: "payload \<noteq> [] \<Longrightarrow> frag_total payload = div_ceil (length payload) FRAG_CHUNK_SIZE"
  by (simp add: frag_total_def frag_chunks_def length_chunks div_ceil_eq)

lemma frag_chunks_facts:
  "concat (frag_chunks payload) = payload" "frag_chunks payload \<noteq> []"
  "c \<in> set (frag_chunks payload) \<Longrightarrow> length c \<le> FRAG_CHUNK_SIZE"
proof -
  show "concat (frag_chunks payload) = payload" by (simp add: frag_chunks_def concat_chunks)
  show "frag_chunks payload \<noteq> []"
    using concat_chunks [OF FRAG_CHUNK_SIZE_pos, of payload] by (auto simp: frag_chunks_def)
  show "c \<in> set (frag_chunks payload) \<Longrightarrow> length c \<le> FRAG_CHUNK_SIZE"
    using chunks_sizes [OF FRAG_CHUNK_SIZE_pos, of c payload] by (auto simp: frag_chunks_def split: if_splits)
qed

lemma frag_total_bound: "frag_total payload < 2 ^ 16 \<longleftrightarrow> length payload \<le> 65535 * FRAG_CHUNK_SIZE"
proof (cases "payload = []")
  case False
  have "(1399 + length payload) div 1400 < 65536 \<longleftrightarrow> length payload \<le> 65535 * 1400" by linarith
  then show ?thesis using False
    by (simp add: frag_total_div_ceil div_ceil_eq FRAG_CHUNK_SIZE_def)
qed (simp add: frag_total_def frag_chunks_def)

lemma encode_fragments_nth:
  "length (encode_fragments f payload) = frag_total payload"
  "i < frag_total payload \<Longrightarrow>
   encode_fragments f payload ! i =
     frag_datagram f (word_of_nat i) (word_of_nat (frag_total payload)) (frag_chunks payload ! i)"
  by (auto simp: encode_fragments_def frag_total_def frag_chunks_def Let_def length_chunks div_ceil_eq
      nth_enumerate_eq split: if_splits)

lemma word_of_nat_less16: "i < t \<Longrightarrow> t < 2 ^ 16 \<Longrightarrow> (word_of_nat i :: u16) < word_of_nat t"
  by (simp add: word_less_nat_alt unat_of_nat take_bit_nat_eq_self)

lemma unat_word_of_nat16 [simp]: "t < 2 ^ 16 \<Longrightarrow> unat (word_of_nat t :: u16) = t"
  by (simp add: unat_of_nat take_bit_nat_eq_self)

lemma parse_encoded:
  assumes "length payload \<le> 65535 * FRAG_CHUNK_SIZE" "i < frag_total payload"
  shows "parse_fragment (encode_fragments f payload ! i) =
    Some (frag_head f payload i, frag_chunks payload ! i)"
  using assms frag_chunks_facts(3) [of "frag_chunks payload ! i" payload] frag_total_bound [of payload]
  by (simp add: encode_fragments_nth parse_frag_datagram word_of_nat_less16 frag_head_def frag_total_def)

subsection \<open>Reassembly entries\<close>

definition filled :: "bytes option list \<Rightarrow> nat" where
  "filled cs = length (filter (\<lambda>c. c \<noteq> None) cs)"

definition entry_ok :: "reassembly_entry \<Rightarrow> bool" where
  "entry_ok e \<longleftrightarrow> length (re_chunks e) = unat (re_total e) \<and> unat (re_received e) = filled (re_chunks e)"

lemma filled_le: "filled cs \<le> length cs"
  by (simp add: filled_def)

lemma filled_update:
  "i < length cs \<Longrightarrow> cs ! i = None \<Longrightarrow> filled (cs[i := Some c]) = Suc (filled cs)"
proof (induction cs arbitrary: i)
  case (Cons x cs)
  then show ?case by (cases i) (auto simp: filled_def)
qed simp

lemma filled_all: "filled cs = length cs \<longleftrightarrow> None \<notin> set cs"
proof (induction cs)
  case (Cons x cs)
  show ?case
  proof (cases x)
    case None
    then have "filled (x # cs) = filled cs" by (simp add: filled_def)
    with None filled_le [of cs] show ?thesis by simp
  next
    case (Some y)
    then have "filled (x # cs) = Suc (filled cs)" by (simp add: filled_def)
    with Some Cons.IH show ?thesis by simp
  qed
qed (simp add: filled_def)

lemma entry_new_ok [inv_intros]: "entry_ok (entry_new now t)"
  by (simp add: entry_ok_def entry_new_def filled_def)

lemma unat_plus1_16: "unat (w :: u16) < unat t \<Longrightarrow> unat (w + 1) = Suc (unat w)" for t :: u16
  using unsigned_less [of t, where ?'a = nat] unat_add_lem [of w 1] by (auto simp: unat_1 simp del: unsigned_less)

lemma entry_insert_ok [inv_intros]:
  assumes "entry_ok e"
  shows "entry_ok (fst (entry_insert e i c))"
proof (cases "unat i < length (re_chunks e) \<and> re_chunks e ! unat i = None")
  case True
  then have "filled (re_chunks e) \<noteq> length (re_chunks e)" using filled_all nth_mem by metis
  then have "unat (re_received e) < unat (re_total e)"
    using assms filled_le [of "re_chunks e"] by (simp add: entry_ok_def)
  then show ?thesis using True assms unat_plus1_16 [of "re_received e" "re_total e"]
    by (simp add: entry_insert_def entry_ok_def Let_def filled_update)
next
  case False
  then show ?thesis using assms by (auto simp: entry_insert_def Let_def)
qed

lemma entry_insert_fields [simp]:
  "re_total (fst (entry_insert e i c)) = re_total e"
  "re_created_at (fst (entry_insert e i c)) = re_created_at e"
  "length (re_chunks (fst (entry_insert e i c))) = length (re_chunks e)"
  by (simp_all add: entry_insert_def Let_def)

lemma entry_insert_complete:
  assumes "entry_ok e" "unat i < length (re_chunks e)"
  shows "snd (entry_insert e i c) \<longleftrightarrow> None \<notin> set (re_chunks (fst (entry_insert e i c)))"
proof -
  let ?e = "fst (entry_insert e i c)"
  have "snd (entry_insert e i c) \<longleftrightarrow> re_received ?e = re_total ?e"
    using assms(2) by (simp add: entry_insert_def Let_def)
  also have "\<dots> \<longleftrightarrow> filled (re_chunks ?e) = length (re_chunks ?e)"
    using entry_insert_ok [OF assms(1), of i c] by (auto simp: entry_ok_def simp flip: word_unat_eq_iff)
  finally show ?thesis by (simp only: filled_all)
qed

lemma those_map_Some: "None \<notin> set cs \<Longrightarrow> those cs = Some (map the cs)"
proof (induction cs)
  case (Cons c cs)
  then show ?case by (cases c) auto
qed simp

lemma entry_assemble_full: "None \<notin> set (re_chunks e) \<Longrightarrow> entry_assemble e = Some (concat (map the (re_chunks e)))"
  by (simp add: entry_assemble_def those_map_Some)

subsection \<open>The reassembly map stays bounded\<close>

definition peer_entries :: "sock_addr \<Rightarrow> reassembly_map \<Rightarrow> nat" where
  "peer_entries peer m = length (filter (\<lambda>((entry_peer, _), _). entry_peer = peer) m)"

definition reass_inv :: "reassembly_map \<Rightarrow> bool" where
  "reass_inv m \<longleftrightarrow>
     distinct (map fst m) \<and> length m \<le> MAX_REASSEMBLY_ENTRIES \<and>
     (\<forall>peer. peer_entries peer m \<le> MAX_REASSEMBLY_ENTRIES_PER_PEER) \<and>
     (\<forall>(k, e) \<in> set m. entry_ok e)"

lemma peer_entries_keys: "peer_entries peer m = length (filter (\<lambda>k. fst k = peer) (map fst m))"
  by (induction m) (auto simp: peer_entries_def)

lemma reass_inv_keys:
  assumes "reass_inv m" "map fst m' = map fst m" "\<And>k e. (k, e) \<in> set m' \<Longrightarrow> entry_ok e"
  shows "reass_inv m'"
proof -
  have "length m' = length m" using assms(2) by (metis length_map)
  then show ?thesis using assms by (auto simp: reass_inv_def peer_entries_keys)
qed

lemma reass_inv_update:
  assumes "reass_inv m" "map_of m k \<noteq> None" "entry_ok e"
  shows "reass_inv (AList.update k e m)"
proof (rule reass_inv_keys [OF assms(1)])
  show "map fst (AList.update k e m) = map fst m"
    using assms(2) by (simp add: update_keys map_of_eq_None_iff)
  show "entry_ok e'" if "(k', e') \<in> set (AList.update k e m)" for k' e'
    using that alist_update_subset [of k e m] assms(1,3) by (auto simp: reass_inv_def)
qed

lemma reass_inv_admit:
  assumes "reass_inv m" "map_of m k = None" "length m < MAX_REASSEMBLY_ENTRIES"
    "peer_entries (fst k) m < MAX_REASSEMBLY_ENTRIES_PER_PEER" "entry_ok e"
  shows "reass_inv (AList.update k e m)"
proof -
  have keys: "map fst (AList.update k e m) = map fst m @ [k]" and new: "k \<notin> fst ` set m"
    using assms(2) by (simp_all add: update_keys map_of_eq_None_iff)
  have "length (AList.update k e m) = Suc (length m)" using arg_cong [OF keys, of length] by simp
  moreover have "entry_ok e'" if "(k', e') \<in> set (AList.update k e m)" for k' e'
    using that alist_update_subset [of k e m] assms(1,5) by (auto simp: reass_inv_def)
  moreover have "peer_entries peer (AList.update k e m) \<le> MAX_REASSEMBLY_ENTRIES_PER_PEER" for peer
  proof -
    have "peer_entries peer m \<le> MAX_REASSEMBLY_ENTRIES_PER_PEER" using assms(1) unfolding reass_inv_def by blast
    then show ?thesis using assms(4) by (cases "fst k = peer") (auto simp: peer_entries_keys keys)
  qed
  ultimately show ?thesis using assms(1,3) keys new by (auto simp: reass_inv_def)
qed

lemma reass_inv_filter:
  assumes "reass_inv m"
  shows "reass_inv (filter P m)"
proof -
  have "peer_entries peer (filter P m) \<le> peer_entries peer m" for peer
    by (induction m) (auto simp: peer_entries_def)
  moreover have "peer_entries peer m \<le> MAX_REASSEMBLY_ENTRIES_PER_PEER" for peer
    using assms unfolding reass_inv_def by blast
  ultimately have "peer_entries peer (filter P m) \<le> MAX_REASSEMBLY_ENTRIES_PER_PEER" for peer
    by (meson le_trans)
  moreover have "length (filter P m) \<le> MAX_REASSEMBLY_ENTRIES"
    using assms le_trans [OF length_filter_le [of P m]] by (simp add: reass_inv_def)
  ultimately show ?thesis using assms by (auto simp: reass_inv_def distinct_map_filter)
qed

lemma reass_inv_delete: "reass_inv m \<Longrightarrow> reass_inv (AList.delete k m)"
  by (simp add: AList.delete_eq reass_inv_filter)

lemma reassembly_retain_inv [inv_intros]: "reass_inv m \<Longrightarrow> reass_inv (reassembly_retain now m)"
  by (simp add: reassembly_retain_def reass_inv_filter)

definition frag_key :: "sock_addr \<Rightarrow> frag_header \<Rightarrow> sock_addr \<times> u32" where
  "frag_key peer header = (peer, fh_frag_id header)"

text \<open>\<open>accept_fragment\<close> once an entry for the message exists, and how one is admitted.\<close>

lemma accept_existing:
  assumes "map_of m (frag_key peer h) = Some e"
  shows "accept_fragment now m peer h c =
    (if re_total e \<noteq> fh_total h then (AList.delete (frag_key peer h) m, None)
     else if \<not> snd (entry_insert e (fh_index h) c)
     then (AList.update (frag_key peer h) (fst (entry_insert e (fh_index h) c)) m, None)
     else (AList.delete (frag_key peer h) m, entry_assemble (fst (entry_insert e (fh_index h) c))))"
  using assms by (simp add: accept_fragment_def frag_key_def Let_def case_prod_beta delete_update_same)

definition has_room :: "sock_addr \<Rightarrow> reassembly_map \<Rightarrow> bool" where
  "has_room peer m \<longleftrightarrow>
     length m < MAX_REASSEMBLY_ENTRIES \<and> peer_entries peer m < MAX_REASSEMBLY_ENTRIES_PER_PEER"

lemma accept_new:
  assumes "map_of m (frag_key peer h) = None"
  shows "accept_fragment now m peer h c =
    (if has_room peer m
     then accept_fragment now (AList.update (frag_key peer h) (entry_new now (fh_total h)) m) peer h c
     else (m, None))"
  using assms by (auto simp: accept_fragment_def frag_key_def has_room_def peer_entries_def Let_def
      update_conv' not_less)

lemma accept_fragment_inv [inv_intros]:
  assumes inv: "reass_inv m"
  shows "reass_inv (fst (accept_fragment now m peer h c))"
proof -
  let ?k = "frag_key peer h"
  have existing: "reass_inv (fst (accept_fragment now m' peer h c))"
    if "reass_inv m'" "map_of m' ?k = Some e" for m' e
  proof -
    have "(?k, e) \<in> set m'" using that(2) by (rule map_of_SomeD)
    then have "entry_ok e" using that(1) by (auto simp: reass_inv_def)
    then show ?thesis using that entry_insert_ok [of e "fh_index h" c]
      by (auto simp: accept_existing reass_inv_delete reass_inv_update)
  qed
  show ?thesis
  proof (cases "map_of m ?k")
    case None
    have "reass_inv (AList.update ?k (entry_new now (fh_total h)) m)" if "has_room peer m"
      using reass_inv_admit [OF inv None] that entry_new_ok by (simp add: has_room_def frag_key_def)
    then show ?thesis using existing inv by (auto simp: accept_new [OF None] update_conv')
  qed (use existing inv in blast)
qed

lemma accept_other_key:
  assumes "frag_key peer h \<noteq> k"
  shows "map_of (fst (accept_fragment now m peer h c)) k = map_of m k"
proof -
  have existing: "map_of (fst (accept_fragment now m' peer h c)) k = map_of m' k"
    if "map_of m' (frag_key peer h) = Some e" for m' e
    using assms by (auto simp: accept_existing [OF that] update_conv' delete_conv')
  show ?thesis
  proof (cases "map_of m (frag_key peer h)")
    case None
    then show ?thesis using assms existing by (auto simp: accept_new update_conv')
  qed (rule existing)
qed

subsection \<open>The datagrams of one message\<close>

text \<open>
  Datagram \<open>i\<close> of the message, and a datagram that belongs to another message or to none. The first
  component is when it arrives.
\<close>

definition own :: "sock_addr \<Rightarrow> u32 \<Rightarrow> bytes \<Rightarrow> nat \<Rightarrow> 't \<times> sock_addr \<times> bytes \<Rightarrow> bool" where
  "own peer f payload i d \<longleftrightarrow> i < frag_total payload \<and> snd d = (peer, encode_fragments f payload ! i)"

definition foreign :: "sock_addr \<Rightarrow> u32 \<Rightarrow> 't \<times> sock_addr \<times> bytes \<Rightarrow> bool" where
  "foreign peer f d \<longleftrightarrow>
     (case parse_fragment (snd (snd d)) of None \<Rightarrow> True | Some (h, _) \<Rightarrow> frag_key (fst (snd d)) h \<noteq> (peer, f))"

text \<open>The map holds the fragments \<open>S\<close> of the message, the first of which came at \<open>t\<close>.\<close>

definition holding :: "sock_addr \<Rightarrow> u32 \<Rightarrow> bytes \<Rightarrow> instant \<Rightarrow> nat set \<Rightarrow> reassembly_map \<Rightarrow> bool" where
  "holding peer f payload t S m \<longleftrightarrow>
     (\<exists>e. map_of m (peer, f) = Some e \<and> entry_ok e \<and> re_total e = word_of_nat (frag_total payload) \<and>
       re_created_at e = t \<and> length (re_chunks e) = frag_total payload \<and>
       (\<forall>i < frag_total payload.
          re_chunks e ! i = (if i \<in> S then Some (frag_chunks payload ! i) else None)))"

lemma accept_own:
  assumes len: "length payload \<le> 65535 * FRAG_CHUNK_SIZE" and i: "i < frag_total payload"
    and hold: "holding peer f payload t0 S m" and S: "S \<subseteq> {..<frag_total payload}"
    and acc: "accept_fragment now m peer (frag_head f payload i) (frag_chunks payload ! i) = (m', out)"
  shows "if insert i S = {..<frag_total payload} then out = Some payload \<and> map_of m' (peer, f) = None
    else out = None \<and> holding peer f payload t0 (insert i S) m'"
proof -
  let ?t = "frag_total payload" and ?h = "frag_head f payload i" and ?c = "frag_chunks payload ! i"
  have t: "?t < 2 ^ 16" using len by (simp only: frag_total_bound)
  have ui: "unat (fh_index ?h) = i" using i t by (simp add: frag_head_def)
  have key: "frag_key peer ?h = (peer, f)" and tot: "fh_total ?h = word_of_nat ?t"
    by (simp_all add: frag_key_def frag_head_def)
  obtain e where e: "map_of m (peer, f) = Some e" "entry_ok e" "re_total e = word_of_nat ?t" "re_created_at e = t0"
    "length (re_chunks e) = ?t"
    "\<forall>i < ?t. re_chunks e ! i = (if i \<in> S then Some (frag_chunks payload ! i) else None)"
    using hold by (auto simp: holding_def)
  let ?e = "fst (entry_insert e (fh_index ?h) ?c)"
  have chunks: "\<forall>j < ?t. re_chunks ?e ! j = (if j \<in> insert i S then Some (frag_chunks payload ! j) else None)"
    using e(5,6) i ui by (auto simp: entry_insert_def Let_def nth_list_update)
  have comp: "snd (entry_insert e (fh_index ?h) ?c) \<longleftrightarrow> insert i S = {..<?t}"
  proof -
    have "snd (entry_insert e (fh_index ?h) ?c) \<longleftrightarrow> (\<forall>j < ?t. re_chunks ?e ! j \<noteq> None)"
      using entry_insert_complete [OF e(2), of "fh_index ?h" ?c] i ui e(5)
      by (auto simp: in_set_conv_nth)
    then show ?thesis using chunks S i by auto
  qed
  have r: "(m', out) =
    (if insert i S = {..<?t} then (AList.delete (peer, f) m, entry_assemble ?e)
     else (AList.update (peer, f) ?e m, None))"
    using accept_existing [of m peer ?h e now ?c] e(1,3) comp tot acc by (simp add: key)
  show ?thesis
  proof (cases "insert i S = {..<?t}")
    case True
    have len_e: "length (re_chunks ?e) = ?t" using e(5) by simp
    have "map the (re_chunks ?e) = frag_chunks payload"
      using chunks True len_e by (intro nth_equalityI) (auto simp: frag_total_def)
    moreover have "None \<notin> set (re_chunks ?e)" using chunks True len_e by (auto simp: in_set_conv_nth)
    ultimately have "entry_assemble ?e = Some payload"
      by (simp add: entry_assemble_full frag_chunks_facts(1))
    then show ?thesis using True r by (simp add: delete_conv')
  next
    case False
    have "holding peer f payload t0 (insert i S) (AList.update (peer, f) ?e m)"
      using chunks e(2-5) entry_insert_ok [OF e(2)] by (auto simp: holding_def update_conv')
    then show ?thesis using False r by simp
  qed
qed

lemma accept_first:
  fixes peer f payload now m
  defines "m1 \<equiv> AList.update (peer, f) (entry_new now (word_of_nat (frag_total payload))) m"
  assumes len: "length payload \<le> 65535 * FRAG_CHUNK_SIZE" and new: "map_of m (peer, f) = None"
  shows "accept_fragment now m peer (frag_head f payload i) c =
      (if has_room peer m then accept_fragment now m1 peer (frag_head f payload i) c else (m, None))"
    and "holding peer f payload now {} m1"
proof -
  have t: "frag_total payload < 2 ^ 16" using len by (simp only: frag_total_bound)
  show "accept_fragment now m peer (frag_head f payload i) c =
      (if has_room peer m then accept_fragment now m1 peer (frag_head f payload i) c else (m, None))"
    using accept_new [of m peer "frag_head f payload i" now c] new by (simp add: frag_key_def frag_head_def m1_def)
  show "holding peer f payload now {} m1"
    using t entry_new_ok [of now "word_of_nat (frag_total payload)"]
    by (simp add: holding_def update_conv' entry_new_def m1_def)
qed

lemma own_parse:
  assumes "length payload \<le> 65535 * FRAG_CHUNK_SIZE" "own peer f payload i d"
  shows "parse_fragment (snd (snd d)) = Some (frag_head f payload i, frag_chunks payload ! i)"
  using assms parse_encoded [of payload i f] by (simp add: own_def)

lemma own_unique:
  assumes len: "length payload \<le> 65535 * FRAG_CHUNK_SIZE" and own: "own peer f payload i d" "own peer f payload j d"
  shows "i = j"
proof -
  have "(word_of_nat i :: u16) = word_of_nat j"
    using own_parse [OF len own(1)] own_parse [OF len own(2)] by (simp add: frag_head_def)
  moreover have "i < 2 ^ 16" "j < 2 ^ 16"
    using own len frag_total_bound [of payload] by (auto simp: own_def)
  ultimately show ?thesis by (metis unat_word_of_nat16)
qed

lemma own_not_foreign:
  "length payload \<le> 65535 * FRAG_CHUNK_SIZE \<Longrightarrow> own peer f payload i d \<Longrightarrow> \<not> foreign peer f d"
  using own_parse [of payload peer f i d] by (auto simp: foreign_def frag_key_def frag_head_def own_def)

definition wpayload :: bytes where
  "wpayload = replicate 1401 7"

lemma wpayload_total: "frag_total wpayload = 2" "length wpayload \<le> 65535 * FRAG_CHUNK_SIZE"
proof -
  have len: "length wpayload = 1401" by (simp only: wpayload_def length_replicate)
  then have "wpayload \<noteq> []" by auto
  then show "frag_total wpayload = 2" by (simp add: frag_total_div_ceil div_ceil_def FRAG_CHUNK_SIZE_def len)
  show "length wpayload \<le> 65535 * FRAG_CHUNK_SIZE" by (simp add: len FRAG_CHUNK_SIZE_def)
qed

end
