(* ===== verification/Retransmit.thy ===== *)
theory Retransmit
  imports Nodes
begin

text \<open>
  When a request is sent again (\<open>src/src/retransmit.rs\<close>): a smoothed round trip per peer address
  (RFC 6298), and the wait derived from it. The \<open>DashMap\<close> is an association list with distinct
  keys; divisions of a \<open>Duration\<close> round down to whole nanoseconds.
\<close>

definition MAX_RESENDS :: nat where
  "MAX_RESENDS = 2"

definition INITIAL_RESEND_AFTER :: duration where
  "INITIAL_RESEND_AFTER = millis 500"

definition MIN_RESEND_AFTER :: duration where
  "MIN_RESEND_AFTER = millis 20"

definition MAX_RESEND_AFTER :: duration where
  "MAX_RESEND_AFTER = secs 1"

definition MAX_PEERS :: nat where
  "MAX_PEERS = 4096"

definition FORGET_AFTER :: duration where
  "FORGET_AFTER = secs 600"

record round_trip =
  rp_smoothed :: duration
  rp_variation :: duration
  rp_updated :: instant

record round_trips =
  rts_peers :: "(sock_addr \<times> round_trip) list"
  rts_capacity :: nat

definition round_trips_with_capacity :: "nat \<Rightarrow> round_trips" where
  "round_trips_with_capacity capacity = \<lparr>rts_peers = [], rts_capacity = capacity\<rparr>"

definition round_trips_default :: round_trips where
  "round_trips_default = round_trips_with_capacity MAX_PEERS"

definition resend_after :: "round_trips \<Rightarrow> sock_addr \<Rightarrow> duration" where
  "resend_after rts peer =
     (case map_of (rts_peers rts) peer of
        None \<Rightarrow> INITIAL_RESEND_AFTER
      | Some rp \<Rightarrow>
          (let wait = max (rp_smoothed rp * 3) (rp_smoothed rp + rp_variation rp * 4)
           in max MIN_RESEND_AFTER (min MAX_RESEND_AFTER wait)))"

definition is_measured :: "round_trips \<Rightarrow> sock_addr \<Rightarrow> bool" where
  "is_measured rts peer \<longleftrightarrow> map_of (rts_peers rts) peer \<noteq> None"

definition abs_diff :: "nat \<Rightarrow> nat \<Rightarrow> nat" where
  "abs_diff a b = (if a \<le> b then b - a else a - b)"

definition rts_record :: "instant \<Rightarrow> round_trips \<Rightarrow> sock_addr \<Rightarrow> duration \<Rightarrow> round_trips" where
  "rts_record now rts peer sample =
     (case map_of (rts_peers rts) peer of
        Some rp \<Rightarrow>
          (let deviation = abs_diff (rp_smoothed rp) sample;
               rp' = \<lparr>rp_smoothed = rp_smoothed rp * 7 div 8 + sample div 8,
                      rp_variation = rp_variation rp * 3 div 4 + deviation div 4,
                      rp_updated = now\<rparr>
           in rts\<lparr>rts_peers := AList.update peer rp' (rts_peers rts)\<rparr>)
      | None \<Rightarrow>
          (let rts1 = (if length (rts_peers rts) \<ge> rts_capacity rts
                       then rts\<lparr>rts_peers :=
                              filter (\<lambda>(_, rp). now - rp_updated rp < FORGET_AFTER) (rts_peers rts)\<rparr>
                       else rts)
           in if length (rts_peers rts1) \<ge> rts_capacity rts1 then rts1
              else rts1\<lparr>rts_peers := AList.update peer
                     \<lparr>rp_smoothed = sample, rp_variation = sample div 2, rp_updated = now\<rparr>
                     (rts_peers rts1)\<rparr>))"

subsection \<open>Bounds\<close>

text \<open>The table stays within its capacity, and estimates within the largest sample \<open>m\<close>.\<close>

definition rts_inv :: "duration \<Rightarrow> round_trips \<Rightarrow> bool" where
  "rts_inv m rts \<longleftrightarrow>
     distinct (map fst (rts_peers rts)) \<and> length (rts_peers rts) \<le> rts_capacity rts \<and>
     (\<forall>(_, rp) \<in> set (rts_peers rts). rp_smoothed rp \<le> m \<and> rp_variation rp \<le> m)"

lemma smoothing_bounds:
  assumes "s \<le> m" "v \<le> m" "x \<le> m"
  shows "s * 7 div 8 + x div 8 \<le> m" "v * 3 div 4 + abs_diff s x div 4 \<le> m"
proof -
  have "abs_diff s x \<le> m" using assms by (auto simp: abs_diff_def)
  then show "v * 3 div 4 + abs_diff s x div 4 \<le> m" using assms by linarith
  show "s * 7 div 8 + x div 8 \<le> m" using assms by linarith
qed

lemma rts_record_inv [inv_intros]:
  assumes inv: "rts_inv m rts" and "sample \<le> m"
  shows "rts_inv m (rts_record now rts peer sample)"
proof (cases "map_of (rts_peers rts) peer")
  case None
  define rts1 where "rts1 = (if length (rts_peers rts) \<ge> rts_capacity rts
      then rts\<lparr>rts_peers := filter (\<lambda>(_, rp). now - rp_updated rp < FORGET_AFTER) (rts_peers rts)\<rparr> else rts)"
  have inv1: "rts_inv m rts1"
    using inv le_trans [OF length_filter_le] by (auto simp: rts1_def rts_inv_def distinct_map_filter)
  have none1: "map_of (rts_peers rts1) peer = None"
    using None by (auto simp: rts1_def map_of_eq_None_iff)
  have "rts_inv m (rts1\<lparr>rts_peers := AList.update peer
      \<lparr>rp_smoothed = sample, rp_variation = sample div 2, rp_updated = now\<rparr> (rts_peers rts1)\<rparr>)"
    if "length (rts_peers rts1) < rts_capacity rts1"
    using that inv1 assms(2) length_update_absent [OF none1] alist_update_subset [of peer _ "rts_peers rts1"]
    by (fastforce simp: rts_inv_def distinct_update)
  then show ?thesis using inv1 None by (simp add: rts_record_def rts1_def [symmetric] Let_def)
next
  case (Some rp)
  have "(peer, rp) \<in> set (rts_peers rts)" using Some by (rule map_of_SomeD)
  then have "rp_smoothed rp \<le> m" "rp_variation rp \<le> m" using inv by (auto simp: rts_inv_def)
  note b = smoothing_bounds [OF this assms(2)]
  show ?thesis
    using inv b length_update_present [OF Some] alist_update_subset [of peer _ "rts_peers rts"]
    by (fastforce simp: rts_record_def Some rts_inv_def distinct_update Let_def)
qed

text \<open>
  Whatever round trips are recorded, at most \<open>capacity\<close> peers are remembered, and no
  estimate exceeds the largest sample ever recorded.
\<close>

theorem round_trips_bounded:
  assumes "\<forall>(now, peer, sample) \<in> set rs. sample \<le> m"
  shows "rts_inv m (foldl (\<lambda>rts (now, peer, sample). rts_record now rts peer sample)
    (round_trips_with_capacity capacity) rs)"
  using assms
proof (induction rs rule: rev_induct)
  case Nil
  then show ?case by (simp add: rts_inv_def round_trips_with_capacity_def)
next
  case (snoc r rs)
  then show ?case by (cases r) (simp add: rts_record_inv)
qed

theorem round_trips_bounded_witness:
  "rts_inv 90 (rts_record 1 (rts_record 0 (round_trips_with_capacity 1) ([], 1) 90) ([], 1) 50)"
  using round_trips_bounded [of "[(0, ([], 1), 90), (1, ([], 1), 50)]" 90 1] by simp

text \<open>
  The estimate of one peer whose round trips took between \<open>lo\<close> and \<open>hi\<close>. Smoothing rounds down twice,
  and what is lost settles at fourteen nanoseconds.
\<close>

definition tracks :: "sock_addr \<Rightarrow> duration \<Rightarrow> duration \<Rightarrow> round_trips \<Rightarrow> bool" where
  "tracks peer lo hi rts \<longleftrightarrow>
     (\<forall>rp. (peer, rp) \<in> set (rts_peers rts) \<longrightarrow>
        lo \<le> rp_smoothed rp + 14 \<and> rp_smoothed rp \<le> hi \<and> rp_variation rp \<le> hi)"

lemma smoothing_tracks:
  assumes "lo \<le> s + 14" "s \<le> hi" "v \<le> hi" "lo \<le> x" "x \<le> hi"
  shows "lo \<le> s * 7 div 8 + x div 8 + 14" "s * 7 div 8 + x div 8 \<le> hi" "v * 3 div 4 + abs_diff s x div 4 \<le> hi"
  using smoothing_bounds [OF assms(2,3,5)] assms by auto

lemma rts_record_tracks:
  assumes "tracks peer lo hi rts" "p = peer \<Longrightarrow> lo \<le> sample \<and> sample \<le> hi"
  shows "tracks peer lo hi (rts_record now rts p sample)"
proof (cases "map_of (rts_peers rts) p")
  case None
  define rts1 where "rts1 = (if length (rts_peers rts) \<ge> rts_capacity rts
      then rts\<lparr>rts_peers := filter (\<lambda>(_, rp). now - rp_updated rp < FORGET_AFTER) (rts_peers rts)\<rparr> else rts)"
  have "tracks peer lo hi rts1" using assms(1) by (auto simp: rts1_def tracks_def)
  moreover have "tracks peer lo hi (rts1\<lparr>rts_peers := AList.update p
      \<lparr>rp_smoothed = sample, rp_variation = sample div 2, rp_updated = now\<rparr> (rts_peers rts1)\<rparr>)"
    using calculation assms(2) alist_update_subset [of p _ "rts_peers rts1"] by (fastforce simp: tracks_def)
  ultimately show ?thesis using None by (simp add: rts_record_def rts1_def [symmetric] Let_def)
next
  case (Some rp)
  let ?rp = "\<lparr>rp_smoothed = rp_smoothed rp * 7 div 8 + sample div 8,
    rp_variation = rp_variation rp * 3 div 4 + abs_diff (rp_smoothed rp) sample div 4, rp_updated = now\<rparr>"
  have "lo \<le> rp_smoothed ?rp + 14 \<and> rp_smoothed ?rp \<le> hi \<and> rp_variation ?rp \<le> hi" if "p = peer"
    using that assms map_of_SomeD [OF Some] smoothing_tracks [of lo "rp_smoothed rp" hi "rp_variation rp" sample]
    by (auto simp: tracks_def)
  then show ?thesis using assms(1) alist_update_subset [of p ?rp "rts_peers rts"]
    by (fastforce simp: rts_record_def Some tracks_def Let_def)
qed

text \<open>
  Property C37. The wait before a resend to a peer never measured is 500 ms. For a peer whose recorded
  round trips all took between \<open>lo\<close> and \<open>hi\<close>, among those of any other peers, it is at least three
  times \<open>lo\<close> (less a rounding error of 14 ns in \<open>lo\<close>) and at most five times \<open>hi\<close>, both brought within
  20 ms and one second; and below one second it is at least the timeout of RFC 6298, the smoothed
  round trip plus four variations.
\<close>

theorem resend_after_bounds:
  assumes "\<forall>(now, p, sample) \<in> set rs. p = peer \<longrightarrow> lo \<le> sample \<and> sample \<le> hi"
    and "foldl (\<lambda>rts (now, p, sample). rts_record now rts p sample) round_trips_default rs = rts"
  shows "case map_of (rts_peers rts) peer of
      None \<Rightarrow> resend_after rts peer = millis 500
    | Some rp \<Rightarrow>
        max (millis 20) (min (secs 1) (3 * (lo - 14))) \<le> resend_after rts peer \<and>
        resend_after rts peer \<le> max (millis 20) (min (secs 1) (5 * hi)) \<and>
        (resend_after rts peer < secs 1 \<longrightarrow> rp_smoothed rp + 4 * rp_variation rp \<le> resend_after rts peer)"
proof -
  have "tracks peer lo hi (foldl (\<lambda>rts (now, p, sample). rts_record now rts p sample) round_trips_default rs)"
    using assms(1)
  proof (induction rs rule: rev_induct)
    case (snoc r rs)
    then show ?case by (cases r) (auto intro!: rts_record_tracks)
  qed (simp add: tracks_def round_trips_default_def round_trips_with_capacity_def)
  then show ?thesis unfolding assms(2)
    by (auto dest: map_of_SomeD simp: tracks_def resend_after_def INITIAL_RESEND_AFTER_def MIN_RESEND_AFTER_def MAX_RESEND_AFTER_def
        Let_def split: option.split)
qed

text \<open>Two round trips of 90 ms and 100 ms: the wait is 273.75 ms.\<close>

theorem resend_after_bounds_witness:
  "\<exists>rts. foldl (\<lambda>rts (now, p, sample). rts_record now rts p sample) round_trips_default
       [(0, ([], 1), millis 90), (5, ([], 2), secs 9), (7, ([], 1), millis 100)] = rts \<and>
     resend_after rts ([], 1) = 273750000 \<and> 3 * (millis 90 - 14) \<le> resend_after rts ([], 1) \<and> resend_after rts ([], 1) \<le> 5 * millis 100"
proof -
  define rts where "rts = foldl (\<lambda>rts (now, p, sample). rts_record now rts p sample) round_trips_default
    [(0, ([], 1), millis 90), (5, ([], 2), secs 9), (7, ([], 1), millis 100)]"
  have ms: "millis 90 = 90000000" "millis 100 = 100000000" "secs 9 = 9000000000" "millis 20 = 20000000" "secs 1 = 1000000000" "secs (Suc 0) = 1000000000"
    by (simp_all add: millis_def secs_def)
  obtain rp where rp: "map_of (rts_peers rts) ([], 1) = Some rp" and wait: "resend_after rts ([], 1) = 273750000"
    by (simp add: rts_def ms rts_record_def round_trips_default_def round_trips_with_capacity_def MAX_PEERS_def
        abs_diff_def resend_after_def MIN_RESEND_AFTER_def MAX_RESEND_AFTER_def)
  have "3 * (millis 90 - 14) \<le> resend_after rts ([], 1) \<and> resend_after rts ([], 1) \<le> 5 * millis 100"
    using resend_after_bounds [OF _ rts_def [symmetric], of "([], 1)" "millis 90" "millis 100"] rp by (simp add: ms)
  then show ?thesis using wait unfolding rts_def by blast
qed

end
