(* ===== verification/Messages.thy ===== *)
theory Messages
  imports Nodes Storage
begin

text \<open>
  The messages nodes exchange and the answer each request expects
  (\<open>src/src/protocol/messages.rs\<close>). SHA-256, from the \<open>sha2\<close> crate, is the argument \<open>sha256\<close>.
\<close>

datatype store_status =
  StoreStatus_Stored | StoreStatus_AlreadyStored | StoreStatus_Conflict |
  StoreStatus_CapacityExceeded | StoreStatus_InvalidRecord

definition from_write_status :: "storage_write_status \<Rightarrow> store_status" where
  "from_write_status status =
     (case status of
        Stored \<Rightarrow> StoreStatus_Stored
      | AlreadyStored \<Rightarrow> StoreStatus_AlreadyStored
      | Conflict \<Rightarrow> StoreStatus_Conflict
      | CapacityExceeded \<Rightarrow> StoreStatus_CapacityExceeded)"

record wire_node =
  wn_id :: node_id
  wn_ip :: "bytes option"
  wn_port :: "u16 option"

definition wire_of_node :: "node \<Rightarrow> wire_node" where
  "wire_of_node n = \<lparr>wn_id = nid n, wn_ip = node_ip n, wn_port = node_port n\<rparr>"

definition node_of_wire :: "wire_node \<Rightarrow> node" where
  "node_of_wire w = node_new (wn_id w) (wn_ip w) (wn_port w)"

datatype rpc_message =
    Ping node_id
  | Pong node_id
  | Store node_id node_id bytes
  | StoreResult store_status
  | Update node_id node_id bytes bytes
  | UpdateResult bool
  | UpdateStatusList node_id node_id bytes
  | UpdateStatusListResult bool
  | FindNode node_id node_id
  | FindNodeResult "wire_node list"
  | FindValue node_id node_id
  | FindValueNodes "wire_node list"
  | FindValueHit bytes
  | Leave node_id
  | FindHash node_id node_id
  | FindHashHit bytes
  | Received

definition RECORD_HASH_LEN :: nat where
  "RECORD_HASH_LEN = 32"

definition record_hash :: "(bytes \<Rightarrow> bytes) \<Rightarrow> bytes \<Rightarrow> bytes" where
  "record_hash sha256 r = sha256 r"

record frame =
  fr_msg_id :: u32
  fr_is_request :: bool
  fr_message :: rpc_message

datatype expected_response =
  Expect_Pong | Expect_StoreResult | Expect_UpdateResult | Expect_UpdateStatusListResult |
  Expect_FindNodeResult | Expect_FindValueResult | Expect_FindHashResult | NoResponse

definition for_request :: "rpc_message \<Rightarrow> expected_response" where
  "for_request message =
     (case message of
        Ping _ \<Rightarrow> Expect_Pong
      | Store _ _ _ \<Rightarrow> Expect_StoreResult
      | Update _ _ _ _ \<Rightarrow> Expect_UpdateResult
      | UpdateStatusList _ _ _ \<Rightarrow> Expect_UpdateStatusListResult
      | FindNode _ _ \<Rightarrow> Expect_FindNodeResult
      | FindValue _ _ \<Rightarrow> Expect_FindValueResult
      | FindHash _ _ \<Rightarrow> Expect_FindHashResult
      | Leave _ \<Rightarrow> NoResponse
      | Pong _ \<Rightarrow> NoResponse
      | StoreResult _ \<Rightarrow> NoResponse
      | UpdateResult _ \<Rightarrow> NoResponse
      | UpdateStatusListResult _ \<Rightarrow> NoResponse
      | FindNodeResult _ \<Rightarrow> NoResponse
      | FindValueNodes _ \<Rightarrow> NoResponse
      | FindValueHit _ \<Rightarrow> NoResponse
      | FindHashHit _ \<Rightarrow> NoResponse
      | Received \<Rightarrow> NoResponse)"

definition accepts :: "expected_response \<Rightarrow> rpc_message \<Rightarrow> bool" where
  "accepts self message =
     (case self of
        Expect_Pong \<Rightarrow> (case message of Pong _ \<Rightarrow> True | _ \<Rightarrow> False)
      | Expect_StoreResult \<Rightarrow> (case message of StoreResult _ \<Rightarrow> True | _ \<Rightarrow> False)
      | Expect_UpdateResult \<Rightarrow> (case message of UpdateResult _ \<Rightarrow> True | _ \<Rightarrow> False)
      | Expect_UpdateStatusListResult \<Rightarrow>
          (case message of UpdateStatusListResult _ \<Rightarrow> True | _ \<Rightarrow> False)
      | Expect_FindNodeResult \<Rightarrow> (case message of FindNodeResult _ \<Rightarrow> True | _ \<Rightarrow> False)
      | Expect_FindValueResult \<Rightarrow>
          (case message of FindValueHit _ \<Rightarrow> True | FindValueNodes _ \<Rightarrow> True | _ \<Rightarrow> False)
      | Expect_FindHashResult \<Rightarrow>
          (case message of FindHashHit _ \<Rightarrow> True | FindValueNodes _ \<Rightarrow> True | _ \<Rightarrow> False)
      | NoResponse \<Rightarrow> False)"

definition after_receipt :: "expected_response \<Rightarrow> bool" where
  "after_receipt self =
     (case self of
        Expect_StoreResult \<Rightarrow> True
      | Expect_UpdateResult \<Rightarrow> True
      | Expect_UpdateStatusListResult \<Rightarrow> True
      | _ \<Rightarrow> False)"

definition expected_name :: "expected_response \<Rightarrow> bytes" where
  "expected_name self =
     (case self of
        Expect_Pong \<Rightarrow> lit ''Pong''
      | Expect_StoreResult \<Rightarrow> lit ''StoreResult''
      | Expect_UpdateResult \<Rightarrow> lit ''UpdateResult''
      | Expect_UpdateStatusListResult \<Rightarrow> lit ''UpdateStatusListResult''
      | Expect_FindNodeResult \<Rightarrow> lit ''FindNodeResult''
      | Expect_FindValueResult \<Rightarrow> lit ''FindValueHit|FindValueNodes''
      | Expect_FindHashResult \<Rightarrow> lit ''FindHashHit|FindValueNodes''
      | NoResponse \<Rightarrow> lit ''no response'')"

definition rpc_message_name :: "rpc_message \<Rightarrow> bytes" where
  "rpc_message_name message =
     (case message of
        Ping _ \<Rightarrow> lit ''Ping''
      | Pong _ \<Rightarrow> lit ''Pong''
      | Store _ _ _ \<Rightarrow> lit ''Store''
      | StoreResult _ \<Rightarrow> lit ''StoreResult''
      | Update _ _ _ _ \<Rightarrow> lit ''Update''
      | UpdateResult _ \<Rightarrow> lit ''UpdateResult''
      | UpdateStatusList _ _ _ \<Rightarrow> lit ''UpdateStatusList''
      | UpdateStatusListResult _ \<Rightarrow> lit ''UpdateStatusListResult''
      | FindNode _ _ \<Rightarrow> lit ''FindNode''
      | FindNodeResult _ \<Rightarrow> lit ''FindNodeResult''
      | FindValue _ _ \<Rightarrow> lit ''FindValue''
      | FindValueHit _ \<Rightarrow> lit ''FindValueHit''
      | FindValueNodes _ \<Rightarrow> lit ''FindValueNodes''
      | Leave _ \<Rightarrow> lit ''Leave''
      | FindHash _ _ \<Rightarrow> lit ''FindHash''
      | FindHashHit _ \<Rightarrow> lit ''FindHashHit''
      | Received \<Rightarrow> lit ''Received'')"

definition carried_record :: "rpc_message \<Rightarrow> bytes option" where
  "carried_record message =
     (case message of
        Store _ _ value \<Rightarrow> Some value
      | Update _ _ value _ \<Rightarrow> Some value
      | UpdateStatusList _ _ value \<Rightarrow> Some value
      | Ping _ \<Rightarrow> None
      | Pong _ \<Rightarrow> None
      | StoreResult _ \<Rightarrow> None
      | UpdateResult _ \<Rightarrow> None
      | UpdateStatusListResult _ \<Rightarrow> None
      | FindNode _ _ \<Rightarrow> None
      | FindNodeResult _ \<Rightarrow> None
      | FindValue _ _ \<Rightarrow> None
      | FindValueNodes _ \<Rightarrow> None
      | FindValueHit _ \<Rightarrow> None
      | Leave _ \<Rightarrow> None
      | FindHash _ _ \<Rightarrow> None
      | FindHashHit _ \<Rightarrow> None
      | Received \<Rightarrow> None)"

lemma node_wire_roundtrip [simp]: "node_of_wire (wire_of_node n) = n"
  by (simp add: node_of_wire_def wire_of_node_def node_new_def)

lemma wire_node_roundtrip [simp]: "wire_of_node (node_of_wire w) = w"
  by (simp add: node_of_wire_def wire_of_node_def node_new_def)

text \<open>
  A request is acknowledged with a receipt before its answer exactly when it carries
  a record; a receipt is never taken for an answer; every message that some request accepts as its
  answer is itself no request and carries no record.
\<close>

theorem receipts_match_records:
  "(after_receipt (for_request q) \<longleftrightarrow> carried_record q \<noteq> None) \<and>
   \<not> accepts (for_request q) Received \<and>
   (accepts (for_request q) a \<longrightarrow> for_request a = NoResponse \<and> carried_record a = None)"
proof -
  have "accepts (for_request q) a \<longrightarrow> for_request a = NoResponse \<and> carried_record a = None"
    by (cases a) (simp_all add: accepts_def for_request_def carried_record_def split: rpc_message.split)
  then show ?thesis
    by (cases q) (simp_all add: after_receipt_def for_request_def carried_record_def accepts_def)
qed

theorem receipts_match_records_witness:
  "after_receipt (for_request (Store (wid 1) (wid 2) [3])) \<and>
   accepts (for_request (Ping (wid 1))) (Pong (wid 2)) \<and> for_request (Pong (wid 2)) = NoResponse"
  using receipts_match_records [of "Ping (wid 1)" "Pong (wid 2)"]
    receipts_match_records [of "Store (wid 1) (wid 2) [3]" Received]
  by (simp add: accepts_def for_request_def carried_record_def)

end
