(* ===== verification/Crypto.thy ===== *)
theory Crypto
  imports Nodes
begin

text \<open>
  Signature algorithms (\<open>src/src/crypto\<close>): the registry of algorithm names, the factory, and the
  Ed25519, Dilithium and RSA verifiers and signers.

  The cryptographic crates (\<open>ed25519-dalek\<close>, \<open>pqcrypto-dilithium\<close>, \<open>rsa\<close>, \<open>sha1\<close>, \<open>sha2\<close>), the
  JSON parser, the base64 decoder and the UUID parser are the fields of the record \<open>deps\<close>, an
  argument of every definition that calls them. A fallible constructor is an \<open>option\<close> or a
  predicate that says whether it succeeds. The texts inside error values are not kept.
\<close>

subsection \<open>Results and strings\<close>

datatype verifier_error =
  UnsupportedAlgorithm bytes | InvalidKeyLength nat | VerificationFailed

fun and_then :: "'e + 'a \<Rightarrow> ('a \<Rightarrow> 'e + 'b) \<Rightarrow> 'e + 'b" where
  "and_then (Inl e) f = Inl e"
| "and_then (Inr x) f = f x"

lemma and_then_Inr_iff [simp]: "and_then r f = Inr y \<longleftrightarrow> (\<exists>x. r = Inr x \<and> f x = Inr y)"
  by (cases r) auto

text \<open>\<open>str::from_utf8\<close>: well-formed UTF-8 as the Unicode standard defines it.\<close>

definition cont :: "u8 \<Rightarrow> bool" where
  "cont b \<longleftrightarrow> 0x80 \<le> b \<and> b \<le> 0xBF"

fun utf8_valid :: "bytes \<Rightarrow> bool" where
  "utf8_valid [] = True"
| "utf8_valid (a # bs) =
     (if a \<le> 0x7F then utf8_valid bs
      else (case bs of
        [] \<Rightarrow> False
      | b # cs \<Rightarrow>
          if 0xC2 \<le> a \<and> a \<le> 0xDF then cont b \<and> utf8_valid cs
          else (case cs of
            [] \<Rightarrow> False
          | c # ds \<Rightarrow>
              if a = 0xE0 then 0xA0 \<le> b \<and> b \<le> 0xBF \<and> cont c \<and> utf8_valid ds
              else if a = 0xED then 0x80 \<le> b \<and> b \<le> 0x9F \<and> cont c \<and> utf8_valid ds
              else if 0xE1 \<le> a \<and> a \<le> 0xEF then cont b \<and> cont c \<and> utf8_valid ds
              else (case ds of
                [] \<Rightarrow> False
              | d # es \<Rightarrow>
                  (if a = 0xF0 then 0x90 \<le> b \<and> b \<le> 0xBF
                   else if a = 0xF4 then 0x80 \<le> b \<and> b \<le> 0x8F
                   else 0xF1 \<le> a \<and> a \<le> 0xF3 \<and> cont b) \<and>
                  cont c \<and> cont d \<and> utf8_valid es))))"

text \<open>The length in bytes of the whitespace character a string starts with, 0 if it has none.\<close>

definition ws_len :: "bytes \<Rightarrow> nat" where
  "ws_len bs =
     (case bs of
        [] \<Rightarrow> 0
      | a # rest \<Rightarrow>
          if 9 \<le> a \<and> a \<le> 13 \<or> a = 32 then 1
          else (case rest of
            [] \<Rightarrow> 0
          | b # rest' \<Rightarrow>
              if a = 0xC2 \<and> (b = 0x85 \<or> b = 0xA0) then 2
              else (case rest' of
                [] \<Rightarrow> 0
              | c # _ \<Rightarrow>
                  if a = 0xE1 \<and> b = 0x9A \<and> c = 0x80 \<or>
                     a = 0xE2 \<and> b = 0x80 \<and> (0x80 \<le> c \<and> c \<le> 0x8A \<or> c = 0xA8 \<or> c = 0xA9 \<or> c = 0xAF) \<or>
                     a = 0xE2 \<and> b = 0x81 \<and> c = 0x9F \<or>
                     a = 0xE3 \<and> b = 0x80 \<and> c = 0x80
                  then 3 else 0)))"

function trim_start :: "bytes \<Rightarrow> bytes" where
  "trim_start bs = (if bs = [] \<or> ws_len bs = 0 then bs else trim_start (drop (ws_len bs) bs))"
  by pat_completeness auto
termination
  by (relation "measure length") (auto simp: ws_len_def split: list.splits if_splits)

declare trim_start.simps [simp del]

definition ws_tail :: "bytes \<Rightarrow> nat" where
  "ws_tail bs =
     (let ends = (\<lambda>n. n \<le> length bs \<and> ws_len (drop (length bs - n) bs) = n) in
      if ends 1 then 1 else if ends 2 then 2 else if ends 3 then 3 else 0)"

function trim_end :: "bytes \<Rightarrow> bytes" where
  "trim_end bs =
     (if bs = [] \<or> ws_tail bs = 0 then bs else trim_end (take (length bs - ws_tail bs) bs))"
  by pat_completeness auto
termination
  by (relation "measure length") (auto simp: ws_tail_def Let_def split: if_splits)

declare trim_end.simps [simp del]

definition str_trim :: "bytes \<Rightarrow> bytes" where
  "str_trim bs = trim_end (trim_start bs)"

subsection \<open>The external crates\<close>

record 'j deps =
  sha1 :: "bytes \<Rightarrow> node_id"
  sha256 :: "bytes \<Rightarrow> bytes"
  ed_key_ok :: "bytes \<Rightarrow> bool"
  ed_verify :: "bytes \<Rightarrow> bytes \<Rightarrow> bytes \<Rightarrow> bool"
  ed_sign :: "bytes \<Rightarrow> bytes \<Rightarrow> bytes"
  dil_pk_ok :: "nat \<Rightarrow> bytes \<Rightarrow> bool"
  dil_sig_ok :: "nat \<Rightarrow> bytes \<Rightarrow> bool"
  dil_verify :: "nat \<Rightarrow> bytes \<Rightarrow> bytes \<Rightarrow> bytes \<Rightarrow> bool"
  dil_sk_ok :: "nat \<Rightarrow> bytes \<Rightarrow> bool"
  dil_sign :: "nat \<Rightarrow> bytes \<Rightarrow> bytes \<Rightarrow> bytes"
  rsa_pub_der :: "bytes \<Rightarrow> bytes option"
  rsa_pub_pem :: "bytes \<Rightarrow> bytes option"
  rsa_sig_ok :: "bytes \<Rightarrow> bool"
  rsa_verify :: "bytes \<Rightarrow> bytes \<Rightarrow> bytes \<Rightarrow> bool"
  rsa_priv_der :: "bytes \<Rightarrow> bytes option"
  rsa_priv_pem :: "bytes \<Rightarrow> bytes option"
  rsa_sign :: "bytes \<Rightarrow> bytes \<Rightarrow> bytes"
  json_from_slice :: "bytes \<Rightarrow> 'j option"
  json_field :: "'j \<Rightarrow> bytes \<Rightarrow> 'j"
  json_elem :: "'j \<Rightarrow> nat \<Rightarrow> 'j"
  json_as_str :: "'j \<Rightarrow> bytes option"
  b64url_decode :: "bytes \<Rightarrow> bytes option"
  uuid_parses :: "bytes \<Rightarrow> bool"

subsection \<open>Registry\<close>

definition resolve_alg_and_length :: "bytes \<Rightarrow> verifier_error + bytes \<times> nat" where
  "resolve_alg_and_length alg =
     (if alg = lit ''RSA'' then Inr (lit ''RSA'', 256)
      else if alg = lit ''Ed25519'' then Inr (lit ''Ed25519'', 64)
      else if alg = lit ''Dilithium-2'' then Inr (lit ''Dilithium'', 2420)
      else if alg = lit ''Dilithium-3'' then Inr (lit ''Dilithium'', 3293)
      else if alg = lit ''Dilithium-5'' then Inr (lit ''Dilithium'', 4595)
      else Inl (UnsupportedAlgorithm alg))"

definition dilithium_level_from_pubkey_len :: "nat \<Rightarrow> nat option" where
  "dilithium_level_from_pubkey_len n =
     (if n = 1312 then Some 2 else if n = 1952 then Some 3 else if n = 2592 then Some 5 else None)"

definition dilithium_level_from_privkey_len :: "nat \<Rightarrow> nat option" where
  "dilithium_level_from_privkey_len n =
     (if n = 2560 then Some 2 else if n = 4032 then Some 3 else if n = 4896 then Some 5 else None)"

subsection \<open>Verifiers and signers\<close>

definition ed25519_verify ::
    "'j deps \<Rightarrow> bytes \<Rightarrow> bytes \<Rightarrow> bytes \<Rightarrow> verifier_error + bool" where
  "ed25519_verify D public_key signature message =
     (if length public_key \<noteq> 32 then Inl (InvalidKeyLength (length public_key))
      else if length signature \<noteq> 64 then Inl VerificationFailed
      else if \<not> ed_key_ok D public_key then Inl VerificationFailed
      else Inr (ed_verify D public_key message signature))"

definition ed25519_sign :: "'j deps \<Rightarrow> bytes \<Rightarrow> bytes \<Rightarrow> verifier_error + bytes" where
  "ed25519_sign D private_key message =
     (if length private_key \<noteq> 32 then Inl (InvalidKeyLength (length private_key))
      else Inr (ed_sign D private_key message))"

text \<open>\<open>verify_d2\<close>, \<open>verify_d3\<close>, \<open>verify_d5\<close> and their signing counterparts, by level.\<close>

definition verify_d :: "'j deps \<Rightarrow> nat \<Rightarrow> bytes \<Rightarrow> bytes \<Rightarrow> bytes \<Rightarrow> verifier_error + bool" where
  "verify_d D level pk sig msg =
     (if \<not> dil_pk_ok D level pk then Inl (InvalidKeyLength (length pk))
      else if \<not> dil_sig_ok D level sig then Inl VerificationFailed
      else Inr (dil_verify D level sig msg pk))"

definition dilithium_verify ::
    "'j deps \<Rightarrow> bytes \<Rightarrow> bytes \<Rightarrow> bytes \<Rightarrow> verifier_error + bool" where
  "dilithium_verify D public_key signature message =
     (case dilithium_level_from_pubkey_len (length public_key) of
        None \<Rightarrow> Inl (InvalidKeyLength (length public_key))
      | Some level \<Rightarrow> verify_d D level public_key signature message)"

definition sign_d :: "'j deps \<Rightarrow> nat \<Rightarrow> bytes \<Rightarrow> bytes \<Rightarrow> verifier_error + bytes" where
  "sign_d D level sk msg =
     (if \<not> dil_sk_ok D level sk then Inl (InvalidKeyLength (length sk))
      else Inr (dil_sign D level msg sk))"

definition dilithium_sign :: "'j deps \<Rightarrow> bytes \<Rightarrow> bytes \<Rightarrow> verifier_error + bytes" where
  "dilithium_sign D private_key message =
     (case dilithium_level_from_privkey_len (length private_key) of
        None \<Rightarrow> Inl (InvalidKeyLength (length private_key))
      | Some level \<Rightarrow> sign_d D level private_key message)"

definition load_public_key :: "'j deps \<Rightarrow> bytes \<Rightarrow> verifier_error + bytes" where
  "load_public_key D key =
     (case rsa_pub_der D key of
        Some pk \<Rightarrow> Inr pk
      | None \<Rightarrow>
          if \<not> utf8_valid key then Inl VerificationFailed
          else (case rsa_pub_pem D key of None \<Rightarrow> Inl VerificationFailed | Some pk \<Rightarrow> Inr pk))"

definition rsa_verify_sig ::
    "'j deps \<Rightarrow> bytes \<Rightarrow> bytes \<Rightarrow> bytes \<Rightarrow> verifier_error + bool" where
  "rsa_verify_sig D public_key signature message =
     and_then (load_public_key D public_key) (\<lambda>pk.
       if \<not> rsa_sig_ok D signature then Inl VerificationFailed
       else Inr (rsa_verify D pk message signature))"

definition load_private_key :: "'j deps \<Rightarrow> bytes \<Rightarrow> verifier_error + bytes" where
  "load_private_key D key =
     (case rsa_priv_der D key of
        Some sk \<Rightarrow> Inr sk
      | None \<Rightarrow>
          if \<not> utf8_valid key then Inl VerificationFailed
          else (case rsa_priv_pem D key of None \<Rightarrow> Inl VerificationFailed | Some sk \<Rightarrow> Inr sk))"

definition rsa_sign_msg :: "'j deps \<Rightarrow> bytes \<Rightarrow> bytes \<Rightarrow> verifier_error + bytes" where
  "rsa_sign_msg D private_key message =
     and_then (load_private_key D private_key) (\<lambda>sk. Inr (rsa_sign D sk message))"

subsection \<open>Factories\<close>

datatype scheme = RSA | Ed25519 | Dilithium

definition scheme_of :: "bytes \<Rightarrow> verifier_error + scheme" where
  "scheme_of alg =
     (let base = str_trim (takeWhile (\<lambda>b. b \<noteq> 45) alg) in
      if base = lit ''RSA'' then Inr RSA
      else if base = lit ''Ed25519'' then Inr Ed25519
      else if base = lit ''Dilithium'' then Inr Dilithium
      else Inl (UnsupportedAlgorithm base))"

definition get_verifier ::
    "'j deps \<Rightarrow> bytes \<Rightarrow> verifier_error + (bytes \<Rightarrow> bytes \<Rightarrow> bytes \<Rightarrow> verifier_error + bool)" where
  "get_verifier D alg =
     and_then (scheme_of alg) (\<lambda>s. Inr
       (case s of
          RSA \<Rightarrow> rsa_verify_sig D
        | Ed25519 \<Rightarrow> ed25519_verify D
        | Dilithium \<Rightarrow> dilithium_verify D))"

definition get_signer ::
    "'j deps \<Rightarrow> bytes \<Rightarrow> verifier_error + (bytes \<Rightarrow> bytes \<Rightarrow> verifier_error + bytes)" where
  "get_signer D alg =
     and_then (scheme_of alg) (\<lambda>s. Inr
       (case s of
          RSA \<Rightarrow> rsa_sign_msg D
        | Ed25519 \<Rightarrow> ed25519_sign D
        | Dilithium \<Rightarrow> dilithium_sign D))"

subsection \<open>The registry and the factory agree\<close>

definition alg_table :: "(bytes \<times> bytes \<times> nat \<times> scheme) list" where
  "alg_table =
     [(lit ''RSA'', lit ''RSA'', 256, RSA), (lit ''Ed25519'', lit ''Ed25519'', 64, Ed25519),
      (lit ''Dilithium-2'', lit ''Dilithium'', 2420, Dilithium),
      (lit ''Dilithium-3'', lit ''Dilithium'', 3293, Dilithium),
      (lit ''Dilithium-5'', lit ''Dilithium'', 4595, Dilithium)]"

lemma resolve_table:
  "resolve_alg_and_length alg = Inr (base, n) \<longleftrightarrow> (\<exists>s. (alg, base, n, s) \<in> set alg_table)"
proof -
  have d: "distinct (map fst alg_table)" by code_simp
  show ?thesis using d
    by (auto simp: resolve_alg_and_length_def alg_table_def split: if_splits)
qed

lemma alg_table_facts:
  "list_all (\<lambda>(alg, base, n, s). scheme_of alg = Inr s \<and> length alg \<le> 11 \<and> 0 \<notin> set alg \<and> utf8_valid alg) alg_table"
  by code_simp

lemma resolved_alg:
  assumes "resolve_alg_and_length alg = Inr (base, n)"
  obtains s where "scheme_of alg = Inr s" "(alg, base, n, s) \<in> set alg_table" "length alg \<le> 11"
    "0 \<notin> set alg" "utf8_valid alg"
  using assms alg_table_facts by (fastforce simp: resolve_table list_all_iff)

lemma alg_table_bases: "list_all (\<lambda>(alg, base, n, s). scheme_of base = Inr s) alg_table"
  by code_simp

text \<open>
  Every algorithm name a record header may carry selects a verifier and a signer, and
  the accepted names are canonical: two headers that resolve to the same algorithm and signature
  length are the same bytes.
\<close>

theorem registry_matches_factory:
  assumes "resolve_alg_and_length alg = Inr (base, n)"
  shows "(\<exists>verify sign. get_verifier D alg = Inr verify \<and> get_signer D alg = Inr sign) \<and>
    scheme_of alg = scheme_of base \<and>
    (\<forall>alg'. resolve_alg_and_length alg' = Inr (base, n) \<longrightarrow> alg' = alg)"
proof -
  have d: "distinct (map (\<lambda>(_, _, n, _). n) alg_table)" by (simp add: alg_table_def)
  obtain s where s: "scheme_of alg = Inr s" "(alg, base, n, s) \<in> set alg_table"
    using resolved_alg [OF assms] by blast
  then have "scheme_of base = Inr s" using alg_table_bases by (auto simp: list_all_iff)
  moreover have "alg' = alg" if "resolve_alg_and_length alg' = Inr (base, n)" for alg'
    using that s(2) d by (auto simp: resolve_table distinct_map inj_on_def)
  ultimately show ?thesis using s(1) by (auto simp: get_verifier_def get_signer_def)
qed

theorem registry_matches_factory_witness:
  "scheme_of (lit ''Dilithium-3'') = scheme_of (lit ''Dilithium'')"
proof -
  have "resolve_alg_and_length (lit ''Dilithium-3'') = Inr (lit ''Dilithium'', 3293)" by code_simp
  then show ?thesis using registry_matches_factory by blast
qed

end
