(* ===== verification/Auth.thy ===== *)
theory Auth
  imports Crypto
begin

text \<open>
  Verification of DID records (\<open>src/src/auth_handler.rs\<close>), the signature cache
  (\<open>src/src/signature_cache.rs\<close>) and the identifiers of keys (\<open>src/src/utils.rs\<close>).

  The trait \<open>SignatureVerifierHandler\<close> is the record \<open>handler\<close> of its four functions; its contract
  is the locale \<open>record_rule\<close>, interpreted on \<open>DIDSignatureVerifierHandler\<close>. The issuer's key file
  is read on every call: its content at that moment is the argument \<open>issuer\<close>, \<open>None\<close> when it
  cannot be read. The \<open>moka\<close> cache is a partial map that may lose entries at any time.
\<close>

subsection \<open>Keys\<close>

definition STATUS_LIST_KEY :: bytes where
  "STATUS_LIST_KEY = lit ''status-list''"

definition digest_bytes :: "'j deps \<Rightarrow> bytes \<Rightarrow> node_id" where
  "digest_bytes D data = sha1 D data"

definition digest :: "'j deps \<Rightarrow> bytes \<Rightarrow> node_id" where
  "digest D s = digest_bytes D s"

subsection \<open>Reading a record\<close>

datatype auth_handler_error =
  Crypto verifier_error | Json | Base64 | Io | MissingField bytes | Utf8 | InvalidFormat | InvalidDid

definition map_err :: "('a \<Rightarrow> 'b) \<Rightarrow> 'a + 'c \<Rightarrow> 'b + 'c" where
  "map_err f r = (case r of Inl e \<Rightarrow> Inl (f e) | Inr x \<Rightarrow> Inr x)"

lemma map_err_Inr_iff [simp]: "map_err f r = Inr x \<longleftrightarrow> r = Inr x"
  by (cases r) (auto simp: map_err_def)

definition ok_or :: "'e \<Rightarrow> 'a option \<Rightarrow> 'e + 'a" where
  "ok_or e r = (case r of None \<Rightarrow> Inl e | Some x \<Rightarrow> Inr x)"

lemma ok_or_Inr_iff [simp]: "ok_or e r = Inr x \<longleftrightarrow> r = Some x"
  by (cases r) (auto simp: ok_or_def)

definition get_alg_string :: "bytes \<Rightarrow> auth_handler_error + bytes" where
  "get_alg_string value =
     (if length value < 12 then Inl InvalidFormat
      else
        (let raw = take 12 value;
             end_pos = (case position (\<lambda>b. b = 0) raw of Some i \<Rightarrow> i | None \<Rightarrow> length raw)
         in if \<exists>b \<in> set (drop end_pos raw). b \<noteq> 0 then Inl InvalidFormat
            else if \<not> utf8_valid (take end_pos raw) then Inl Utf8
            else Inr (take end_pos raw)))"

definition extract_sig_and_data :: "bytes \<Rightarrow> nat \<Rightarrow> auth_handler_error + bytes \<times> bytes" where
  "extract_sig_and_data value sig_length =
     (let data_start = 12 + sig_length in
      if length value < data_start then Inl InvalidFormat
      else Inr (take (data_start - 12) (drop 12 value), drop data_start value))"

definition decode_b64url :: "'j deps \<Rightarrow> bytes \<Rightarrow> auth_handler_error + bytes" where
  "decode_b64url D key =
     (let stripped = rev (dropWhile (\<lambda>b. b = 61) (rev key)) in
      ok_or Base64 (b64url_decode D stripped))"

definition public_key_from_did_doc :: "'j deps \<Rightarrow> bytes \<Rightarrow> auth_handler_error + bytes" where
  "public_key_from_did_doc D data =
     and_then (ok_or Json (json_from_slice D data)) (\<lambda>doc.
     and_then (ok_or (MissingField (lit ''verificationMethod[0].publicKeyJwk.x''))
       (json_as_str D (json_field D (json_field D (json_elem D
          (json_field D doc (lit ''verificationMethod'')) 0) (lit ''publicKeyJwk'')) (lit ''x''))))
     (\<lambda>x. decode_b64url D x))"

definition strip_prefix :: "bytes \<Rightarrow> bytes \<Rightarrow> bytes option" where
  "strip_prefix p s = (if take (length p) s = p then Some (drop (length p) s) else None)"

text \<open>The algorithm, the signature and the document of a record, as every check begins.\<close>

definition split_record :: "bytes \<Rightarrow> auth_handler_error + bytes \<times> bytes \<times> bytes" where
  "split_record value =
     and_then (get_alg_string value) (\<lambda>alg.
     and_then (map_err Crypto (resolve_alg_and_length alg)) (\<lambda>(_, sig_len).
     and_then (extract_sig_and_data value sig_len) (\<lambda>(signature, data).
     Inr (alg, signature, data))))"

definition did_document_matches_key :: "'j deps \<Rightarrow> bytes \<Rightarrow> node_id \<Rightarrow> auth_handler_error + bool" where
  "did_document_matches_key D value key =
     and_then (split_record value) (\<lambda>(_, _, data).
     and_then (ok_or Json (json_from_slice D data)) (\<lambda>doc.
     and_then (ok_or (MissingField (lit ''id'')) (json_as_str D (json_field D doc (lit ''id'')))) (\<lambda>did.
     and_then (ok_or InvalidDid (strip_prefix (lit ''did:iiot:'') did)) (\<lambda>uuid.
     if \<not> uuid_parses D uuid then Inl InvalidDid
     else Inr (digest D uuid = key)))))"

subsection \<open>The DID handler\<close>

definition verify_self_signed :: "'j deps \<Rightarrow> bytes \<Rightarrow> auth_handler_error + bool" where
  "verify_self_signed D value =
     and_then (split_record value) (\<lambda>(alg, signature, data).
     and_then (public_key_from_did_doc D data) (\<lambda>pub_key.
     and_then (map_err Crypto (get_verifier D alg)) (\<lambda>verify.
     map_err Crypto (verify pub_key signature data))))"

definition verify_key_rotation ::
    "'j deps \<Rightarrow> bytes \<Rightarrow> bytes \<Rightarrow> bytes \<Rightarrow> auth_handler_error + bool" where
  "verify_key_rotation D new_value old_value auth_signature =
     and_then (split_record old_value) (\<lambda>(old_alg, _, old_data).
     and_then (public_key_from_did_doc D old_data) (\<lambda>old_pub_key.
     and_then (map_err Crypto (get_verifier D old_alg)) (\<lambda>verify.
     and_then (map_err Crypto (verify old_pub_key auth_signature new_value)) (\<lambda>authorised.
     if \<not> authorised then Inr False else verify_self_signed D new_value))))"

definition verify_issuer ::
    "'j deps \<Rightarrow> bytes option \<Rightarrow> bytes \<Rightarrow> auth_handler_error + bool" where
  "verify_issuer D issuer value =
     and_then (split_record value) (\<lambda>(alg, signature, data).
     and_then (ok_or Io issuer) (\<lambda>issuer_pub_key.
     and_then (map_err Crypto (get_verifier D alg)) (\<lambda>verify.
     map_err Crypto (verify issuer_pub_key signature data))))"

record handler =
  handle_key_binding_verification :: "node_id \<Rightarrow> bytes \<Rightarrow> auth_handler_error + bool"
  handle_signature_verification :: "bytes \<Rightarrow> auth_handler_error + bool"
  handle_update_verification :: "bytes \<Rightarrow> bytes \<Rightarrow> bytes \<Rightarrow> auth_handler_error + bool"
  handle_issuer_node_signature_verification :: "bytes \<Rightarrow> auth_handler_error + bool"

definition did_handler :: "'j deps \<Rightarrow> bytes option \<Rightarrow> handler" where
  "did_handler D issuer =
     \<lparr>handle_key_binding_verification = (\<lambda>key value. did_document_matches_key D value key),
      handle_signature_verification = verify_self_signed D,
      handle_update_verification = (\<lambda>value old_value auth. verify_key_rotation D value old_value auth),
      handle_issuer_node_signature_verification = verify_issuer D issuer\<rparr>"

subsection \<open>How a node runs the rule\<close>

definition unwrap_or :: "'a \<Rightarrow> 'e + 'a \<Rightarrow> 'a" where
  "unwrap_or d r = (case r of Inl _ \<Rightarrow> d | Inr x \<Rightarrow> x)"

lemma unwrap_or_False [simp]: "unwrap_or False r \<longleftrightarrow> r = Inr True"
  by (cases r) (auto simp: unwrap_or_def)

definition is_bound_to_key :: "'j deps \<Rightarrow> handler \<Rightarrow> node_id \<Rightarrow> bytes \<Rightarrow> bool" where
  "is_bound_to_key D h key value \<longleftrightarrow>
     key = digest D STATUS_LIST_KEY \<or> unwrap_or False (handle_key_binding_verification h key value)"

datatype verification_domain = SelfSigned | IssuerSigned

definition domain_byte :: "verification_domain \<Rightarrow> u8" where
  "domain_byte d = (case d of SelfSigned \<Rightarrow> 0 | IssuerSigned \<Rightarrow> 1)"

type_synonym signature_cache = "bytes \<rightharpoonup> bool"

definition compute_key :: "'j deps \<Rightarrow> verification_domain \<Rightarrow> bytes \<Rightarrow> bytes" where
  "compute_key D d value = sha256 D (domain_byte d # value)"

definition get_by_key :: "signature_cache \<Rightarrow> bytes \<Rightarrow> bool option" where
  "get_by_key cache ck = cache ck"

definition insert_by_key :: "signature_cache \<Rightarrow> bytes \<Rightarrow> bool \<Rightarrow> signature_cache" where
  "insert_by_key cache ck result = cache(ck \<mapsto> result)"

text \<open>The signature check on the blocking thread.\<close>

definition check_signature :: "handler \<Rightarrow> bool \<Rightarrow> bytes \<Rightarrow> bool" where
  "check_signature h is_status value =
     (if is_status then unwrap_or False (handle_issuer_node_signature_verification h value)
      else unwrap_or False (handle_signature_verification h value))"

definition verify_record ::
    "'j deps \<Rightarrow> handler \<Rightarrow> signature_cache option \<Rightarrow> node_id \<Rightarrow> bytes \<Rightarrow> bool \<times> signature_cache option" where
  "verify_record D h cache key value =
     (let is_status = (key = digest D STATUS_LIST_KEY) in
      if \<not> is_bound_to_key D h key value then (False, cache)
      else
        (let dom = (if is_status then IssuerSigned else SelfSigned) in
         case cache of
           None \<Rightarrow> (check_signature h is_status value, None)
         | Some c \<Rightarrow>
             (let ck = compute_key D dom value in
              case get_by_key c ck of
                Some cached \<Rightarrow> (cached, cache)
              | None \<Rightarrow>
                  (let result = check_signature h is_status value
                   in (result, Some (insert_by_key c ck result))))))"

definition verify_rotation :: "handler \<Rightarrow> node_id \<Rightarrow> bytes \<Rightarrow> bytes \<Rightarrow> bytes \<Rightarrow> bool" where
  "verify_rotation h key new old auth_signature \<longleftrightarrow>
     unwrap_or False (handle_key_binding_verification h key old) \<and>
     unwrap_or False (handle_key_binding_verification h key new) \<and>
     unwrap_or False (handle_update_verification h new old auth_signature)"

definition verify_issuer_signed :: "handler \<Rightarrow> bytes \<Rightarrow> bool" where
  "verify_issuer_signed h value =
     unwrap_or False (handle_issuer_node_signature_verification h value)"

subsection \<open>The layout of a record is unique\<close>

definition record_bytes :: "bytes \<Rightarrow> bytes \<Rightarrow> bytes \<Rightarrow> bytes" where
  "record_bytes alg sig data = alg @ replicate (12 - length alg) 0 @ sig @ data"

lemma position_zero_append:
  "0 \<notin> set alg \<Longrightarrow> position (\<lambda>b. b = (0::u8)) (alg @ 0 # zs) = Some (length alg)"
  by (induction alg) auto

lemma get_alg_string_padded:
  assumes "length alg \<le> 11" "0 \<notin> set alg" "utf8_valid alg"
  shows "get_alg_string (alg @ replicate (12 - length alg) 0 @ rest) = Inr alg"
proof -
  have raw: "take 12 (alg @ replicate (12 - length alg) 0 @ rest) = alg @ replicate (12 - length alg) 0"
    using assms(1) by simp
  obtain m where m: "12 - length alg = Suc m" using assms(1) by (cases "12 - length alg") auto
  have "position (\<lambda>b. b = (0::u8)) (alg @ replicate (12 - length alg) 0) = Some (length alg)"
    unfolding m using position_zero_append [OF assms(2)] by simp
  then show ?thesis using assms raw by (simp add: get_alg_string_def Let_def)
qed

lemma get_alg_string_Inr:
  assumes "get_alg_string value = Inr alg" "length alg \<le> 11"
  shows "value = alg @ replicate (12 - length alg) 0 @ drop 12 value" "12 \<le> length value"
proof -
  let ?raw = "take 12 value"
  define e where "e = (case position (\<lambda>b. b = 0) ?raw of Some i \<Rightarrow> i | None \<Rightarrow> length ?raw)"
  show len: "12 \<le> length value"
    using assms(1) by (auto simp: get_alg_string_def split: if_splits)
  have alg: "alg = take e ?raw" and zeros: "\<forall>b \<in> set (drop e ?raw). b = 0"
    using assms(1) by (auto simp: get_alg_string_def Let_def e_def [symmetric] split: if_splits)
  have "e \<le> 12"
    unfolding e_def using len by (auto dest: position_SomeD(1) split: option.split)
  then have la: "length alg = e" using alg len by simp
  have "drop e ?raw = replicate (12 - e) 0" using zeros len by (intro replicate_eqI) auto
  then have "?raw = alg @ replicate (12 - length alg) 0" using alg la by (metis append_take_drop_id)
  then show "value = alg @ replicate (12 - length alg) 0 @ drop 12 value"
    by (metis append.assoc append_take_drop_id)
qed

lemma split_record_iff:
  "split_record value = Inr (alg, sig, data) \<longleftrightarrow>
     value = record_bytes alg sig data \<and> (\<exists>base. resolve_alg_and_length alg = Inr (base, length sig))"
proof
  assume "split_record value = Inr (alg, sig, data)"
  then obtain base n where a: "get_alg_string value = Inr alg"
    and r: "resolve_alg_and_length alg = Inr (base, n)"
    and x: "extract_sig_and_data value n = Inr (sig, data)"
    by (auto simp: split_record_def)
  obtain "length alg \<le> 11" using resolved_alg [OF r] by blast
  note v = get_alg_string_Inr [OF a this]
  have sd: "sig = take n (drop 12 value)" "data = drop (12 + n) value" "12 + n \<le> length value"
    using x by (auto simp: extract_sig_and_data_def Let_def split: if_splits)
  then have "drop 12 value = sig @ data" by (metis append_take_drop_id drop_drop add.commute)
  moreover have "length sig = n" using sd by simp
  ultimately show "value = record_bytes alg sig data \<and> (\<exists>base. resolve_alg_and_length alg = Inr (base, length sig))"
    using v r by (auto simp: record_bytes_def)
next
  assume R: "value = record_bytes alg sig data \<and> (\<exists>base. resolve_alg_and_length alg = Inr (base, length sig))"
  then obtain base where r: "resolve_alg_and_length alg = Inr (base, length sig)" by blast
  obtain l: "length alg \<le> 11" "0 \<notin> set alg" "utf8_valid alg" using resolved_alg [OF r] by blast
  have "get_alg_string value = Inr alg" using R get_alg_string_padded [OF l] by (simp add: record_bytes_def)
  moreover have "extract_sig_and_data value (length sig) = Inr (sig, data)"
    using R l(1) by (simp add: extract_sig_and_data_def record_bytes_def)
  ultimately show "split_record value = Inr (alg, sig, data)" using r by (simp add: split_record_def)
qed

subsection \<open>The contract of a verification rule\<close>

text \<open>
  What the protocol relies on: a record is bound to at most one key, and an accepted update is a
  record that is accepted by itself.
\<close>

locale record_rule =
  fixes D :: "'j deps" and h :: handler
  assumes bound_once: "handle_key_binding_verification h k v = Inr True \<Longrightarrow>
      handle_key_binding_verification h k' v = Inr True \<Longrightarrow> k = k'"
    and update_self_signed: "handle_update_verification h new old a = Inr True \<Longrightarrow>
      handle_signature_verification h new = Inr True"
begin

lemma rotation_result_valid:
  assumes "verify_rotation h k new old a" "k \<noteq> digest D STATUS_LIST_KEY"
  shows "fst (verify_record D h None k new)"
  using assms update_self_signed [of new old a]
  by (auto simp: verify_rotation_def verify_record_def is_bound_to_key_def check_signature_def Let_def)

lemma valid_for_one_key:
  assumes "fst (verify_record D h None k v)" "fst (verify_record D h None k' v)"
    and "k \<noteq> digest D STATUS_LIST_KEY" "k' \<noteq> digest D STATUS_LIST_KEY"
  shows "k = k'"
  using assms bound_once [of k v k']
  by (auto simp: verify_record_def is_bound_to_key_def Let_def split: if_splits)

lemma rotation_keeps_key:
  assumes "verify_rotation h k new old a" "verify_rotation h k' new old' a'"
  shows "k = k'"
  using assms bound_once [of k new k'] by (auto simp: verify_rotation_def)

end

lemma matches_key_once:
  "did_document_matches_key D v k = Inr True \<Longrightarrow> did_document_matches_key D v k' = Inr True \<Longrightarrow> k = k'"
  by (auto simp: did_document_matches_key_def split: if_splits)

lemma rotation_self_signed: "verify_key_rotation D new old a = Inr True \<Longrightarrow> verify_self_signed D new = Inr True"
  by (auto simp: verify_key_rotation_def split: if_splits)

interpretation did: record_rule D "did_handler D issuer" for D issuer
  by unfold_locales (auto simp: did_handler_def intro: matches_key_once rotation_self_signed)

subsection \<open>Properties\<close>

definition signed_by :: "'j deps \<Rightarrow> bytes \<Rightarrow> bytes \<Rightarrow> bytes \<Rightarrow> bytes \<Rightarrow> bool" where
  "signed_by D alg pk sig msg \<longleftrightarrow>
     (case scheme_of alg of
        Inl _ \<Rightarrow> False
      | Inr RSA \<Rightarrow> rsa_verify_sig D pk sig msg = Inr True
      | Inr Ed25519 \<Rightarrow> ed25519_verify D pk sig msg = Inr True
      | Inr Dilithium \<Rightarrow> dilithium_verify D pk sig msg = Inr True)"

lemma get_verifier_signed_by:
  "(\<exists>verify. get_verifier D alg = Inr verify \<and> verify pk sig msg = Inr True) \<longleftrightarrow> signed_by D alg pk sig msg"
  by (cases "scheme_of alg") (auto simp: get_verifier_def signed_by_def split: scheme.split)

text \<open>A document names the key: its \<open>id\<close> is \<open>did:iiot:\<close> and a UUID whose digest is the key.\<close>

definition names_key :: "'j deps \<Rightarrow> bytes \<Rightarrow> node_id \<Rightarrow> bool" where
  "names_key D data key \<longleftrightarrow>
     (\<exists>doc uuid. json_from_slice D data = Some doc \<and>
        json_as_str D (json_field D doc (lit ''id'')) = Some (lit ''did:iiot:'' @ uuid) \<and>
        uuid_parses D uuid \<and> sha1 D uuid = key)"

lemma strip_prefix_iff: "strip_prefix p s = Some t \<longleftrightarrow> s = p @ t"
  by (auto simp: strip_prefix_def) (metis append_take_drop_id)

lemma matches_key_iff:
  "did_document_matches_key D value key = Inr True \<longleftrightarrow>
     (\<exists>alg sig data. split_record value = Inr (alg, sig, data) \<and> names_key D data key)"
  by (auto simp: did_document_matches_key_def names_key_def strip_prefix_iff digest_def digest_bytes_def
      split: if_splits)

lemma verify_self_signed_iff:
  "verify_self_signed D value = Inr True \<longleftrightarrow>
     (\<exists>alg sig data pk. split_record value = Inr (alg, sig, data) \<and>
        public_key_from_did_doc D data = Inr pk \<and> signed_by D alg pk sig data)"
  by (auto simp: verify_self_signed_def get_verifier_signed_by [symmetric])

text \<open>
  Property C12. The exact condition under which a node stores or returns a record of a key other
  than the Status List, with no cache: the bytes are a known algorithm name padded with zeros to
  twelve bytes, a signature of exactly the length of that algorithm, and a document that names the
  key by the digest of its UUID and carries the public key under which the signature verifies.
\<close>

theorem did_record_accepted_iff:
  assumes "key \<noteq> digest D STATUS_LIST_KEY"
  shows "fst (verify_record D (did_handler D issuer) None key value) \<longleftrightarrow>
    (\<exists>alg sig data pk base. value = record_bytes alg sig data \<and>
       resolve_alg_and_length alg = Inr (base, length sig) \<and> names_key D data key \<and>
       public_key_from_did_doc D data = Inr pk \<and> signed_by D alg pk sig data)"
proof -
  have "fst (verify_record D (did_handler D issuer) None key value) \<longleftrightarrow>
      did_document_matches_key D value key = Inr True \<and> verify_self_signed D value = Inr True"
    using assms by (auto simp: verify_record_def is_bound_to_key_def check_signature_def did_handler_def Let_def)
  also have "\<dots> \<longleftrightarrow> (\<exists>alg sig data pk. split_record value = Inr (alg, sig, data) \<and> names_key D data key \<and>
      public_key_from_did_doc D data = Inr pk \<and> signed_by D alg pk sig data)"
    unfolding matches_key_iff verify_self_signed_iff by fastforce
  finally show ?thesis unfolding split_record_iff by blast
qed

text \<open>
  Property C13. A key rotation is accepted only if the authorising signature over the whole new
  record verifies under the public key of the record it replaces, both records name the same key,
  and the new record is by itself a valid record of that key.
\<close>

theorem rotation_authorised_by_old_key:
  assumes "verify_rotation (did_handler D issuer) key new old auth" "key \<noteq> digest D STATUS_LIST_KEY"
  shows "(\<exists>alg sig data pk. split_record old = Inr (alg, sig, data) \<and> names_key D data key \<and>
      public_key_from_did_doc D data = Inr pk \<and> signed_by D alg pk auth new) \<and>
    fst (verify_record D (did_handler D issuer) None key new)"
proof -
  have o: "did_document_matches_key D old key = Inr True" "verify_key_rotation D new old auth = Inr True"
    using assms(1) by (simp_all add: verify_rotation_def did_handler_def)
  obtain alg sig data where sp: "split_record old = Inr (alg, sig, data)" "names_key D data key"
    using o(1) by (auto simp: matches_key_iff)
  have "\<exists>pk. public_key_from_did_doc D data = Inr pk \<and> signed_by D alg pk auth new"
    using o(2) sp(1) by (auto simp: verify_key_rotation_def get_verifier_signed_by [symmetric] split: if_splits)
  then show ?thesis using sp did.rotation_result_valid [OF assms] by blast
qed

text \<open>
  Calls of \<open>verify_record\<close> on one cache, with entries evicted at any point in between. Every call reads
  the file of the issuer's key anew: \<open>issuer\<close> is what this call finds there.
\<close>

datatype cache_op = Verify "bytes option" node_id bytes | Evict "bytes set"

fun run_cached :: "'j deps \<Rightarrow> signature_cache \<Rightarrow> cache_op list \<Rightarrow> bool list" where
  "run_cached D c [] = []"
| "run_cached D c (Verify issuer key value # ops) =
     (case verify_record D (did_handler D issuer) (Some c) key value of
        (r, Some c') \<Rightarrow> r # run_cached D c' ops
      | (r, None) \<Rightarrow> r # run_cached D c ops)"
| "run_cached D c (Evict ks # ops) = run_cached D (c |` (- ks)) ops"

fun run_uncached :: "'j deps \<Rightarrow> cache_op list \<Rightarrow> bool list" where
  "run_uncached D [] = []"
| "run_uncached D (Verify issuer key value # ops) =
     fst (verify_record D (did_handler D issuer) None key value) # run_uncached D ops"
| "run_uncached D (Evict ks # ops) = run_uncached D ops"

definition domain_input :: "bool \<Rightarrow> bytes \<Rightarrow> bytes" where
  "domain_input status value = domain_byte (if status then IssuerSigned else SelfSigned) # value"

lemma domain_input_eq: "domain_input s v = domain_input s' v' \<longleftrightarrow> s = s' \<and> v = v'"
  by (auto simp: domain_input_def domain_byte_def)

definition hash_input :: "'j deps \<Rightarrow> node_id \<Rightarrow> bytes \<Rightarrow> bytes" where
  "hash_input D key value = domain_input (key = digest D STATUS_LIST_KEY) value"

definition hash_inputs :: "'j deps \<Rightarrow> cache_op list \<Rightarrow> bytes set" where
  "hash_inputs D ops = {hash_input D key value | issuer key value. Verify issuer key value \<in> set ops}"

text \<open>Every entry is the verdict on some record already checked.\<close>

definition cache_ok :: "'j deps \<Rightarrow> handler \<Rightarrow> bytes set \<Rightarrow> signature_cache \<Rightarrow> bool" where
  "cache_ok D h S c \<longleftrightarrow>
     (\<forall>ck b. c ck = Some b \<longrightarrow> (\<exists>status value. domain_input status value \<in> S \<and>
        ck = sha256 D (domain_input status value) \<and> b = check_signature h status value))"

lemma cache_ok_mono: "cache_ok D h S c \<Longrightarrow> S \<subseteq> T \<Longrightarrow> cache_ok D h T c"
  unfolding cache_ok_def by blast

lemma verify_record_Some:
  "verify_record D h (Some c) key v =
     (let r = check_signature h (key = digest D STATUS_LIST_KEY) v; ck = sha256 D (hash_input D key v) in
      if \<not> is_bound_to_key D h key v then (False, Some c)
      else (case c ck of Some b \<Rightarrow> (b, Some c) | None \<Rightarrow> (r, Some (c(ck \<mapsto> r)))))"
proof -
  have "compute_key D (if key = digest D STATUS_LIST_KEY then IssuerSigned else SelfSigned) v =
      sha256 D (hash_input D key v)"
    by (simp add: compute_key_def hash_input_def domain_input_def)
  then show ?thesis unfolding verify_record_def Let_def get_by_key_def insert_by_key_def
    by (simp only: option.case)
qed

lemma verify_record_cached:
  assumes ok: "cache_ok D h S c" and inj: "inj_on (sha256 D) (insert (hash_input D key value) S)"
  shows "fst (verify_record D h (Some c) key value) = fst (verify_record D h None key value)"
    and "\<exists>c'. snd (verify_record D h (Some c) key value) = Some c' \<and>
      cache_ok D h (insert (hash_input D key value) S) c'"
proof -
  let ?st = "key = digest D STATUS_LIST_KEY" and ?in = "hash_input D key value"
  have grow: "cache_ok D h (insert ?in S) c" using cache_ok_mono [OF ok] by blast
  have hit: "b = check_signature h ?st value" if entry: "c (sha256 D ?in) = Some b" for b
  proof -
    obtain status v where s: "domain_input status v \<in> S" "sha256 D ?in = sha256 D (domain_input status v)"
      "b = check_signature h status v" using ok entry unfolding cache_ok_def by blast
    then have "?in = domain_input status v" using inj by (auto dest: inj_onD)
    then show ?thesis using s(3) by (simp add: hash_input_def domain_input_eq)
  qed
  have miss: "cache_ok D h (insert ?in S) (c(sha256 D ?in \<mapsto> check_signature h ?st value))"
    unfolding cache_ok_def
  proof (intro allI impI)
    fix ck b assume e: "(c(sha256 D ?in \<mapsto> check_signature h ?st value)) ck = Some b"
    show "\<exists>status v. domain_input status v \<in> insert ?in S \<and> ck = sha256 D (domain_input status v) \<and>
        b = check_signature h status v"
    proof (cases "ck = sha256 D ?in")
      case True
      then show ?thesis using e by (intro exI [of _ ?st] exI [of _ "value"]) (simp add: hash_input_def)
    next
      case False
      then show ?thesis using e grow unfolding cache_ok_def by simp
    qed
  qed
  show "fst (verify_record D h (Some c) key value) = fst (verify_record D h None key value)"
    using hit by (auto simp: verify_record_Some Let_def verify_record_def [of D h None] split: option.split)
  show "\<exists>c'. snd (verify_record D h (Some c) key value) = Some c' \<and> cache_ok D h (insert ?in S) c'"
    using grow miss by (auto simp: verify_record_Some Let_def split: option.split)
qed

text \<open>Only the check of a Status List reads the issuer's key.\<close>

lemma issuer_irrelevant:
  assumes "key = digest D STATUS_LIST_KEY \<Longrightarrow> handle_issuer_node_signature_verification h v = verify_issuer D issuer v"
    and "handle_key_binding_verification h = handle_key_binding_verification (did_handler D issuer)"
    and "handle_signature_verification h = handle_signature_verification (did_handler D issuer)"
  shows "verify_record D (did_handler D issuer) c key v = verify_record D h c key v"
proof -
  have "is_bound_to_key D (did_handler D issuer) key v = is_bound_to_key D h key v"
    "check_signature (did_handler D issuer) (key = digest D STATUS_LIST_KEY) v = check_signature h (key = digest D STATUS_LIST_KEY) v"
    using assms by (auto simp: is_bound_to_key_def check_signature_def did_handler_def)
  then show ?thesis unfolding verify_record_def Let_def by (simp only:)
qed

lemma run_cached_rule:
  assumes "\<And>issuer key v c. Verify issuer key v \<in> set ops \<Longrightarrow>
      verify_record D (did_handler D issuer) c key v = verify_record D h c key v"
    and "cache_ok D h S c" "inj_on (sha256 D) (S \<union> hash_inputs D ops)"
  shows "run_cached D c ops = run_uncached D ops"
  using assms
proof (induction ops arbitrary: c S)
  case (Cons op ops)
  note IH = Cons.IH [OF Cons.prems(1)]
  show ?case
  proof (cases op)
    case (Verify issuer key v)
    let ?in = "hash_input D key v"
    have U: "S \<union> hash_inputs D (op # ops) = insert ?in S \<union> hash_inputs D ops"
      using Verify by (auto simp: hash_inputs_def)
    have "inj_on (sha256 D) (insert ?in S)" by (rule inj_on_subset [OF Cons.prems(3)]) (auto simp: U)
    note V = verify_record_cached [OF Cons.prems(2) this]
    then obtain c' where c': "snd (verify_record D h (Some c) key v) = Some c'"
      "cache_ok D h (insert ?in S) c'" by blast
    then show ?thesis
      using V(1) IH [OF _ c'(2)] Cons.prems(1) [of issuer key v] Cons.prems(3) U by (simp add: Verify case_prod_beta)
  next
    case (Evict ks)
    have "cache_ok D h S (c |` (- ks))" using Cons.prems(2) by (auto simp: cache_ok_def restrict_map_def)
    moreover have "hash_inputs D (op # ops) = hash_inputs D ops" using Evict by (auto simp: hash_inputs_def)
    ultimately show ?thesis using IH Cons.prems(3) Evict by simp
  qed
qed simp

text \<open>
  Property C14. The cache does not change a verdict, unless the issuer's key changes: a sequence of
  record checks on one cache, with any entries evicted at any time and the issuer's key read anew at
  each check, gives the same answers as checking every record afresh, provided any two checks of the
  same Status List record read the same issuer key and SHA-256 does not collide on the checked
  inputs. For the records of DIDs the issuer's key does not matter, whatever is read. The domain byte
  keeps issuer-signed and self-signed verdicts on the same bytes apart.
\<close>

theorem verification_cache_transparent:
  assumes "inj_on (sha256 D) (hash_inputs D ops)"
    and "\<And>i i' v. Verify i (digest D STATUS_LIST_KEY) v \<in> set ops \<Longrightarrow> Verify i' (digest D STATUS_LIST_KEY) v \<in> set ops \<Longrightarrow> i = i'"
  shows "run_cached D Map.empty ops = run_uncached D ops"
proof (rule run_cached_rule)
  define f where "f v = (SOME i. Verify i (digest D STATUS_LIST_KEY) v \<in> set ops)" for v
  have f: "f v = i" if "Verify i (digest D STATUS_LIST_KEY) v \<in> set ops" for i v
    using assms(2) [OF that] someI [of "\<lambda>i. Verify i (digest D STATUS_LIST_KEY) v \<in> set ops", OF that] by (simp add: f_def)
  let ?h = "(did_handler D None)\<lparr>handle_issuer_node_signature_verification := \<lambda>v. verify_issuer D (f v) v\<rparr>"
  show "verify_record D (did_handler D issuer) c key v = verify_record D ?h c key v" if "Verify issuer key v \<in> set ops" for issuer key v c
    by (rule issuer_irrelevant) (use that f in \<open>auto simp: did_handler_def\<close>)
  show "cache_ok D ?h {} Map.empty" by (simp add: cache_ok_def)
  show "inj_on (sha256 D) ({} \<union> hash_inputs D ops)" using assms(1) by simp
qed

text \<open>
  Property C33. The verdict on a Status List record outlives the issuer key it was reached with. If
  the key file cannot be read during a check, the failure is cached as an invalid signature, and
  as long as the entry lives the record is refused under every issuer key, also the right one.
\<close>

theorem issuer_read_error_is_cached:
  assumes "c (sha256 D (hash_input D (digest D STATUS_LIST_KEY) v)) = None"
  shows "\<exists>c'. verify_record D (did_handler D None) (Some c) (digest D STATUS_LIST_KEY) v = (False, Some c') \<and>
    (\<forall>issuer. verify_record D (did_handler D issuer) (Some c') (digest D STATUS_LIST_KEY) v = (False, Some c'))"
proof -
  have "verify_issuer D None v \<noteq> Inr True" by (auto simp: verify_issuer_def ok_or_def)
  then show ?thesis
    using assms by (simp add: verify_record_Some Let_def is_bound_to_key_def check_signature_def did_handler_def)
qed

subsection \<open>Concrete instances\<close>

text \<open>A stand-in for the crates: documents are their own fields, hashes and codecs are the identity.\<close>

definition wdeps :: "bytes deps" where
  "wdeps =
     \<lparr>sha1 = (\<lambda>b. id_of_bytes (take 20 (b @ replicate 20 0))), sha256 = (\<lambda>b. b),
      ed_key_ok = (\<lambda>_. True), ed_verify = (\<lambda>pk m s. True), ed_sign = (\<lambda>sk m. replicate 64 0),
      dil_pk_ok = (\<lambda>_ _. True), dil_sig_ok = (\<lambda>_ _. True), dil_verify = (\<lambda>_ _ _ _. True),
      dil_sk_ok = (\<lambda>_ _. True), dil_sign = (\<lambda>_ m _. m),
      rsa_pub_der = (\<lambda>b. Some b), rsa_pub_pem = (\<lambda>b. Some b), rsa_sig_ok = (\<lambda>_. True),
      rsa_verify = (\<lambda>_ _ _. True), rsa_priv_der = (\<lambda>b. Some b), rsa_priv_pem = (\<lambda>b. Some b),
      rsa_sign = (\<lambda>_ m. m),
      json_from_slice = (\<lambda>b. Some b),
      json_field = (\<lambda>j f. if f = lit ''id'' then lit ''did:iiot:'' @ j else j),
      json_elem = (\<lambda>j _. j), json_as_str = (\<lambda>j. Some j), b64url_decode = (\<lambda>b. Some b),
      uuid_parses = (\<lambda>_. True)\<rparr>"

definition wdoc :: bytes where
  "wdoc = replicate 32 7"

definition wrecord :: bytes where
  "wrecord = record_bytes (lit ''Ed25519'') (replicate 64 0) wdoc"

definition wkey :: node_id where
  "wkey = sha1 wdeps wdoc"

lemma wrecord_facts:
  "wkey \<noteq> digest wdeps STATUS_LIST_KEY"
  "resolve_alg_and_length (lit ''Ed25519'') = Inr (lit ''Ed25519'', length (replicate 64 (0::u8)))"
  "public_key_from_did_doc wdeps wdoc = Inr wdoc" "signed_by wdeps (lit ''Ed25519'') wdoc (replicate 64 0) wdoc"
proof -
  show "wkey \<noteq> digest wdeps STATUS_LIST_KEY" by code_simp
  show "resolve_alg_and_length (lit ''Ed25519'') = Inr (lit ''Ed25519'', length (replicate 64 (0::u8)))" by code_simp
  show "public_key_from_did_doc wdeps wdoc = Inr wdoc" by code_simp
  show "signed_by wdeps (lit ''Ed25519'') wdoc (replicate 64 0) wdoc" by code_simp
qed

lemma wdoc_names_key: "names_key wdeps wdoc wkey"
  unfolding names_key_def wkey_def by (intro exI [of _ wdoc]) (simp add: wdeps_def)

theorem did_record_accepted_iff_witness:
  "fst (verify_record wdeps (did_handler wdeps None) None wkey wrecord)"
  unfolding did_record_accepted_iff [OF wrecord_facts(1)]
  using wrecord_facts(2-4) wdoc_names_key unfolding wrecord_def by blast

theorem rotation_authorised_by_old_key_witness:
  "verify_rotation (did_handler wdeps None) wkey wrecord wrecord (replicate 64 1) \<and>
   fst (verify_record wdeps (did_handler wdeps None) None wkey wrecord)"
proof -
  have r: "verify_rotation (did_handler wdeps None) wkey wrecord wrecord (replicate 64 1)" by code_simp
  from rotation_authorised_by_old_key [OF r wrecord_facts(1)] r show ?thesis by blast
qed

definition wchecks :: "cache_op list" where
  "wchecks = [Verify None wkey wrecord, Verify (Some [2]) (digest wdeps STATUS_LIST_KEY) wrecord, Verify (Some [1]) wkey wrecord,
     Evict UNIV, Verify (Some [2]) (digest wdeps STATUS_LIST_KEY) wrecord]"

theorem verification_cache_transparent_witness:
  "run_cached wdeps Map.empty wchecks = run_uncached wdeps wchecks \<and> hd (run_uncached wdeps wchecks)"
proof -
  have "fst (verify_record wdeps (did_handler wdeps None) None wkey wrecord)" by code_simp
  then have "hd (run_uncached wdeps wchecks)" by (simp add: wchecks_def)
  moreover have "run_cached wdeps Map.empty wchecks = run_uncached wdeps wchecks"
    by (rule verification_cache_transparent) (use wrecord_facts(1) in \<open>auto simp: wchecks_def wdeps_def inj_on_def\<close>)
  ultimately show ?thesis by blast
qed

theorem issuer_read_error_is_cached_witness:
  "\<exists>c'. verify_record wdeps (did_handler wdeps None) (Some Map.empty) (digest wdeps STATUS_LIST_KEY) wrecord = (False, Some c')"
  using issuer_read_error_is_cached [of Map.empty wdeps wrecord] by auto

end
