(* ===== verification/Crawling.thy ===== *)
theory Crawling
  imports Nodes
begin

text \<open>
  Iterative lookups (\<open>src/src/crawling.rs\<close>): the shared crawl state, the node lookup, the value
  lookup, the quorum lookup and the search that has to hear every peer.

  The trait \<open>SpiderProtocol\<close> is the record \<open>spider\<close> of functions on a protocol state \<open>'p\<close>. The
  requests of one round run concurrently, so their answers are one step of the environment:
  \<open>sp_find_nodes\<close> and \<open>sp_find_values\<close> map the asked peers to their answers, in the order
  \<open>join_all\<close> returns them; \<open>sp_join\<close> gives the completions of a \<open>JoinSet\<close> in the order they
  arrive, cut short when the deadline passes first. \<open>sp_order\<close> ranks the keys of the \<open>HashMap\<close> of
  a round, which is iterated in ascending rank: any order of distinct keys is one of these. A request that panics takes the lookup down and is not modelled.

  The loops are total functions: a round either contacts a peer for the first time, and there are
  finitely many identifiers, or fixes the shortlist for the next round, which then asks everyone.
\<close>

subsection \<open>Answers\<close>

datatype find_payload =
    Nodes "(bytes \<times> bytes option \<times> u16 option) list"
  | Value bytes
  | Empty

record raw_response =
  rr_happened :: bool
  rr_payload :: find_payload

definition happened :: "raw_response \<Rightarrow> bool" where
  "happened r = rr_happened r"

definition has_value :: "raw_response \<Rightarrow> bool" where
  "has_value r = (case rr_payload r of Value _ \<Rightarrow> True | _ \<Rightarrow> False)"

definition get_value :: "raw_response \<Rightarrow> bytes option" where
  "get_value r = (case rr_payload r of Value v \<Rightarrow> Some v | _ \<Rightarrow> None)"

definition get_node_list :: "raw_response \<Rightarrow> node list" where
  "get_node_list r =
     (case rr_payload r of
        Nodes tuples \<Rightarrow>
          List.map_filter
            (\<lambda>(id_bytes, ip, port).
               if length id_bytes \<noteq> ID_LEN then None
               else Some (node_new (id_of_bytes id_bytes) ip port))
            tuples
      | _ \<Rightarrow> [])"

datatype join_event = Answer node_id raw_response | Cancelled | is_TimedOut: TimedOut bool

record 'p spider =
  sp_find_nodes :: "'p \<Rightarrow> node list \<Rightarrow> node \<Rightarrow> 'p \<times> raw_response list"
  sp_find_values :: "'p \<Rightarrow> node list \<Rightarrow> node \<Rightarrow> 'p \<times> raw_response list"
  sp_join :: "'p \<Rightarrow> node list \<Rightarrow> node \<Rightarrow> 'p \<times> join_event list"
  sp_store :: "'p \<Rightarrow> node \<Rightarrow> node_id \<Rightarrow> bytes \<Rightarrow> 'p \<times> bool"
  sp_failing_among :: "'p \<Rightarrow> node list \<Rightarrow> 'p \<times> node_id set"
  sp_note_no_answer :: "'p \<Rightarrow> node list \<Rightarrow> 'p"
  sp_deadline_passed :: "'p \<Rightarrow> bool"
  sp_order :: "'p \<Rightarrow> node_id \<Rightarrow> nat"

datatype value_search = Found bytes | NotFound | Incomplete

record lookup_nodes =
  lk_nodes :: "node list"
  lk_unresponsive :: nat

definition SILENT_AFTER :: duration where
  "SILENT_AFTER = secs 1"

subsection \<open>Crawl state\<close>

record 'p crawl =
  cr_protocol :: 'p
  cr_ksize :: nat
  cr_alpha :: nat
  cr_node :: node
  cr_nearest :: node_heap
  cr_last_ids_crawled :: "node_id list"
  cr_failed :: "node_id set"
  cr_skipped :: "node_id set"
  cr_ask_everyone :: bool
  cr_rounds :: nat

definition crawl_new :: "'p \<Rightarrow> node \<Rightarrow> node list \<Rightarrow> nat \<Rightarrow> nat \<Rightarrow> 'p crawl" where
  "crawl_new p n peers ksize alpha =
     \<lparr>cr_protocol = p, cr_ksize = ksize, cr_alpha = alpha, cr_node = n,
      cr_nearest = heap_push (heap_new n ksize) peers, cr_last_ids_crawled = [],
      cr_failed = {}, cr_skipped = {}, cr_ask_everyone = False, cr_rounds = 0\<rparr>"

definition asking_everyone :: "'p crawl \<Rightarrow> 'p crawl" where
  "asking_everyone c = c\<lparr>cr_ask_everyone := True\<rparr>"

definition add_reported :: "'p spider \<Rightarrow> 'p crawl \<Rightarrow> node list \<Rightarrow> 'p crawl" where
  "add_reported P c ns =
     (let (p, known_failing) = sp_failing_among P (cr_protocol c) ns;
          usable = filter (\<lambda>n. nid n \<notin> cr_failed c \<and> nid n \<notin> known_failing) ns
      in c\<lparr>cr_protocol := p, cr_skipped := cr_skipped c \<union> known_failing,
           cr_nearest := heap_push (cr_nearest c) usable\<rparr>)"

definition remove_failed :: "'p crawl \<Rightarrow> node_id list \<Rightarrow> 'p crawl" where
  "remove_failed c peers =
     c\<lparr>cr_nearest := heap_remove (cr_nearest c) peers, cr_failed := cr_failed c \<union> set peers\<rparr>"

definition crawl_lookup_nodes :: "'p crawl \<Rightarrow> lookup_nodes" where
  "crawl_lookup_nodes c =
     \<lparr>lk_nodes = heap_iter (cr_nearest c), lk_unresponsive = card (cr_failed c \<union> cr_skipped c)\<rparr>"

text \<open>A limit of \<open>usize::MAX\<close> is \<open>None\<close>.\<close>

definition next_peers :: "'p crawl \<Rightarrow> nat option \<Rightarrow> 'p crawl \<times> node list" where
  "next_peers c limit =
     (let current_ids = heap_get_ids (cr_nearest c);
          cnt = (if cr_ask_everyone c \<or> current_ids = cr_last_ids_crawled c
                 then heap_len (cr_nearest c) else cr_alpha c);
          cnt = (case limit of None \<Rightarrow> cnt | Some l \<Rightarrow> min cnt l);
          peers = take cnt (heap_get_uncontacted (cr_nearest c))
      in (c\<lparr>cr_last_ids_crawled := current_ids,
            cr_nearest := foldl heap_mark_contacted (cr_nearest c) peers,
            cr_rounds := (if peers \<noteq> [] then cr_rounds c + 1 else cr_rounds c)\<rparr>, peers))"

definition find_round_limited ::
    "'p spider \<Rightarrow> ('p \<Rightarrow> node list \<Rightarrow> node \<Rightarrow> 'p \<times> raw_response list) \<Rightarrow> 'p crawl \<Rightarrow> nat option \<Rightarrow>
     'p crawl \<times> (node_id \<times> raw_response) list" where
  "find_round_limited P rpc c limit =
     (let (c1, peers) = next_peers c limit;
          (p, raws) = rpc (cr_protocol c1) peers (cr_node c1)
      in (c1\<lparr>cr_protocol := p\<rparr>,
          sort_key (\<lambda>(i, _). sp_order P p i) (zip (map nid peers) raws)))"

definition find_round ::
    "'p spider \<Rightarrow> ('p \<Rightarrow> node list \<Rightarrow> node \<Rightarrow> 'p \<times> raw_response list) \<Rightarrow> 'p crawl \<Rightarrow>
     'p crawl \<times> (node_id \<times> raw_response) list" where
  "find_round P rpc c = find_round_limited P rpc c None"

subsection \<open>Votes\<close>

fun count_votes :: "bytes list \<Rightarrow> (bytes \<times> nat) list \<Rightarrow> (bytes \<times> nat) list" where
  "count_votes [] counts = counts"
| "count_votes (v # vs) counts =
     count_votes vs (AList.update v ((case map_of counts v of None \<Rightarrow> 0 | Some n \<Rightarrow> n) + 1) counts)"

definition strict_quorum_value :: "bytes list \<Rightarrow> nat \<Rightarrow> bytes option" where
  "strict_quorum_value values minimum_votes =
     (let counts = count_votes values [];
          required = max minimum_votes (length values div 2 + 1)
      in if counts = [] then None
         else
           (let highest = Max (set (map snd counts)) in
            if highest < required then None
            else (case filter (\<lambda>(_, n). n = highest) counts of
                    [(winner, _)] \<Rightarrow> Some winner
                  | _ \<Rightarrow> None)))"

subsection \<open>What a round does to the set of contacted peers\<close>

lemma mark_all_contacted: "hp_contacted (foldl heap_mark_contacted h ps) = hp_contacted h \<union> nid ` set ps"
  by (induction ps arbitrary: h) (auto simp: heap_mark_contacted_def)

lemma mark_all_fields [simp]:
  "hp_node (foldl heap_mark_contacted h ps) = hp_node h"
  "hp_entries (foldl heap_mark_contacted h ps) = hp_entries h"
  "hp_maxsize (foldl heap_mark_contacted h ps) = hp_maxsize h"
  by (induction ps arbitrary: h) (auto simp: heap_mark_contacted_def)

lemma heap_push_contacted [simp]: "hp_contacted (heap_push h ns) = hp_contacted h"
  by simp

lemma heap_remove_contacted [simp]: "hp_contacted (heap_remove h ps) = hp_contacted h"
  by (simp add: heap_remove_def)

text \<open>The part of the state a round's answers leave alone.\<close>

definition same_run :: "'p crawl \<Rightarrow> 'p crawl \<Rightarrow> bool" where
  "same_run c c' \<longleftrightarrow>
     hp_contacted (cr_nearest c') = hp_contacted (cr_nearest c) \<and>
     cr_ask_everyone c' = cr_ask_everyone c \<and> cr_last_ids_crawled c' = cr_last_ids_crawled c \<and>
     cr_alpha c' = cr_alpha c \<and> cr_node c' = cr_node c \<and> cr_ksize c' = cr_ksize c \<and>
     hp_node (cr_nearest c') = hp_node (cr_nearest c) \<and> hp_maxsize (cr_nearest c') = hp_maxsize (cr_nearest c)"

lemma same_run_refl [simp]: "same_run c c"
  by (simp add: same_run_def)

lemma same_run_trans: "same_run a b \<Longrightarrow> same_run b c \<Longrightarrow> same_run a c"
  by (simp add: same_run_def)

lemma same_run_add_reported [simp]: "same_run c (add_reported P c ns)"
  by (simp add: same_run_def add_reported_def Let_def case_prod_beta)

lemma same_run_remove_failed [simp]: "same_run c (remove_failed c ps)"
  by (simp add: same_run_def remove_failed_def)

definition crawl_measure :: "'p crawl \<Rightarrow> nat" where
  "crawl_measure c =
     2 * card (- hp_contacted (cr_nearest c)) +
     (if cr_ask_everyone c \<or> heap_get_ids (cr_nearest c) = cr_last_ids_crawled c then 0 else 1)"

lemma next_peers_uncontacted:
  assumes "snd (next_peers c limit) = ps"
  shows "nid ` set ps \<inter> hp_contacted (cr_nearest c) = {}"
    and "hp_contacted (cr_nearest (fst (next_peers c limit))) = hp_contacted (cr_nearest c) \<union> nid ` set ps"
  using assms
  by (auto simp: next_peers_def Let_def heap_get_uncontacted_def mark_all_contacted dest: in_set_takeD)

lemma next_peers_frame [simp]:
  "cr_ask_everyone (fst (next_peers c limit)) = cr_ask_everyone c"
  "cr_alpha (fst (next_peers c limit)) = cr_alpha c"
  "cr_node (fst (next_peers c limit)) = cr_node c"
  "cr_ksize (fst (next_peers c limit)) = cr_ksize c"
  "cr_failed (fst (next_peers c limit)) = cr_failed c"
  "cr_protocol (fst (next_peers c limit)) = cr_protocol c"
  "cr_last_ids_crawled (fst (next_peers c limit)) = heap_get_ids (cr_nearest c)"
  by (simp_all add: next_peers_def Let_def)

lemma heap_len_pos: "heap_get_uncontacted h \<noteq> [] \<Longrightarrow> 0 < heap_len h"
  by (cases "hp_maxsize h"; cases "hp_entries h") (auto simp: heap_get_uncontacted_def heap_iter_def heap_len_def)

lemma next_peers_nearest:
  "cr_nearest (fst (next_peers c limit)) = foldl heap_mark_contacted (cr_nearest c) (snd (next_peers c limit))"
  by (simp add: next_peers_def Let_def)

lemma next_peers_none:
  assumes "snd (next_peers c limit) = []" "limit \<noteq> Some 0" "heap_get_uncontacted (cr_nearest c) \<noteq> []"
  shows "\<not> cr_ask_everyone c \<and> heap_get_ids (cr_nearest c) \<noteq> cr_last_ids_crawled c"
    and "cr_nearest (fst (next_peers c limit)) = cr_nearest c"
  using assms heap_len_pos [OF assms(3)]
  by (auto simp: next_peers_def Let_def split: option.splits if_splits)

lemma round_decreases:
  assumes run: "same_run (fst (next_peers c limit)) c'" and lim: "limit \<noteq> Some 0"
    and idle: "snd (next_peers c limit) = [] \<Longrightarrow> cr_nearest c' = cr_nearest (fst (next_peers c limit))"
    and more: "heap_get_uncontacted (cr_nearest c) \<noteq> [] \<or> heap_get_uncontacted (cr_nearest c') \<noteq> []"
  shows "crawl_measure c' < crawl_measure c"
proof (cases "snd (next_peers c limit) = []")
  case True
  have same: "cr_nearest c' = cr_nearest c"
    using idle [OF True] by (simp add: next_peers_nearest True)
  have "heap_get_uncontacted (cr_nearest c) \<noteq> []" using more same by simp
  note none = next_peers_none [OF True lim this]
  have "cr_last_ids_crawled c' = heap_get_ids (cr_nearest c)" using run by (simp add: same_run_def)
  then show ?thesis using none same by (simp add: crawl_measure_def)
next
  case False
  let ?ps = "snd (next_peers c limit)"
  note U = next_peers_uncontacted [OF refl, of c limit]
  have "hp_contacted (cr_nearest c') = hp_contacted (cr_nearest c) \<union> nid ` set ?ps"
    using run U(2) by (simp add: same_run_def)
  moreover obtain n where "n \<in> set ?ps" using False by (cases ?ps) auto
  ultimately have "- hp_contacted (cr_nearest c') \<subset> - hp_contacted (cr_nearest c)" using U(1) by blast
  then have "card (- hp_contacted (cr_nearest c')) < card (- hp_contacted (cr_nearest c))"
    by (rule psubset_card_mono [rotated]) simp
  then show ?thesis by (simp add: crawl_measure_def)
qed

subsection \<open>The node lookup\<close>

fun node_responses ::
    "'p spider \<Rightarrow> 'p crawl \<Rightarrow> node_id list \<Rightarrow> (node_id \<times> raw_response) list \<Rightarrow> 'p crawl \<times> node_id list" where
  "node_responses P c to_remove [] = (c, to_remove)"
| "node_responses P c to_remove ((peer_id, raw) # rs) =
     (if \<not> happened raw then node_responses P c (to_remove @ [peer_id]) rs
      else node_responses P (add_reported P c (get_node_list raw)) to_remove rs)"

definition node_round :: "'p spider \<Rightarrow> 'p crawl \<Rightarrow> 'p crawl" where
  "node_round P c =
     (let (c1, responses) = find_round P (sp_find_nodes P) c;
          (c2, to_remove) = node_responses P c1 [] responses
      in remove_failed c2 to_remove)"

lemma same_run_node_responses: "same_run c (fst (node_responses P c rm rs))"
  by (induction P c rm rs rule: node_responses.induct)
    (auto intro: same_run_trans [OF same_run_add_reported])

lemma find_round_limited_fst:
  "\<exists>p. fst (find_round_limited P rpc c limit) = (fst (next_peers c limit))\<lparr>cr_protocol := p\<rparr>"
  "snd (next_peers c limit) = [] \<Longrightarrow> snd (find_round_limited P rpc c limit) = []"
  by (auto simp: find_round_limited_def Let_def case_prod_beta)

lemma same_run_protocol [simp]: "same_run c (c\<lparr>cr_protocol := p\<rparr>)"
  by (simp add: same_run_def)

lemma same_run_find_round: "same_run (fst (next_peers c limit)) (fst (find_round_limited P rpc c limit))"
  using find_round_limited_fst(1) [of P rpc c limit] by auto

lemma node_round_conv:
  "node_round P c =
     (let c1 = fst (find_round P (sp_find_nodes P) c); rs = snd (find_round P (sp_find_nodes P) c) in
      remove_failed (fst (node_responses P c1 [] rs)) (snd (node_responses P c1 [] rs)))"
  by (simp add: node_round_def Let_def case_prod_beta)

lemma node_round_run: "same_run (fst (next_peers c None)) (node_round P c)"
  unfolding node_round_conv find_round_def Let_def
  by (rule same_run_trans [OF same_run_find_round same_run_trans [OF same_run_node_responses same_run_remove_failed]])

lemma node_round_decreases:
  assumes "\<not> heap_have_contacted_all (cr_nearest (node_round P c))"
  shows "crawl_measure (node_round P c) < crawl_measure c"
proof (rule round_decreases [of _ None])
  show "same_run (fst (next_peers c None)) (node_round P c)" by (rule node_round_run)
  show "cr_nearest (node_round P c) = cr_nearest (fst (next_peers c None))" if "snd (next_peers c None) = []"
    using find_round_limited_fst(1) [of P "sp_find_nodes P" c None]
      find_round_limited_fst(2) [OF that, of P "sp_find_nodes P"]
    by (auto simp: node_round_conv find_round_def remove_failed_def heap_remove_def)
  show "heap_get_uncontacted (cr_nearest c) \<noteq> [] \<or> heap_get_uncontacted (cr_nearest (node_round P c)) \<noteq> []"
    using assms by (simp add: heap_have_contacted_all_def)
qed simp

function find_lookup_nodes :: "'p spider \<Rightarrow> 'p crawl \<Rightarrow> 'p crawl \<times> lookup_nodes" where
  "find_lookup_nodes P c =
     (let c1 = node_round P c in
      if heap_have_contacted_all (cr_nearest c1) then (c1, crawl_lookup_nodes c1)
      else find_lookup_nodes P c1)"
  by pat_completeness auto
termination
  by (relation "measure (\<lambda>(P, c). crawl_measure c)") (auto simp: node_round_decreases)

declare find_lookup_nodes.simps [simp del]

definition node_find :: "'p spider \<Rightarrow> 'p crawl \<Rightarrow> 'p crawl \<times> node list" where
  "node_find P c = (let (c', r) = find_lookup_nodes P c in (c', lk_nodes r))"

subsection \<open>The value lookup\<close>

record 'p value_crawl =
  vc_base :: "'p crawl"
  vc_nearest_without_value :: node_heap

definition value_crawl_new :: "'p \<Rightarrow> node \<Rightarrow> node list \<Rightarrow> nat \<Rightarrow> nat \<Rightarrow> 'p value_crawl" where
  "value_crawl_new p n peers ksize alpha =
     \<lparr>vc_base = crawl_new p n peers ksize alpha, vc_nearest_without_value = heap_new n 1\<rparr>"

fun value_responses ::
    "'p spider \<Rightarrow> 'p value_crawl \<Rightarrow> node_id list \<Rightarrow> bytes list \<Rightarrow> (node_id \<times> raw_response) list \<Rightarrow>
     'p value_crawl \<times> node_id list \<times> bytes list" where
  "value_responses P vc to_remove found [] = (vc, to_remove, found)"
| "value_responses P vc to_remove found ((peer_id, raw) # rs) =
     (if \<not> happened raw then value_responses P vc (to_remove @ [peer_id]) found rs
      else if has_value raw then
        value_responses P vc to_remove
          (case get_value raw of Some v \<Rightarrow> found @ [v] | None \<Rightarrow> found) rs
      else
        (let vc1 = (case heap_get_node (cr_nearest (vc_base vc)) peer_id of
                      Some peer \<Rightarrow>
                        vc\<lparr>vc_nearest_without_value := heap_push_one (vc_nearest_without_value vc) peer\<rparr>
                    | None \<Rightarrow> vc)
         in value_responses P (vc1\<lparr>vc_base := add_reported P (vc_base vc1) (get_node_list raw)\<rparr>)
              to_remove found rs))"

definition value_round :: "'p spider \<Rightarrow> 'p value_crawl \<Rightarrow> 'p value_crawl \<times> bytes list" where
  "value_round P vc =
     (let (c1, responses) = find_round P (sp_find_values P) (vc_base vc);
          (vc2, to_remove, found) = value_responses P (vc\<lparr>vc_base := c1\<rparr>) [] [] responses
      in (vc2\<lparr>vc_base := remove_failed (vc_base vc2) to_remove\<rparr>, found))"

lemma same_run_value_responses:
  "same_run (vc_base vc) (vc_base (fst (value_responses P vc rm fs rs)))"
proof (induction P vc rm fs rs rule: value_responses.induct)
  case (2 P vc to_remove found peer_id raw rs)
  then show ?case
    by (auto simp: Let_def split: option.splits intro: same_run_trans [OF same_run_add_reported])
qed simp

lemma value_round_decreases:
  assumes "\<not> heap_have_contacted_all (cr_nearest (vc_base (fst (value_round P vc))))"
  shows "crawl_measure (vc_base (fst (value_round P vc))) < crawl_measure (vc_base vc)"
proof (rule round_decreases [of _ None])
  let ?c1 = "fst (find_round P (sp_find_values P) (vc_base vc))"
  let ?res = "value_responses P (vc\<lparr>vc_base := ?c1\<rparr>) [] [] (snd (find_round P (sp_find_values P) (vc_base vc)))"
  have r: "vc_base (fst (value_round P vc)) = remove_failed (vc_base (fst ?res)) (fst (snd ?res))"
    by (simp add: value_round_def Let_def case_prod_beta)
  have "same_run ?c1 (vc_base (fst ?res))" using same_run_value_responses [of "vc\<lparr>vc_base := ?c1\<rparr>"] by simp
  then show "same_run (fst (next_peers (vc_base vc) None)) (vc_base (fst (value_round P vc)))"
    unfolding r find_round_def
    by (blast intro: same_run_trans same_run_find_round same_run_remove_failed)
  show "cr_nearest (vc_base (fst (value_round P vc))) = cr_nearest (fst (next_peers (vc_base vc) None))"
    if "snd (next_peers (vc_base vc) None) = []"
    using find_round_limited_fst(1) [of P "sp_find_values P" "vc_base vc" None]
      find_round_limited_fst(2) [OF that, of P "sp_find_values P"]
    by (auto simp: r find_round_def remove_failed_def heap_remove_def)
  show "heap_get_uncontacted (cr_nearest (vc_base vc)) \<noteq> [] \<or>
      heap_get_uncontacted (cr_nearest (vc_base (fst (value_round P vc)))) \<noteq> []"
    using assms by (simp add: heap_have_contacted_all_def)
qed simp

definition empty_lookup :: lookup_nodes where
  "empty_lookup = \<lparr>lk_nodes = [], lk_unresponsive = 0\<rparr>"

text \<open>What the lookup does once a round has returned values: store a copy and return.\<close>

definition value_finish ::
    "'p spider \<Rightarrow> 'p value_crawl \<Rightarrow> bytes list \<Rightarrow> 'p value_crawl \<times> bytes option \<times> lookup_nodes" where
  "value_finish P vc found =
     (case strict_quorum_value found 1 of
        None \<Rightarrow> (vc, None, crawl_lookup_nodes (vc_base vc))
      | Some v \<Rightarrow>
          (case heap_popleft (vc_nearest_without_value vc) of
             (h, Some peer) \<Rightarrow>
               (let c = vc_base vc; (p, _) = sp_store P (cr_protocol c) peer (nid (cr_node c)) v
                in (vc\<lparr>vc_base := c\<lparr>cr_protocol := p\<rparr>, vc_nearest_without_value := h\<rparr>, Some v, empty_lookup))
           | (h, None) \<Rightarrow> (vc\<lparr>vc_nearest_without_value := h\<rparr>, Some v, empty_lookup)))"

function value_find :: "'p spider \<Rightarrow> 'p value_crawl \<Rightarrow> 'p value_crawl \<times> bytes option \<times> lookup_nodes" where
  "value_find P vc =
     (let (vc1, found) = value_round P vc in
      if found \<noteq> [] then value_finish P vc1 found
      else if heap_have_contacted_all (cr_nearest (vc_base vc1))
      then (vc1, None, crawl_lookup_nodes (vc_base vc1))
      else value_find P vc1)"
  by pat_completeness auto
termination
proof (relation "measure (\<lambda>(P, vc). crawl_measure (vc_base vc))", goal_cases)
  case (2 P vc x vc1 found)
  then show ?case using value_round_decreases [of P vc] by (metis case_prod_conv fst_conv in_measure)
qed simp

declare value_find.simps [simp del]

subsection \<open>The search that hears every peer\<close>

datatype 'p search_round_result =
  Return 'p value_search | Continue 'p "node_id list" bool

text \<open>
  The inner loop over the completions of one round. Without a deadline no wait times out.
  \<open>waiting\<close> are the peers still to answer; the end of the list is \<open>join_next\<close> returning \<open>None\<close>.
  \<open>accept\<close> is an asynchronous closure: it may run the protocol on.
\<close>

type_synonym 'p acceptance = "'p \<Rightarrow> bytes \<Rightarrow> 'p \<times> bytes option"

fun search_events ::
    "'p spider \<Rightarrow> 'p acceptance \<Rightarrow> 'p crawl \<Rightarrow> node list \<Rightarrow> node_id list \<Rightarrow> bool \<Rightarrow>
     join_event list \<Rightarrow> 'p crawl search_round_result" where
  "search_events P accept c waiting to_remove incomplete [] = Continue c to_remove incomplete"
| "search_events P accept c waiting to_remove incomplete (Cancelled # evs) =
     search_events P accept c waiting to_remove incomplete evs"
| "search_events P accept c waiting to_remove incomplete (TimedOut silent # evs) =
     Return
       (if silent then c\<lparr>cr_protocol := sp_note_no_answer P (cr_protocol c) waiting\<rparr> else c)
       Incomplete"
| "search_events P accept c waiting to_remove incomplete (Answer peer_id raw # evs) =
     (let waiting' = filter (\<lambda>n. nid n \<noteq> peer_id) waiting in
      if \<not> happened raw then search_events P accept c waiting' (to_remove @ [peer_id]) True evs
      else (case get_value raw of
              Some v \<Rightarrow>
                (case accept (cr_protocol c) v of
                   (p, Some accepted) \<Rightarrow> Return (c\<lparr>cr_protocol := p\<rparr>) (Found accepted)
                 | (p, None) \<Rightarrow>
                     search_events P accept (c\<lparr>cr_protocol := p\<rparr>) waiting' to_remove incomplete evs)
            | None \<Rightarrow>
                search_events P accept (add_reported P c (get_node_list raw)) waiting' to_remove
                  incomplete evs))"

definition search_round ::
    "'p spider \<Rightarrow> bool \<Rightarrow> 'p acceptance \<Rightarrow> 'p crawl \<Rightarrow> bool \<Rightarrow> 'p crawl search_round_result" where
  "search_round P deadline accept c incomplete =
     (let (c1, peers) = next_peers c None;
          (p, evs) = (if peers = [] then (cr_protocol c1, []) else sp_join P (cr_protocol c1) peers (cr_node c1))
      in search_events P accept (c1\<lparr>cr_protocol := p\<rparr>) peers [] incomplete
           (if deadline then evs else filter (\<lambda>e. \<not> is_TimedOut e) evs))"

lemma search_events_Continue:
  "search_events P accept c w rm inc evs = Continue c' rm' inc' \<Longrightarrow> same_run c c'"
proof (induction evs arbitrary: c w rm inc)
  case (Cons e evs)
  from Cons.prems show ?case
    by (cases e) (auto simp: Let_def split: if_splits option.splits prod.splits dest!: Cons.IH
        intro: same_run_trans [OF same_run_add_reported] same_run_trans [OF same_run_protocol])
qed simp

lemma search_round_decreases:
  assumes "search_round P deadline accept c inc = Continue c' rm inc'"
    and "\<not> heap_have_contacted_all (cr_nearest c)"
  shows "crawl_measure (remove_failed c' rm) < crawl_measure c"
proof (rule round_decreases [of _ None])
  obtain p evs where ev: "search_events P accept ((fst (next_peers c None))\<lparr>cr_protocol := p\<rparr>)
      (snd (next_peers c None)) [] inc (if snd (next_peers c None) = [] then [] else evs) = Continue c' rm inc'"
    using assms(1) by (cases "snd (next_peers c None) = []"; cases deadline)
      (force simp: search_round_def Let_def case_prod_beta)+
  then show "same_run (fst (next_peers c None)) (remove_failed c' rm)"
    using search_events_Continue same_run_trans same_run_protocol same_run_remove_failed by metis
  show "cr_nearest (remove_failed c' rm) = cr_nearest (fst (next_peers c None))" if "snd (next_peers c None) = []"
    using ev that by (auto simp: remove_failed_def heap_remove_def)
  show "heap_get_uncontacted (cr_nearest c) \<noteq> [] \<or> heap_get_uncontacted (cr_nearest (remove_failed c' rm)) \<noteq> []"
    using assms(2) by (simp add: heap_have_contacted_all_def)
qed simp

function search ::
    "'p spider \<Rightarrow> bool \<Rightarrow> 'p acceptance \<Rightarrow> 'p crawl \<Rightarrow> bool \<Rightarrow> 'p crawl \<times> value_search" where
  "search P deadline accept c incomplete =
     (if heap_have_contacted_all (cr_nearest c) then (c, if incomplete then Incomplete else NotFound)
      else if deadline \<and> sp_deadline_passed P (cr_protocol c) then (c, Incomplete)
      else
        (case search_round P deadline accept c incomplete of
           Return c' r \<Rightarrow> (c', r)
         | Continue c' to_remove incomplete' \<Rightarrow>
             search P deadline accept (remove_failed c' to_remove) incomplete'))"
  by pat_completeness auto
termination
  by (relation "measure (\<lambda>(P, d, a, c, i). crawl_measure c)") (auto simp: search_round_decreases)

declare search.simps [simp del]

definition find_first_valid :: "'p spider \<Rightarrow> 'p acceptance \<Rightarrow> 'p crawl \<Rightarrow> 'p crawl \<times> bytes option" where
  "find_first_valid P accept c =
     (case search P False accept c False of
        (c', Found v) \<Rightarrow> (c', Some v)
      | (c', NotFound) \<Rightarrow> (c', None)
      | (c', Incomplete) \<Rightarrow> (c', None))"

subsection \<open>The quorum lookup\<close>

fun quorum_responses ::
    "'p spider \<Rightarrow> 'p crawl \<Rightarrow> node_id list \<Rightarrow> bytes list \<Rightarrow> (node_id \<times> raw_response) list \<Rightarrow>
     'p crawl \<times> node_id list \<times> bytes list" where
  "quorum_responses P c to_remove found [] = (c, to_remove, found)"
| "quorum_responses P c to_remove found ((peer_id, raw) # rs) =
     (if \<not> happened raw then quorum_responses P c (to_remove @ [peer_id]) found rs
      else (case get_value raw of
              Some v \<Rightarrow> quorum_responses P c to_remove (found @ [v]) rs
            | None \<Rightarrow> quorum_responses P (add_reported P c (get_node_list raw)) to_remove found rs))"

definition quorum_round ::
    "'p spider \<Rightarrow> 'p crawl \<Rightarrow> nat \<Rightarrow> bytes list \<Rightarrow> 'p crawl \<times> bytes list" where
  "quorum_round P c remaining_votes found =
     (let (c1, responses) = find_round_limited P (sp_find_values P) c (Some remaining_votes);
          (c2, to_remove, found') = quorum_responses P c1 [] found responses
      in (remove_failed c2 to_remove, found'))"

lemma same_run_quorum_responses: "same_run c (fst (quorum_responses P c rm fs rs))"
proof (induction P c rm fs rs rule: quorum_responses.induct)
  case (2 P c to_remove found peer_id raw rs)
  then show ?case by (auto split: option.splits intro: same_run_trans [OF same_run_add_reported])
qed simp

lemma quorum_round_decreases:
  assumes "0 < remaining" "\<not> heap_have_contacted_all (cr_nearest c)"
  shows "crawl_measure (fst (quorum_round P c remaining found)) < crawl_measure c"
proof (rule round_decreases [of _ "Some remaining"])
  let ?c1 = "fst (find_round_limited P (sp_find_values P) c (Some remaining))"
  let ?res = "quorum_responses P ?c1 [] found (snd (find_round_limited P (sp_find_values P) c (Some remaining)))"
  have r: "fst (quorum_round P c remaining found) = remove_failed (fst ?res) (fst (snd ?res))"
    by (simp add: quorum_round_def Let_def case_prod_beta)
  show "same_run (fst (next_peers c (Some remaining))) (fst (quorum_round P c remaining found))"
    unfolding r
    by (rule same_run_trans [OF same_run_find_round same_run_trans [OF same_run_quorum_responses same_run_remove_failed]])
  show "cr_nearest (fst (quorum_round P c remaining found)) = cr_nearest (fst (next_peers c (Some remaining)))"
    if "snd (next_peers c (Some remaining)) = []"
    using find_round_limited_fst(1) [of P "sp_find_values P" c "Some remaining"]
      find_round_limited_fst(2) [OF that, of P "sp_find_values P"]
    by (auto simp: r remove_failed_def heap_remove_def)
qed (use assms in \<open>auto simp: heap_have_contacted_all_def\<close>)

function find_quorum ::
    "'p spider \<Rightarrow> 'p crawl \<Rightarrow> bytes list \<Rightarrow> nat \<Rightarrow> nat \<Rightarrow> 'p crawl \<times> bytes option" where
  "find_quorum P c found minimum_votes maximum_votes =
     (case strict_quorum_value found minimum_votes of
        Some v \<Rightarrow> (c, Some v)
      | None \<Rightarrow>
          (let remaining_votes = maximum_votes - length found in
           if remaining_votes = 0 \<or> heap_have_contacted_all (cr_nearest c) then (c, None)
           else
             (let (c', found') = quorum_round P c remaining_votes found
              in find_quorum P c' found' minimum_votes maximum_votes)))"
  by pat_completeness auto
termination
proof (relation "measure (\<lambda>(P, c, f, mi, ma). crawl_measure c)", goal_cases)
  case (2 P c found minimum_votes maximum_votes remaining x c' found')
  then have "fst (quorum_round P c remaining found) = c'" by (metis fst_conv)
  then show ?case using quorum_round_decreases [of remaining c P found] 2 by auto
qed simp

declare find_quorum.simps [simp del]

end
