(* ===== verification/CrawlProps.thy ===== *)
theory CrawlProps
  imports Crawling
begin

text \<open>
  The properties of the lookups. The node lookup returns only peers that answered and asks each
  peer once; a quorum value has a strict majority of at most the allowed number of votes, one per
  peer; a search that reports \<open>NotFound\<close> has heard every peer it asked.

  Who answered is read off a log that an instrumented environment keeps beside the protocol state.
\<close>

subsection \<open>Counting votes\<close>

lemma count_votes_map:
  "map_of (count_votes vs cs) v =
     (if v \<in> set vs \<or> map_of cs v \<noteq> None
      then Some ((case map_of cs v of None \<Rightarrow> 0 | Some n \<Rightarrow> n) + count_list vs v) else None)"
proof (induction vs cs rule: count_votes.induct)
  case (2 w vs cs)
  then show ?case by (auto simp: update_conv' split: option.splits)
qed (auto split: option.split)

lemma count_votes_distinct: "distinct (map fst cs) \<Longrightarrow> distinct (map fst (count_votes vs cs))"
  by (induction vs cs rule: count_votes.induct) (simp_all add: distinct_update)

lemma count_votes_entries:
  "(v, n) \<in> set (count_votes vs []) \<longleftrightarrow> v \<in> set vs \<and> n = count_list vs v"
proof -
  have d: "distinct (map fst (count_votes vs []))" by (rule count_votes_distinct) simp
  show ?thesis using map_of_eq_Some_iff [OF d, of v n] by (auto simp: count_votes_map split: if_splits)
qed

lemma two_values_share: "v \<noteq> w \<Longrightarrow> count_list vs v + count_list vs w \<le> length vs"
  by (induction vs) auto

lemma majority_unique:
  assumes "length vs div 2 + 1 \<le> count_list vs v" "w \<noteq> v"
  shows "count_list vs w < count_list vs v"
  using two_values_share [OF assms(2), of vs] assms(1) by linarith

lemma count_list_pos: "0 < count_list vs v \<Longrightarrow> v \<in> set vs"
  by (metis count_notin less_irrefl)

lemma distinct_singleton_list: "set xs = {a} \<Longrightarrow> distinct xs \<Longrightarrow> xs = [a]"
  by (cases xs) (auto simp: subset_singleton_iff)

lemma strict_quorum_iff:
  "strict_quorum_value vs m = Some v \<longleftrightarrow> max m (length vs div 2 + 1) \<le> count_list vs v"
proof -
  let ?cs = "count_votes vs []" and ?req = "max m (length vs div 2 + 1)"
  define hi where "hi = Max (set (map snd ?cs))"
  have d: "distinct (map fst ?cs)" by (rule count_votes_distinct) simp
  have snds: "set (map snd ?cs) = count_list vs ` set vs" using count_votes_entries by force
  have ne: "?cs = [] \<longleftrightarrow> vs = []" using snds by auto
  have sq: "strict_quorum_value vs m =
      (if ?cs = [] then None else if hi < ?req then None
       else (case filter (\<lambda>(_, n). n = hi) ?cs of [(winner, _)] \<Rightarrow> Some winner | _ \<Rightarrow> None))"
    by (simp only: strict_quorum_value_def Let_def hi_def)
  show ?thesis
  proof
    assume R: "strict_quorum_value vs m = Some v"
    then have "hi \<ge> ?req" "\<exists>n. filter (\<lambda>(_, n). n = hi) ?cs = [(v, n)]"
      unfolding sq by (auto split: if_splits list.splits)
    then obtain n where f: "filter (\<lambda>(_, n). n = hi) ?cs = [(v, n)]" and req: "hi \<ge> ?req" by blast
    have "(v, n) \<in> set (filter (\<lambda>(_, n). n = hi) ?cs)" unfolding f by simp
    with req show "?req \<le> count_list vs v" by (auto simp: count_votes_entries)
  next
    assume R: "?req \<le> count_list vs v"
    then have v: "v \<in> set vs" by (intro count_list_pos) simp
    have less: "count_list vs w < count_list vs v" if "w \<noteq> v" for w
      using majority_unique [OF _ that] R by simp
    have le: "count_list vs w \<le> count_list vs v" for w
      using less [of w] by (cases "w = v") auto
    have hi: "hi = count_list vs v" unfolding hi_def snds using v le by (intro Max_eqI) auto
    have "filter (\<lambda>(_, n). n = hi) ?cs = [(v, hi)]"
    proof -
      have "set (filter (\<lambda>(_, n). n = hi) ?cs) = {(v, hi)}"
        using count_votes_entries [of _ _ vs] less hi v by (auto simp: count_votes_entries) (metis less_irrefl)
      moreover have "distinct (filter (\<lambda>(_, n). n = hi) ?cs)" using d by (simp add: distinct_map)
      ultimately show ?thesis by (intro distinct_singleton_list)
    qed
    then show "strict_quorum_value vs m = Some v"
      using R hi v ne unfolding sq by auto
  qed
qed

subsection \<open>An environment that keeps a log\<close>

type_synonym ask_log = "(node_id \<times> raw_response) list"

fun answers :: "join_event list \<Rightarrow> ask_log" where
  "answers [] = []"
| "answers (Answer i raw # evs) = (i, raw) # answers evs"
| "answers (_ # evs) = answers evs"

definition log_batch ::
    "('p \<Rightarrow> node list \<Rightarrow> node \<Rightarrow> 'p \<times> raw_response list) \<Rightarrow>
     'p \<times> ask_log \<Rightarrow> node list \<Rightarrow> node \<Rightarrow> ('p \<times> ask_log) \<times> raw_response list" where
  "log_batch rpc = (\<lambda>(p, l) ps t. let (p', rs) = rpc p ps t in ((p', l @ zip (map nid ps) rs), rs))"

definition logged :: "'p spider \<Rightarrow> ('p \<times> ask_log) spider" where
  "logged P =
     \<lparr>sp_find_nodes = log_batch (sp_find_nodes P),
      sp_find_values = log_batch (sp_find_values P),
      sp_join = (\<lambda>(p, l) ps t. let (p', evs) = sp_join P p ps t in ((p', l @ answers evs), evs)),
      sp_store = (\<lambda>(p, l) n k v. let (p', b) = sp_store P p n k v in ((p', l), b)),
      sp_failing_among = (\<lambda>(p, l) ns. let (p', f) = sp_failing_among P p ns in ((p', l), f)),
      sp_note_no_answer = (\<lambda>(p, l) ns. (sp_note_no_answer P p ns, l)),
      sp_deadline_passed = (\<lambda>(p, l). sp_deadline_passed P p),
      sp_order = (\<lambda>(p, l). sp_order P p)\<rparr>"

text \<open>\<open>join_all\<close> returns one answer per request.\<close>

definition answers_all :: "('p \<Rightarrow> node list \<Rightarrow> node \<Rightarrow> 'p \<times> raw_response list) \<Rightarrow> bool" where
  "answers_all rpc \<longleftrightarrow> (\<forall>p ps t. length (snd (rpc p ps t)) = length ps)"

abbreviation the_log :: "('p \<times> ask_log) crawl \<Rightarrow> ask_log" where
  "the_log c \<equiv> snd (cr_protocol c)"

definition silent_ids :: "ask_log \<Rightarrow> node_id set" where
  "silent_ids l = {i. \<exists>r. (i, r) \<in> set l \<and> \<not> happened r}"

definition heap_ids :: "node_heap \<Rightarrow> node_id set" where
  "heap_ids h = nid ` set (heap_nodes h)"

definition crawl_ok :: "('p \<times> ask_log) crawl \<Rightarrow> bool" where
  "crawl_ok c \<longleftrightarrow>
     heap_inv (cr_nearest c) \<and> distinct (map fst (the_log c)) \<and>
     fst ` set (the_log c) = hp_contacted (cr_nearest c) \<and>
     cr_failed c = silent_ids (the_log c) \<and> heap_ids (cr_nearest c) \<inter> cr_failed c = {}"

text \<open>What handling answers keeps: nothing is asked, and no failed peer comes back.\<close>

definition quiet :: "('p \<times> ask_log) crawl \<Rightarrow> ('p \<times> ask_log) crawl \<Rightarrow> bool" where
  "quiet c c' \<longleftrightarrow>
     the_log c' = the_log c \<and> cr_failed c' = cr_failed c \<and>
     hp_contacted (cr_nearest c') = hp_contacted (cr_nearest c) \<and>
     (heap_inv (cr_nearest c) \<longrightarrow> heap_inv (cr_nearest c') \<and>
        heap_ids (cr_nearest c') \<subseteq> heap_ids (cr_nearest c) \<union> - cr_failed c)"

lemma quiet_refl [simp]: "quiet c c"
  by (simp add: quiet_def)

lemma quiet_trans: "quiet a b \<Longrightarrow> quiet b c \<Longrightarrow> quiet a c"
  unfolding quiet_def by auto

lemma heap_ids_push:
  "heap_inv h \<Longrightarrow> heap_ids (heap_push h ns) \<subseteq> heap_ids h \<union> nid ` set ns"
  using set_heap_push_subset [of h ns] by (auto simp: heap_ids_def)

lemma quiet_add_reported: "quiet c (add_reported (logged P) c ns)"
proof -
  have "heap_ids (heap_push h (filter (\<lambda>n. nid n \<notin> cr_failed c \<and> nid n \<notin> f) ns)) \<subseteq> heap_ids h \<union> - cr_failed c"
    if "heap_inv h" for h f
    using heap_ids_push [OF that, of "filter (\<lambda>n. nid n \<notin> cr_failed c \<and> nid n \<notin> f) ns"] by auto
  then show ?thesis
    by (auto simp: quiet_def add_reported_def logged_def Let_def case_prod_beta heap_push_inv)
qed

lemma node_responses_quiet:
  "quiet c (fst (node_responses (logged P) c rm rs))"
  "set (snd (node_responses (logged P) c rm rs)) = set rm \<union> silent_ids rs"
proof (induction "logged P" c rm rs rule: node_responses.induct)
  case (2 c rm i raw rs)
  {
    case 1
    show ?case using "2.hyps" by (auto intro: quiet_trans [OF quiet_add_reported])
  next
    case 2
    show ?case using "2.hyps" by (auto simp: silent_ids_def)
  }
qed (auto simp: silent_ids_def)

lemma silent_ids_append [simp]: "silent_ids (l @ l') = silent_ids l \<union> silent_ids l'"
  by (auto simp: silent_ids_def)

lemma silent_ids_cong: "set l = set l' \<Longrightarrow> silent_ids l = silent_ids l'"
  by (simp add: silent_ids_def)

text \<open>The state between sending a round's requests and handling its answers.\<close>

definition asked_ok :: "('p \<times> ask_log) crawl \<Rightarrow> ('p \<times> ask_log) crawl \<Rightarrow> ask_log \<Rightarrow> bool" where
  "asked_ok c c1 rs \<longleftrightarrow>
     (\<exists>new. the_log c1 = the_log c @ new \<and> mset rs = mset new \<and> cr_failed c1 = silent_ids (the_log c)) \<and>
     heap_inv (cr_nearest c1) \<and> distinct (map fst (the_log c1)) \<and>
     fst ` set (the_log c1) = hp_contacted (cr_nearest c1) \<and> heap_ids (cr_nearest c1) \<inter> cr_failed c1 = {}"

lemma mark_all_inv: "heap_inv h \<Longrightarrow> heap_inv (foldl heap_mark_contacted h ps)"
  by (induction ps arbitrary: h) (auto intro: heap_mark_contacted_inv)

lemma next_peers_distinct:
  assumes "heap_inv (cr_nearest c)"
  shows "distinct (map nid (snd (next_peers c limit)))"
proof -
  have "distinct (map nid (heap_get_uncontacted (cr_nearest c)))"
    using heap_inv_nodes(2) [OF assms]
    by (simp add: heap_get_uncontacted_def heap_iter_nodes [OF assms] distinct_map_filter)
  then show ?thesis by (simp add: next_peers_def Let_def) (metis distinct_take take_map)
qed

lemma asked_okI:
  assumes ok: "crawl_ok c"
    and c1: "c1 = (fst (next_peers c limit))\<lparr>cr_protocol := (p', the_log c @ new)\<rparr>"
    and ids: "fst ` set new = nid ` set (snd (next_peers c limit))" and d: "distinct (map fst new)"
    and rs: "mset rs = mset new"
  shows "asked_ok c c1 rs"
proof -
  let ?ps = "snd (next_peers c limit)" and ?n = "fst (next_peers c limit)"
  have inv: "heap_inv (cr_nearest c)" using ok by (simp add: crawl_ok_def)
  have U: "nid ` set ?ps \<inter> hp_contacted (cr_nearest c) = {}"
    "hp_contacted (cr_nearest ?n) = hp_contacted (cr_nearest c) \<union> nid ` set ?ps"
    by (rule next_peers_uncontacted [OF refl])+
  have old: "distinct (map fst (the_log c))" "fst ` set (the_log c) = hp_contacted (cr_nearest c)"
    "cr_failed c = silent_ids (the_log c)" "heap_ids (cr_nearest c) \<inter> silent_ids (the_log c) = {}"
    using ok by (auto simp: crawl_ok_def)
  have "distinct (map fst (the_log c @ new))" using old(1) d U(1) old(2) ids by (simp add: Int_commute)
  moreover have "fst ` set (the_log c @ new) = hp_contacted (cr_nearest ?n)" using U(2) old(2) ids by (simp add: image_Un)
  moreover have "heap_inv (cr_nearest ?n)" by (simp add: next_peers_nearest mark_all_inv [OF inv])
  moreover have "heap_ids (cr_nearest ?n) = heap_ids (cr_nearest c)"
    by (simp add: next_peers_nearest heap_ids_def heap_nodes_def)
  ultimately show ?thesis using old(3,4) rs by (simp add: asked_ok_def c1)
qed

lemma find_round_asked:
  assumes ok: "crawl_ok c" and all: "answers_all rpc"
  shows "asked_ok c (fst (find_round_limited (logged P) (log_batch rpc) c limit))
    (snd (find_round_limited (logged P) (log_batch rpc) c limit))"
proof -
  let ?ps = "snd (next_peers c limit)"
  obtain p l where pl: "cr_protocol c = (p, l)" by (cases "cr_protocol c")
  define raws where "raws = snd (rpc p ?ps (cr_node c))"
  define new where "new = zip (map nid ?ps) raws"
  have len: "length raws = length ?ps" using all by (simp add: answers_all_def raws_def)
  have fst_new: "map fst new = map nid ?ps" using len by (simp add: new_def)
  have inv: "heap_inv (cr_nearest c)" using ok by (simp add: crawl_ok_def)
  show ?thesis
  proof (rule asked_okI [OF ok])
    show "fst (find_round_limited (logged P) (log_batch rpc) c limit) =
        (fst (next_peers c limit))\<lparr>cr_protocol := (fst (rpc p ?ps (cr_node c)), the_log c @ new)\<rparr>"
      by (simp add: find_round_limited_def log_batch_def Let_def case_prod_beta pl raws_def new_def)
    show "fst ` set new = nid ` set ?ps" using fst_new by (metis set_map)
    show "distinct (map fst new)" unfolding fst_new by (rule next_peers_distinct [OF inv])
    show "mset (snd (find_round_limited (logged P) (log_batch rpc) c limit)) = mset new"
      by (simp add: find_round_limited_def log_batch_def Let_def case_prod_beta pl raws_def new_def)
  qed
qed

lemma settle_round:
  assumes asked: "asked_ok c c1 rs" and q: "quiet c1 c2" and rm: "set rm = silent_ids rs"
  shows "crawl_ok (remove_failed c2 rm)"
proof -
  obtain new where new: "the_log c1 = the_log c @ new" "mset rs = mset new" "cr_failed c1 = silent_ids (the_log c)"
    using asked by (auto simp: asked_ok_def)
  have "set rs = set new" using new(2) by (rule mset_eq_setD)
  then have rm': "set rm = silent_ids new" using rm silent_ids_cong by metis
  have Q: "the_log c2 = the_log c1" "cr_failed c2 = cr_failed c1"
    "hp_contacted (cr_nearest c2) = hp_contacted (cr_nearest c1)" "heap_inv (cr_nearest c2)"
    "heap_ids (cr_nearest c2) \<subseteq> heap_ids (cr_nearest c1) \<union> - cr_failed c1"
    using q asked by (auto simp: quiet_def asked_ok_def)
  have A: "distinct (map fst (the_log c1))" "fst ` set (the_log c1) = hp_contacted (cr_nearest c1)"
    "heap_ids (cr_nearest c1) \<inter> cr_failed c1 = {}" using asked by (simp_all add: asked_ok_def)
  have "heap_ids (heap_remove (cr_nearest c2) rm) = heap_ids (cr_nearest c2) - set rm"
    by (auto simp: heap_ids_def heap_nodes_remove)
  then have "heap_ids (heap_remove (cr_nearest c2) rm) \<inter> (cr_failed c1 \<union> set rm) = {}"
    using Q(5) A(3) by blast
  then show ?thesis
    using A Q heap_remove_inv [OF Q(4)] new rm' by (simp add: crawl_ok_def remove_failed_def)
qed

lemma crawl_new_ok [inv_intros]: "crawl_ok (crawl_new (p, []) n peers k alpha)"
  by (simp add: crawl_ok_def crawl_new_def silent_ids_def heap_push_inv heap_new_inv)
    (simp add: heap_new_def)

lemma node_round_ok:
  assumes "crawl_ok c" "answers_all (sp_find_nodes P)"
  shows "crawl_ok (node_round (logged P) c)"
proof -
  let ?r = "find_round (logged P) (sp_find_nodes (logged P)) c"
  have "asked_ok c (fst ?r) (snd ?r)"
    using find_round_asked [OF assms] by (simp add: find_round_def logged_def)
  then show ?thesis
    using settle_round [OF _ node_responses_quiet(1)] node_responses_quiet(2) [of P "fst ?r" "[]" "snd ?r"]
    by (simp add: node_round_def Let_def case_prod_beta)
qed

lemma find_lookup_nodes_ok:
  assumes "crawl_ok c" "answers_all (sp_find_nodes P)"
  shows "crawl_ok (fst (find_lookup_nodes (logged P) c)) \<and>
    heap_have_contacted_all (cr_nearest (fst (find_lookup_nodes (logged P) c))) \<and>
    snd (find_lookup_nodes (logged P) c) = crawl_lookup_nodes (fst (find_lookup_nodes (logged P) c))"
  using assms
proof (induction "logged P" c rule: find_lookup_nodes.induct)
  case (1 c)
  then show ?case
    using node_round_ok [OF "1.prems"] by (subst (1 2 3 4) find_lookup_nodes.simps) (simp add: Let_def)
qed

lemma node_round_pivot:
  "hp_node (cr_nearest (node_round P c)) = hp_node (cr_nearest c)"
  "hp_maxsize (cr_nearest (node_round P c)) = hp_maxsize (cr_nearest c)"
  using node_round_run [of c P] by (simp_all add: same_run_def next_peers_nearest)

lemma find_lookup_nodes_pivot:
  "hp_node (cr_nearest (fst (find_lookup_nodes P c))) = hp_node (cr_nearest c) \<and>
   hp_maxsize (cr_nearest (fst (find_lookup_nodes P c))) = hp_maxsize (cr_nearest c)"
proof (induction P c rule: find_lookup_nodes.induct)
  case (1 P c)
  then show ?case by (subst (1 2) find_lookup_nodes.simps) (simp add: Let_def node_round_pivot)
qed

lemma crawl_new_pivot [simp]:
  "hp_node (cr_nearest (crawl_new p n peers k alpha)) = n"
  "hp_maxsize (cr_nearest (crawl_new p n peers k alpha)) = k"
  by (simp_all add: crawl_new_def) (simp_all add: heap_new_def)

lemma heap_nodes_sorted:
  "heap_inv h \<Longrightarrow> sorted_wrt (<) (map (distance_to (hp_node h)) (heap_nodes h))"
  using heap_inv_nodes by (intro xor_dist.strictly_sorted) auto

lemma contacted_answered:
  assumes ok: "crawl_ok c" and all: "heap_have_contacted_all (cr_nearest c)" and n: "n \<in> set (heap_iter (cr_nearest c))"
  shows "\<exists>raw. (nid n, raw) \<in> set (the_log c) \<and> happened raw"
proof -
  have inv: "heap_inv (cr_nearest c)" using ok by (simp add: crawl_ok_def)
  have "nid n \<in> hp_contacted (cr_nearest c)"
    using all n by (auto simp: heap_have_contacted_all_def heap_get_uncontacted_def filter_empty_conv)
  then have "nid n \<in> fst ` set (the_log c)" using ok by (simp add: crawl_ok_def)
  then obtain raw where raw: "(nid n, raw) \<in> set (the_log c)" by auto
  moreover have "nid n \<notin> silent_ids (the_log c)"
    using ok n heap_iter_nodes [OF inv] by (auto simp: crawl_ok_def heap_ids_def)
  ultimately show ?thesis by (auto simp: silent_ids_def)
qed

text \<open>
  Property C16. The node lookup ends, whatever the peers answer. Every node it returns was asked and
  answered; the nodes come in strictly ascending distance to the target and are at most \<open>k\<close>; no
  peer is asked twice; the peers that did not answer are all counted as unresponsive.
\<close>

theorem node_lookup_returns_responders:
  assumes "answers_all (sp_find_nodes P)"
  shows "(let (c', r) = find_lookup_nodes (logged P) (crawl_new (p, []) target peers k alpha) in
    distinct (map fst (the_log c')) \<and>
    (\<forall>n \<in> set (lk_nodes r). \<exists>raw. (nid n, raw) \<in> set (the_log c') \<and> happened raw) \<and>
    sorted_wrt (<) (map (distance_to target) (lk_nodes r)) \<and> length (lk_nodes r) \<le> k \<and>
    card (silent_ids (the_log c')) \<le> lk_unresponsive r)"
proof -
  let ?start = "crawl_new (p, []) target peers k alpha"
  let ?res = "find_lookup_nodes (logged P) ?start"
  let ?c = "fst ?res"
  have ok: "crawl_ok ?c" and all: "heap_have_contacted_all (cr_nearest ?c)" and r: "snd ?res = crawl_lookup_nodes ?c"
    using find_lookup_nodes_ok [OF crawl_new_ok assms] by blast+
  have inv: "heap_inv (cr_nearest ?c)" using ok by (simp add: crawl_ok_def)
  have nodes: "lk_nodes (snd ?res) = heap_iter (cr_nearest ?c)"
    by (simp add: r crawl_lookup_nodes_def)
  moreover have "card (silent_ids (the_log ?c)) \<le> lk_unresponsive (snd ?res)"
    using ok by (auto simp: r crawl_lookup_nodes_def crawl_ok_def intro!: card_mono)
  moreover have "sorted_wrt (<) (map (distance_to target) (heap_iter (cr_nearest ?c)))"
    using heap_nodes_sorted [OF inv] find_lookup_nodes_pivot [of "logged P" ?start] by (simp add: heap_iter_nodes [OF inv])
  moreover have "length (heap_iter (cr_nearest ?c)) \<le> k"
    using find_lookup_nodes_pivot [of "logged P" ?start] by (simp add: heap_iter_def)
  ultimately show ?thesis
    using ok contacted_answered [OF ok all] by (simp add: case_prod_beta crawl_ok_def)
qed

subsection \<open>The quorum lookup\<close>

text \<open>The votes a log holds: the values of the peers that answered with one, in the order asked.\<close>

definition log_votes :: "ask_log \<Rightarrow> bytes list" where
  "log_votes l = List.map_filter (\<lambda>(_, r). if happened r then get_value r else None) l"

lemma log_votes_simps [simp]:
  "log_votes [] = []" "log_votes (l @ l') = log_votes l @ log_votes l'"
  "log_votes ((i, r) # l) = (if happened r then case get_value r of None \<Rightarrow> [] | Some v \<Rightarrow> [v] else []) @ log_votes l"
  by (auto simp: log_votes_def List.map_filter_def split: option.split)

lemma mset_log_votes: "mset l = mset l' \<Longrightarrow> mset (log_votes l) = mset (log_votes l')"
  by (simp add: log_votes_def List.map_filter_def comp_def)

lemma length_log_votes: "length (log_votes l) \<le> length l"
  by (simp add: log_votes_def List.map_filter_def)

lemma quorum_responses_quiet:
  "quiet c (fst (quorum_responses (logged P) c rm fs rs))"
  "set (fst (snd (quorum_responses (logged P) c rm fs rs))) = set rm \<union> silent_ids rs"
  "snd (snd (quorum_responses (logged P) c rm fs rs)) = fs @ log_votes rs"
proof (induction "logged P" c rm fs rs rule: quorum_responses.induct)
  case (2 c rm fs i raw rs)
  {
    case 1
    show ?case using "2.hyps" by (auto split: option.splits intro: quiet_trans [OF quiet_add_reported])
  next
    case 2
    show ?case using "2.hyps" by (auto simp: silent_ids_def split: option.splits)
  next
    case 3
    show ?case using "2.hyps" by (auto split: option.splits)
  }
qed (auto simp: silent_ids_def)

lemma next_peers_limit: "length (snd (next_peers c (Some l))) \<le> l"
  by (simp add: next_peers_def Let_def)

lemma quorum_round_ok:
  assumes ok: "crawl_ok c" and all: "answers_all (sp_find_values P)"
  shows "crawl_ok (fst (quorum_round (logged P) c rem fs))" (is ?ok)
    and "\<exists>new. the_log (fst (quorum_round (logged P) c rem fs)) = the_log c @ new \<and>
      mset (snd (quorum_round (logged P) c rem fs)) = mset (fs @ log_votes new) \<and> length new \<le> rem" (is ?votes)
proof -
  let ?r = "find_round_limited (logged P) (sp_find_values (logged P)) c (Some rem)"
  let ?q = "quorum_responses (logged P) (fst ?r) [] fs (snd ?r)"
  have A: "asked_ok c (fst ?r) (snd ?r)"
    using find_round_asked [OF ok all] by (simp add: logged_def)
  have q: "quorum_round (logged P) c rem fs = (remove_failed (fst ?q) (fst (snd ?q)), snd (snd ?q))"
    by (simp add: quorum_round_def Let_def case_prod_beta)
  show ?ok using settle_round [OF A quorum_responses_quiet(1)] quorum_responses_quiet(2) [of P "fst ?r" "[]" fs "snd ?r"]
    by (simp add: q)
  obtain new where new: "the_log (fst ?r) = the_log c @ new" "mset (snd ?r) = mset new" using A by (auto simp: asked_ok_def)
  have "length new = length (snd ?r)" using new(2) by (metis size_mset)
  also have "\<dots> \<le> rem" using next_peers_limit [of c rem]
    by (simp add: find_round_limited_def Let_def case_prod_beta)
  finally have "length new \<le> rem" .
  moreover have "the_log (fst ?q) = the_log (fst ?r)"
    using quorum_responses_quiet(1) [of "fst ?r" P "[]" fs "snd ?r"] by (simp add: quiet_def)
  ultimately show ?votes
    using new mset_log_votes [OF new(2)] by (intro exI [of _ new]) (simp add: q remove_failed_def quorum_responses_quiet(3))
qed

text \<open>What the quorum lookup has done when it stops, started with the votes \<open>init\<close>.\<close>

definition quorum_done :: "nat \<Rightarrow> nat \<Rightarrow> bytes list \<Rightarrow> ('p \<times> ask_log) crawl \<times> bytes option \<Rightarrow> bool" where
  "quorum_done mi ma init = (\<lambda>(c', res).
     let votes = init @ log_votes (the_log c') in
     crawl_ok c' \<and> length votes \<le> max ma (length init) \<and>
     (\<forall>v. res = Some v \<longleftrightarrow> max mi (length votes div 2 + 1) \<le> count_list votes v) \<and>
     (res = None \<longrightarrow> ma \<le> length votes \<or> heap_have_contacted_all (cr_nearest c')))"

lemma strict_quorum_mset:
  assumes "mset vs = mset ws"
  shows "strict_quorum_value vs m = strict_quorum_value ws m"
proof (rule option.expand)
  have "length vs = length ws" "count_list vs = count_list ws"
    using assms by (auto simp: fun_eq_iff simp flip: count_mset size_mset)
  then have iff: "strict_quorum_value vs m = Some v \<longleftrightarrow> strict_quorum_value ws m = Some v" for v
    by (simp add: strict_quorum_iff)
  show "(strict_quorum_value vs m = None) = (strict_quorum_value ws m = None)"
    using iff by (metis option.exhaust)
  show "the (strict_quorum_value vs m) = the (strict_quorum_value ws m)"
    if "strict_quorum_value vs m \<noteq> None" "strict_quorum_value ws m \<noteq> None"
    using iff that by (metis option.collapse)
qed

lemma find_quorum_done:
  assumes "crawl_ok c" "answers_all (sp_find_values P)"
    and "mset found = mset (init @ log_votes (the_log c))" "length found \<le> max ma (length init)"
  shows "quorum_done mi ma init (find_quorum (logged P) c found mi ma)"
  using assms
proof (induction "logged P" c found mi ma rule: find_quorum.induct)
  case (1 c found mi ma)
  have len: "length found = length (init @ log_votes (the_log c))" using "1.prems"(3) by (metis size_mset)
  have iff: "strict_quorum_value found mi = Some v \<longleftrightarrow>
      max mi (length found div 2 + 1) \<le> count_list (init @ log_votes (the_log c)) v" for v
    unfolding strict_quorum_mset [OF "1.prems"(3)] strict_quorum_iff len ..
  have stop: "quorum_done mi ma init (c, strict_quorum_value found mi)"
    if "strict_quorum_value found mi = None \<longrightarrow> ma \<le> length found \<or> heap_have_contacted_all (cr_nearest c)"
    using that "1.prems"(1,4) iff len by (simp add: quorum_done_def Let_def)
  show ?case
  proof (cases "strict_quorum_value found mi")
    case (Some v)
    then show ?thesis using stop by (subst find_quorum.simps) simp
  next
    case None
    let ?rem = "ma - length found"
    show ?thesis
    proof (cases "?rem = 0 \<or> heap_have_contacted_all (cr_nearest c)")
      case True
      then show ?thesis using stop None by (subst find_quorum.simps) (auto simp: Let_def)
    next
      case False
      let ?q = "quorum_round (logged P) c ?rem found"
      obtain new where new: "the_log (fst ?q) = the_log c @ new" "mset (snd ?q) = mset (found @ log_votes new)"
        "length new \<le> ?rem"
        using quorum_round_ok(2) [OF "1.prems"(1,2)] by blast
      have "length (snd ?q) = length found + length (log_votes new)" using new(2) by (metis length_append size_mset)
      then have "length (snd ?q) \<le> max ma (length init)"
        using new(3) length_log_votes [of new] False by linarith
      moreover have "mset (snd ?q) = mset (init @ log_votes (the_log (fst ?q)))" using new(1,2) "1.prems"(3) by simp
      ultimately have "quorum_done mi ma init (find_quorum (logged P) (fst ?q) (snd ?q) mi ma)"
        using "1.hyps" [OF None refl False refl, of "fst ?q" "snd ?q"] quorum_round_ok(1) [OF "1.prems"(1,2)] "1.prems"(2)
        by simp
      then show ?thesis using None False
        by (subst find_quorum.simps) (simp add: Let_def case_prod_beta)
    qed
  qed
qed

text \<open>
  Property C18. The quorum lookup ends, whatever the peers answer. It returns a value exactly when
  the votes collected, at most one per peer asked and at most \<open>maximum_votes\<close> with the caller's own,
  give that value both the required minimum and a strict majority; it gives up only when no vote is
  left or every peer of the shortlist has been asked.
\<close>

theorem find_quorum_majority:
  assumes "answers_all (sp_find_values P)"
  shows "(let (c', res) = find_quorum (logged P) (crawl_new (p, []) target peers k alpha) init mi ma;
              votes = init @ log_votes (the_log c') in
    distinct (map fst (the_log c')) \<and> length votes \<le> max ma (length init) \<and>
    (\<forall>v. res = Some v \<longleftrightarrow> max mi (length votes div 2 + 1) \<le> count_list votes v) \<and>
    (res = None \<longrightarrow> ma \<le> length votes \<or> heap_have_contacted_all (cr_nearest c')))"
proof -
  have "quorum_done mi ma init (find_quorum (logged P) (crawl_new (p, []) target peers k alpha) init mi ma)"
    by (rule find_quorum_done [OF crawl_new_ok assms]) (simp_all add: crawl_new_def)
  then show ?thesis unfolding quorum_done_def crawl_ok_def by (simp add: case_prod_beta Let_def)
qed

subsection \<open>The search\<close>

text \<open>
  What \<open>JoinSet\<close> promises: nothing aborts a request while the set is alive, every request asked
  completes exactly once unless the deadline cuts the wait short, and only a deadline does.
\<close>

definition joins_all :: "'p spider \<Rightarrow> bool \<Rightarrow> bool" where
  "joins_all P deadline \<longleftrightarrow>
     (\<forall>p ps t. let evs = snd (sp_join P p ps t) in
        (if \<exists>s. TimedOut s \<in> set evs then deadline
         else distinct (map nid ps) \<longrightarrow>
           distinct (map fst (answers evs)) \<and> fst ` set (answers evs) = nid ` set ps))"

text \<open>The test of a value when it arrived, whatever the state of the protocol was then.\<close>

definition rejected :: "'p acceptance \<Rightarrow> ask_log \<Rightarrow> bool" where
  "rejected accept l \<longleftrightarrow>
     (\<forall>(i, raw) \<in> set l. happened raw \<longrightarrow> (\<forall>w. get_value raw = Some w \<longrightarrow> (\<exists>p. snd (accept p w) = None)))"

definition accepted_in :: "'p acceptance \<Rightarrow> ask_log \<Rightarrow> bytes \<Rightarrow> bool" where
  "accepted_in accept l v \<longleftrightarrow>
     (\<exists>i raw w p. (i, raw) \<in> set l \<and> happened raw \<and> get_value raw = Some w \<and> snd (accept p w) = Some v)"

definition logged_accept :: "'p acceptance \<Rightarrow> ('p \<times> ask_log) acceptance" where
  "logged_accept accept = (\<lambda>(p, l) v. let (p', r) = accept p v in ((p', l), r))"

lemma rejected_simps [simp]:
  "rejected accept []" "rejected accept (l @ l') \<longleftrightarrow> rejected accept l \<and> rejected accept l'"
  "rejected accept ((i, raw) # l) \<longleftrightarrow>
     (happened raw \<longrightarrow> (\<forall>w. get_value raw = Some w \<longrightarrow> (\<exists>p. snd (accept p w) = None))) \<and> rejected accept l"
  by (auto simp: rejected_def)

lemma accepted_in_Cons [simp]:
  "accepted_in accept ((i, raw) # l) v \<longleftrightarrow>
     happened raw \<and> (\<exists>w p. get_value raw = Some w \<and> snd (accept p w) = Some v) \<or> accepted_in accept l v"
  by (auto simp: accepted_in_def)

lemma silent_ids_Cons [simp]:
  "silent_ids ((i, raw) # l) = (if happened raw then silent_ids l else insert i (silent_ids l))"
  by (auto simp: silent_ids_def)

lemma search_events_log:
  "(\<forall>c' r. search_events (logged P) (logged_accept accept) c w rm inc evs = Return c' r \<longrightarrow>
      the_log c' = the_log c \<and> r \<noteq> NotFound \<and>
      (r = Incomplete \<longrightarrow> (\<exists>s. TimedOut s \<in> set evs)) \<and>
      (\<forall>v. r = Found v \<longrightarrow> accepted_in accept (answers evs) v)) \<and>
   (\<forall>c' rm' inc'. search_events (logged P) (logged_accept accept) c w rm inc evs = Continue c' rm' inc' \<longrightarrow>
      quiet c c' \<and> set rm' = set rm \<union> silent_ids (answers evs) \<and>
      (inc' \<longleftrightarrow> inc \<or> silent_ids (answers evs) \<noteq> {}) \<and> rejected accept (answers evs) \<and>
      (\<forall>s. TimedOut s \<notin> set evs))"
proof (induction "logged P" "logged_accept accept" c w rm inc evs rule: search_events.induct)
  case (3 c waiting rm inc silent evs)
  show ?case by (auto simp: logged_def case_prod_beta)
next
  case (4 c waiting rm inc i raw evs)
  have log: "the_log (add_reported (logged P) c ns) = the_log c" for ns
    using quiet_add_reported [of c P ns] by (simp add: quiet_def)
  show ?case
  proof (cases "happened raw")
    case False
    then show ?thesis using "4.hyps"(1) [OF refl]
      by (auto simp: Let_def)
  next
    case True
    show ?thesis
    proof (cases "get_value raw")
      case None
      then show ?thesis using True "4.hyps"(2) [OF refl _ None] log
        by (auto simp: Let_def intro: quiet_trans [OF quiet_add_reported])
    next
      case (Some v)
      obtain p l where pl: "cr_protocol c = (p, l)" by (cases "cr_protocol c")
      obtain p' r where a: "accept p v = (p', r)" by fastforce
      have q: "quiet c (c\<lparr>cr_protocol := (p', l)\<rparr>)" using pl by (simp add: quiet_def)
      have la: "logged_accept accept (cr_protocol c) v = ((p', l), r)" by (simp add: logged_accept_def pl a)
      have res: "\<exists>p. snd (accept p v) = r" using a by (metis snd_conv)
      show ?thesis
      proof (cases r)
        case None
        then show ?thesis using True Some la res pl "4.hyps"(3) [OF refl _ Some la [symmetric]] quiet_trans [OF q]
          by (auto simp: Let_def)
      next
        case (Some v')
        then show ?thesis using True \<open>get_value raw = Some v\<close> la res pl by (auto simp: Let_def)
      qed
    qed
  qed
qed (simp_all add: silent_ids_def)

definition search_inv :: "'p acceptance \<Rightarrow> ('p \<times> ask_log) crawl \<Rightarrow> bool \<Rightarrow> bool" where
  "search_inv accept c inc \<longleftrightarrow>
     crawl_ok c \<and> rejected accept (the_log c) \<and> (inc \<longleftrightarrow> silent_ids (the_log c) \<noteq> {})"

lemma answers_filter [simp]: "answers (filter (\<lambda>e. \<not> is_TimedOut e) evs) = answers evs"
  by (induction evs rule: answers.induct) auto

lemma logged_join [simp]:
  "sp_join (logged P) (p, l) ps t = (let (p', evs) = sp_join P p ps t in ((p', l @ answers evs), evs))"
  by (simp add: logged_def)

lemma search_round_log:
  assumes inv: "search_inv accept c inc" and all: "joins_all P deadline"
  shows "search_round (logged P) deadline (logged_accept accept) c inc = Return c' r \<Longrightarrow>
      r \<noteq> NotFound \<and> (r = Incomplete \<longrightarrow> deadline) \<and> (\<forall>v. r = Found v \<longrightarrow> accepted_in accept (the_log c') v)"
    and "search_round (logged P) deadline (logged_accept accept) c inc = Continue c' rm inc' \<Longrightarrow> search_inv accept (remove_failed c' rm) inc'"
proof -
  let ?ps = "snd (next_peers c None)" and ?n = "fst (next_peers c None)"
  obtain p l where pl: "cr_protocol c = (p, l)" by (cases "cr_protocol c")
  have ok: "crawl_ok c" using inv by (simp add: search_inv_def)
  then have d: "distinct (map nid ?ps)" by (intro next_peers_distinct) (simp add: crawl_ok_def)
  obtain p' evs where J: "(if ?ps = [] then (p, []) else sp_join P p ?ps (cr_node c)) = (p', evs)" by fastforce
  have J': "(if \<exists>s. TimedOut s \<in> set evs then deadline
      else distinct (map fst (answers evs)) \<and> fst ` set (answers evs) = nid ` set ?ps)"
  proof (cases "?ps = []")
    case False
    then show ?thesis
      using J d all [unfolded joins_all_def Let_def, THEN spec, THEN spec, THEN spec, of p ?ps "cr_node c"]
      by (auto split: if_splits)
  qed (use J in simp)
  let ?evs = "if deadline then evs else filter (\<lambda>e. \<not> is_TimedOut e) evs"
  let ?c1 = "?n\<lparr>cr_protocol := (p', the_log c @ answers evs)\<rparr>"
  have R: "search_round (logged P) deadline (logged_accept accept) c inc = search_events (logged P) (logged_accept accept) ?c1 ?ps [] inc ?evs"
    using J by (simp add: search_round_def Let_def case_prod_beta pl split: if_splits)
  have A: "answers ?evs = answers evs" by simp
  have T: "TimedOut s \<in> set ?evs \<Longrightarrow> deadline" for s by (auto split: if_splits)
  note E = search_events_log [of P accept ?c1 ?ps "[]" inc ?evs, folded R, unfolded A]
  {
    assume "search_round (logged P) deadline (logged_accept accept) c inc = Return c' r"
    then show "r \<noteq> NotFound \<and> (r = Incomplete \<longrightarrow> deadline) \<and> (\<forall>v. r = Found v \<longrightarrow> accepted_in accept (the_log c') v)"
      using E T by (fastforce simp: accepted_in_def)
  }
  assume C: "search_round (logged P) deadline (logged_accept accept) c inc = Continue c' rm inc'"
  then have E': "quiet ?c1 c'" "set rm = silent_ids (answers evs)" "inc' \<longleftrightarrow> inc \<or> silent_ids (answers evs) \<noteq> {}"
    "rejected accept (answers evs)" "\<forall>s. TimedOut s \<notin> set ?evs"
    using E by auto
  have "\<not> (\<exists>s. TimedOut s \<in> set evs)" using E'(5) J' by (auto split: if_splits)
  then have "asked_ok c ?c1 (answers evs)" using J' by (intro asked_okI [OF ok refl _ _ refl]) auto
  then have "crawl_ok (remove_failed c' rm)" by (rule settle_round [OF _ E'(1,2)])
  moreover have "the_log c' = the_log c @ answers evs" using E'(1) by (simp add: quiet_def)
  ultimately show "search_inv accept (remove_failed c' rm) inc'"
    using inv E'(3,4) by (auto simp: search_inv_def remove_failed_def)
qed

text \<open>What the outcome of a search says about the peers it heard.\<close>

definition search_done :: "'p acceptance \<Rightarrow> bool \<Rightarrow> ('p \<times> ask_log) crawl \<times> value_search \<Rightarrow> bool" where
  "search_done accept deadline = (\<lambda>(c', r).
     case r of
       Found v \<Rightarrow> accepted_in accept (the_log c') v
     | NotFound \<Rightarrow>
         silent_ids (the_log c') = {} \<and> rejected accept (the_log c') \<and> distinct (map fst (the_log c')) \<and>
         (\<forall>n \<in> set (heap_iter (cr_nearest c')). \<exists>raw. (nid n, raw) \<in> set (the_log c') \<and> happened raw)
     | Incomplete \<Rightarrow> deadline \<or> silent_ids (the_log c') \<noteq> {})"

lemma search_reports:
  assumes "search_inv accept c inc" "joins_all P deadline"
  shows "search_done accept deadline (search (logged P) deadline (logged_accept accept) c inc)"
  using assms
proof (induction "logged P" deadline "logged_accept accept" c inc rule: search.induct)
  case (1 deadline c inc)
  note inv = "1.prems"(1)
  show ?case
  proof (cases "heap_have_contacted_all (cr_nearest c)")
    case True
    then show ?thesis
      using inv contacted_answered [OF _ True]
      by (subst search.simps) (auto simp: search_done_def search_inv_def crawl_ok_def)
  next
    case False
    show ?thesis
    proof (cases "deadline \<and> sp_deadline_passed (logged P) (cr_protocol c)")
      case True
      then show ?thesis using False by (subst search.simps) (simp add: search_done_def)
    next
      case F: False
      show ?thesis
      proof (cases "search_round (logged P) deadline (logged_accept accept) c inc")
        case (Return c' r)
        then show ?thesis using False F search_round_log(1) [OF "1.prems" Return]
          by (subst search.simps) (auto simp: search_done_def split: value_search.splits)
      next
        case (Continue c' rm inc')
        then show ?thesis using False F "1.hyps" [OF False F Continue] search_round_log(2) [OF "1.prems" Continue] "1.prems"(2)
          by (subst search.simps) auto
      qed
    qed
  qed
qed

text \<open>
  Property C22. The search ends, whatever the peers answer. \<open>Found\<close> carries what the acceptance test
  made of a value some asked peer returned. \<open>NotFound\<close> means that every peer asked answered, none
  with an acceptable value, and that every node left on the shortlist is among them. Without a
  deadline, \<open>Incomplete\<close> means that some peer did not answer.
\<close>

theorem search_hears_everyone:
  assumes "joins_all P deadline"
  shows "(let c = crawl_new (p, []) target peers k alpha in
    search_done accept deadline
      (search (logged P) deadline (logged_accept accept) (if everyone then asking_everyone c else c) False))"
proof -
  let ?c = "crawl_new (p, []) target peers k alpha"
  have "search_inv accept (if everyone then asking_everyone ?c else ?c) False"
    using crawl_new_ok [of p target peers k alpha]
    by (simp add: search_inv_def crawl_ok_def asking_everyone_def) (simp add: crawl_new_def silent_ids_def)
  from search_reports [OF this assms] show ?thesis by (simp add: Let_def)
qed

subsection \<open>Witnesses\<close>

text \<open>
  Four peers: the second reports the third and a silent fourth; the first and the third return the
  same value to a value request.
\<close>

definition wanswer :: "node \<Rightarrow> find_payload \<Rightarrow> raw_response" where
  "wanswer n payload = \<lparr>rr_happened = (nid n \<noteq> wid 4), rr_payload = payload\<rparr>"

definition wnodes :: "node \<Rightarrow> raw_response" where
  "wnodes n = wanswer n (if nid n = wid 2 then Nodes [(id_bytes (wid 3), None, None), (id_bytes (wid 4), None, None)] else Nodes [])"

definition wvalues :: "node \<Rightarrow> raw_response" where
  "wvalues n = (if nid n = wid 2 then wnodes n else wanswer n (Value [7]))"

definition wspider :: "unit spider" where
  "wspider = \<lparr>sp_find_nodes = (\<lambda>p ps t. (p, map wnodes ps)), sp_find_values = (\<lambda>p ps t. (p, map wvalues ps)),
     sp_join = (\<lambda>p ps t. (p, map (\<lambda>n. Answer (nid n) (wvalues n)) ps)), sp_store = (\<lambda>p n k v. (p, True)),
     sp_failing_among = (\<lambda>p ns. (p, {})), sp_note_no_answer = (\<lambda>p ns. p),
     sp_deadline_passed = (\<lambda>p. False), sp_order = (\<lambda>p i. 0)\<rparr>"

lemma wspider_answers: "answers_all (sp_find_nodes wspider)" "answers_all (sp_find_values wspider)"
  by (simp_all add: answers_all_def wspider_def)

lemma answers_map [simp]: "answers (map (\<lambda>n. Answer (nid n) (f n)) ps) = map (\<lambda>n. (nid n, f n)) ps"
  by (induction ps) auto

lemma wspider_joins: "joins_all wspider d"
  by (auto simp: joins_all_def wspider_def Let_def comp_def image_image)

abbreviation wcrawl :: "(unit \<times> ask_log) crawl" where
  "wcrawl \<equiv> crawl_new ((), []) (wnode 0) [wnode 1, wnode 2] 3 2"

theorem node_lookup_returns_responders_witness:
  "answers_all (sp_find_nodes wspider) \<and>
   map nid (lk_nodes (snd (find_lookup_nodes (logged wspider) wcrawl))) = [wid 1, wid 2, wid 3] \<and>
   distinct (map fst (the_log (fst (find_lookup_nodes (logged wspider) wcrawl)))) \<and>
   lk_unresponsive (snd (find_lookup_nodes (logged wspider) wcrawl)) = 0"
proof -
  have "map nid (lk_nodes (snd (find_lookup_nodes (logged wspider) wcrawl))) = [wid 1, wid 2, wid 3] \<and>
     lk_unresponsive (snd (find_lookup_nodes (logged wspider) wcrawl)) = 0"
    by code_simp
  then show ?thesis
    using node_lookup_returns_responders [OF wspider_answers(1), of "()" "wnode 0" "[wnode 1, wnode 2]" 3 2] wspider_answers(1)
    by (simp add: case_prod_beta Let_def)
qed

theorem find_quorum_majority_witness:
  "answers_all (sp_find_values wspider) \<and>
   snd (find_quorum (logged wspider) wcrawl [] 2 3) = Some [7] \<and>
   distinct (map fst (the_log (fst (find_quorum (logged wspider) wcrawl [] 2 3))))"
proof -
  have "snd (find_quorum (logged wspider) wcrawl [] 2 3) = Some [7]" by code_simp
  then show ?thesis
    using find_quorum_majority [OF wspider_answers(2), of "()" "wnode 0" "[wnode 1, wnode 2]" 3 2 "[]" 2 3] wspider_answers(2)
    by (simp add: case_prod_beta Let_def)
qed

theorem search_hears_everyone_witness:
  "joins_all wspider True \<and>
   snd (search (logged wspider) True (logged_accept (\<lambda>p v. (p, None))) (asking_everyone wcrawl) False) = NotFound \<and>
   search_done (\<lambda>p v. (p, None)) True (search (logged wspider) True (logged_accept (\<lambda>p v. (p, None))) (asking_everyone wcrawl) False)"
proof -
  have "snd (search (logged wspider) True (logged_accept (\<lambda>p v. (p, None))) (asking_everyone wcrawl) False) = NotFound" by code_simp
  then show ?thesis
    using search_hears_everyone [OF wspider_joins [of True], of "()" "wnode 0" "[wnode 1, wnode 2]" 3 2 "\<lambda>p v. (p, None)" True]
    by (simp add: wspider_joins Let_def)
qed

end
