(* ===== verification/Counters.thy ===== *)
theory Counters
  imports Messages
begin

text \<open>
  What a node sends, counted for measurements (\<open>src/src/counters.rs\<close>). The struct \<open>Counters\<close> holds
  nothing without the Cargo feature \<open>counters\<close>: it is an \<open>inner option\<close>, \<open>None\<close> without the
  feature. An \<open>AtomicU64\<close> is a 64-bit word and \<open>fetch_add\<close> wraps.
\<close>

type_synonym u64 = "64 word"

definition MESSAGE_TYPES :: "bytes list" where
  "MESSAGE_TYPES =
     [lit ''Ping'', lit ''Pong'', lit ''Store'', lit ''StoreResult'', lit ''Update'',
      lit ''UpdateResult'', lit ''UpdateStatusList'', lit ''UpdateStatusListResult'', lit ''FindNode'',
      lit ''FindNodeResult'', lit ''FindValue'', lit ''FindValueHit'', lit ''FindValueNodes'',
      lit ''Leave'', lit ''FindHash'', lit ''FindHashHit'', lit ''Received'']"

definition CHECK_ROUND_BUCKETS :: nat where
  "CHECK_ROUND_BUCKETS = 5"

definition CHECK_DURATION_BOUNDS_MS :: "u64 list" where
  "CHECK_DURATION_BOUNDS_MS = [10, 25, 50, 100, 200, 500, 1000, 2000]"

datatype check_end =
  CheckEnd_Unbound | CheckEnd_NobodyToAsk | CheckEnd_NoneOrSame | CheckEnd_Other | CheckEnd_NoAnswer

record sent =
  sent_datagrams :: u64
  sent_bytes :: u64

record check_counts =
  cc_unbound :: u64
  cc_nobody_to_ask :: u64
  cc_none_or_same :: u64
  cc_other :: u64
  cc_no_answer :: u64
  cc_rounds :: "u64 list"
  cc_duration_ms :: "u64 list"
  cc_duration_total_us :: u64

record counter_snapshot =
  cs_sent :: "(bytes \<times> sent) list"
  cs_resends_to_measured_peers :: u64
  cs_resends_to_unmeasured_peers :: u64
  cs_checks :: check_counts

record inner =
  in_datagrams :: "u64 list"
  in_bytes :: "u64 list"
  in_resends_measured :: u64
  in_resends_unmeasured :: u64
  in_checks :: check_counts

definition inner_default :: inner where
  "inner_default =
     \<lparr>in_datagrams = replicate (length MESSAGE_TYPES) 0, in_bytes = replicate (length MESSAGE_TYPES) 0,
      in_resends_measured = 0, in_resends_unmeasured = 0,
      in_checks = \<lparr>cc_unbound = 0, cc_nobody_to_ask = 0, cc_none_or_same = 0, cc_other = 0, cc_no_answer = 0,
        cc_rounds = replicate CHECK_ROUND_BUCKETS 0,
        cc_duration_ms = replicate (length CHECK_DURATION_BOUNDS_MS + 1) 0, cc_duration_total_us = 0\<rparr>\<rparr>"

text \<open>\<open>fetch_add\<close> on a cell of an array of atomics; an index out of range would panic.\<close>

definition add_at :: "nat \<Rightarrow> u64 \<Rightarrow> u64 list \<Rightarrow> u64 list" where
  "add_at i n xs = xs[i := xs ! i + n]"

definition inner_sent :: "inner \<Rightarrow> bytes \<Rightarrow> nat \<Rightarrow> inner" where
  "inner_sent c kind n =
     (case position (\<lambda>name. name = kind) MESSAGE_TYPES of
        None \<Rightarrow> c
      | Some i \<Rightarrow>
          c\<lparr>in_datagrams := add_at i 1 (in_datagrams c), in_bytes := add_at i (word_of_nat n) (in_bytes c)\<rparr>)"

definition inner_resent :: "inner \<Rightarrow> bool \<Rightarrow> inner" where
  "inner_resent c measured =
     (if measured then c\<lparr>in_resends_measured := in_resends_measured c + 1\<rparr>
      else c\<lparr>in_resends_unmeasured := in_resends_unmeasured c + 1\<rparr>)"

definition count_end :: "check_end \<Rightarrow> check_counts \<Rightarrow> check_counts" where
  "count_end e k =
     (case e of
        CheckEnd_Unbound \<Rightarrow> k\<lparr>cc_unbound := cc_unbound k + 1\<rparr>
      | CheckEnd_NobodyToAsk \<Rightarrow> k\<lparr>cc_nobody_to_ask := cc_nobody_to_ask k + 1\<rparr>
      | CheckEnd_NoneOrSame \<Rightarrow> k\<lparr>cc_none_or_same := cc_none_or_same k + 1\<rparr>
      | CheckEnd_Other \<Rightarrow> k\<lparr>cc_other := cc_other k + 1\<rparr>
      | CheckEnd_NoAnswer \<Rightarrow> k\<lparr>cc_no_answer := cc_no_answer k + 1\<rparr>)"

text \<open>\<open>elapsed\<close> counts nanoseconds; \<open>as u64\<close> truncates.\<close>

definition duration_bucket :: "duration \<Rightarrow> nat" where
  "duration_bucket elapsed =
     (let ms = word_of_nat (elapsed div 1000000) in
      case position (\<lambda>bound. ms \<le> bound) CHECK_DURATION_BOUNDS_MS of
        Some i \<Rightarrow> i
      | None \<Rightarrow> length CHECK_DURATION_BOUNDS_MS)"

definition inner_check :: "inner \<Rightarrow> check_end \<Rightarrow> nat \<Rightarrow> duration \<Rightarrow> inner" where
  "inner_check c e rounds elapsed =
     (let k = count_end e (in_checks c) in
      if rounds = 0 then c\<lparr>in_checks := k\<rparr>
      else
        c\<lparr>in_checks :=
            k\<lparr>cc_rounds := add_at (min rounds CHECK_ROUND_BUCKETS - 1) 1 (cc_rounds k),
              cc_duration_ms := add_at (duration_bucket elapsed) 1 (cc_duration_ms k),
              cc_duration_total_us := cc_duration_total_us k + word_of_nat (elapsed div 1000)\<rparr>\<rparr>)"

definition inner_snapshot :: "inner \<Rightarrow> counter_snapshot" where
  "inner_snapshot c =
     \<lparr>cs_sent =
        filter (\<lambda>(_, s). sent_datagrams s > 0)
          (map (\<lambda>(i, name). (name, \<lparr>sent_datagrams = in_datagrams c ! i, sent_bytes = in_bytes c ! i\<rparr>))
             (List.enumerate 0 MESSAGE_TYPES)),
      cs_resends_to_measured_peers = in_resends_measured c,
      cs_resends_to_unmeasured_peers = in_resends_unmeasured c,
      cs_checks = in_checks c\<rparr>"

subsection \<open>The counters of a node\<close>

type_synonym counters = "inner option"

definition counters_default :: "bool \<Rightarrow> counters" where
  "counters_default feature = (if feature then Some inner_default else None)"

definition counters_sent :: "counters \<Rightarrow> bytes \<Rightarrow> nat \<Rightarrow> counters" where
  "counters_sent c kind n = map_option (\<lambda>i. inner_sent i kind n) c"

definition counters_resent :: "counters \<Rightarrow> bool \<Rightarrow> counters" where
  "counters_resent c measured = map_option (\<lambda>i. inner_resent i measured) c"

definition counters_check :: "counters \<Rightarrow> check_end \<Rightarrow> nat \<Rightarrow> duration \<Rightarrow> counters" where
  "counters_check c e rounds elapsed = map_option (\<lambda>i. inner_check i e rounds elapsed) c"

definition counters_snapshot :: "counters \<Rightarrow> counter_snapshot option" where
  "counters_snapshot c = map_option inner_snapshot c"

subsection \<open>Nothing sent goes uncounted\<close>

lemma word_of_char_eq [simp]: "(word_of_nat (of_char c) :: u8) = word_of_nat (of_char d) \<longleftrightarrow> c = d"
proof
  assume "(word_of_nat (of_char c) :: u8) = word_of_nat (of_char d)"
  then have "(of_char c :: nat) mod 256 = of_char d mod 256"
    by (simp add: word_of_nat_eq_iff take_bit_eq_mod)
  then show "c = d" by (simp add: of_char_mod_256)
qed simp

lemma lit_eq_iff [simp]: "lit s = lit t \<longleftrightarrow> s = t"
  by (auto simp: lit_def inj_map_eq_map inj_def)

lemma message_name_known: "rpc_message_name m \<in> set MESSAGE_TYPES"
  by (cases m) (simp_all add: rpc_message_name_def MESSAGE_TYPES_def)

lemma message_types_distinct: "distinct MESSAGE_TYPES"
  by (simp add: MESSAGE_TYPES_def)

text \<open>
  A history of calls of \<open>sent\<close>, \<open>resent\<close> and \<open>check\<close>, and what it should be counted as. A message is
  counted under its name, a check by how it ended and, when a lookup ran, by its rounds and by the
  whole milliseconds it lasted (a \<open>u64\<close>).
\<close>

datatype count_event = SentEv rpc_message nat | ResentEv bool | CheckEv check_end nat duration

fun count_one :: "counters \<Rightarrow> count_event \<Rightarrow> counters" where
  "count_one c (SentEv m n) = counters_sent c (rpc_message_name m) n"
| "count_one c (ResentEv measured) = counters_resent c measured"
| "count_one c (CheckEv e rounds elapsed) = counters_check c e rounds elapsed"

definition occurrences :: "(count_event \<Rightarrow> bool) \<Rightarrow> count_event list \<Rightarrow> nat" where
  "occurrences P evs = length (filter P evs)"

definition is_sent :: "rpc_message \<Rightarrow> count_event \<Rightarrow> bool" where
  "is_sent m e = (case e of SentEv m' n \<Rightarrow> rpc_message_name m' = rpc_message_name m | _ \<Rightarrow> False)"

definition bytes_of :: "rpc_message \<Rightarrow> count_event \<Rightarrow> nat" where
  "bytes_of m e = (case e of SentEv m' n \<Rightarrow> if rpc_message_name m' = rpc_message_name m then n else 0 | _ \<Rightarrow> 0)"

definition ended_by :: "check_end \<Rightarrow> count_event \<Rightarrow> bool" where
  "ended_by x e = (case e of CheckEv y rounds elapsed \<Rightarrow> y = x | _ \<Rightarrow> False)"

text \<open>Bucket \<open>i\<close> of the rounds holds the lookups of \<open>i + 1\<close> rounds, the last one those of five or more.\<close>

definition in_rounds :: "nat \<Rightarrow> count_event \<Rightarrow> bool" where
  "in_rounds i e = (case e of CheckEv _ rounds _ \<Rightarrow> if i = 4 then 5 \<le> rounds else rounds = i + 1 | _ \<Rightarrow> False)"

text \<open>Bucket \<open>i\<close> of the durations holds those above bound \<open>i - 1\<close> and up to bound \<open>i\<close>, in milliseconds.\<close>

definition in_duration :: "nat \<Rightarrow> count_event \<Rightarrow> bool" where
  "in_duration i e =
     (case e of
        CheckEv _ rounds elapsed \<Rightarrow>
          (let ms = elapsed div 1000000 mod 2 ^ 64; bounds = [10, 25, 50, 100, 200, 500, 1000, 2000] in
           rounds \<noteq> 0 \<and> (0 < i \<longrightarrow> bounds ! (i - 1) < ms) \<and> (i < 8 \<longrightarrow> ms \<le> bounds ! i))
      | _ \<Rightarrow> False)"

definition micros_of :: "count_event \<Rightarrow> nat" where
  "micros_of e = (case e of CheckEv _ rounds elapsed \<Rightarrow> if rounds = 0 then 0 else elapsed div 1000 | _ \<Rightarrow> 0)"

definition outcome_count :: "check_counts \<Rightarrow> check_end \<Rightarrow> u64" where
  "outcome_count k e =
     (case e of
        CheckEnd_Unbound \<Rightarrow> cc_unbound k | CheckEnd_NobodyToAsk \<Rightarrow> cc_nobody_to_ask k
      | CheckEnd_NoneOrSame \<Rightarrow> cc_none_or_same k | CheckEnd_Other \<Rightarrow> cc_other k | CheckEnd_NoAnswer \<Rightarrow> cc_no_answer k)"

lemma length_add_at [simp]: "length (add_at i n xs) = length xs"
  by (simp add: add_at_def)

lemma nth_add_at: "j < length xs \<Longrightarrow> add_at i n xs ! j = (if i = j then xs ! j + n else xs ! j)"
  by (simp add: add_at_def nth_list_update)

lemma name_position:
  "\<exists>i < length MESSAGE_TYPES. position (\<lambda>name. name = rpc_message_name m) MESSAGE_TYPES = Some i \<and>
     (\<forall>j < length MESSAGE_TYPES. MESSAGE_TYPES ! j = rpc_message_name m \<longleftrightarrow> j = i)"
proof -
  have "position (\<lambda>name. name = rpc_message_name m) MESSAGE_TYPES \<noteq> None"
    using message_name_known [of m] by simp
  then obtain i where i: "position (\<lambda>name. name = rpc_message_name m) MESSAGE_TYPES = Some i" by blast
  note D = position_SomeD [OF i]
  show ?thesis using i D message_types_distinct by (metis nth_eq_iff_index_eq)
qed

text \<open>The bucket the code chooses is the one the bounds say.\<close>

lemma duration_bucket_in: "rounds \<noteq> 0 \<Longrightarrow> j < 9 \<Longrightarrow> in_duration j (CheckEv e rounds elapsed) \<longleftrightarrow> duration_bucket elapsed = j"
proof -
  assume j: "rounds \<noteq> 0" "j < 9"
  define ms where "ms = elapsed div 1000000 mod 2 ^ 64"
  have le: "(word_of_nat (elapsed div 1000000) :: u64) \<le> 10 \<longleftrightarrow> ms \<le> 10"
    "(word_of_nat (elapsed div 1000000) :: u64) \<le> 25 \<longleftrightarrow> ms \<le> 25"
    "(word_of_nat (elapsed div 1000000) :: u64) \<le> 50 \<longleftrightarrow> ms \<le> 50"
    "(word_of_nat (elapsed div 1000000) :: u64) \<le> 100 \<longleftrightarrow> ms \<le> 100"
    "(word_of_nat (elapsed div 1000000) :: u64) \<le> 200 \<longleftrightarrow> ms \<le> 200"
    "(word_of_nat (elapsed div 1000000) :: u64) \<le> 500 \<longleftrightarrow> ms \<le> 500"
    "(word_of_nat (elapsed div 1000000) :: u64) \<le> 1000 \<longleftrightarrow> ms \<le> 1000"
    "(word_of_nat (elapsed div 1000000) :: u64) \<le> 2000 \<longleftrightarrow> ms \<le> 2000"
    by (simp_all add: word_le_nat_alt unat_of_nat ms_def)
  have "duration_bucket elapsed =
      (if ms \<le> 10 then 0 else if ms \<le> 25 then 1 else if ms \<le> 50 then 2 else if ms \<le> 100 then 3 else if ms \<le> 200 then 4
       else if ms \<le> 500 then 5 else if ms \<le> 1000 then 6 else if ms \<le> 2000 then 7 else 8)"
    by (simp add: duration_bucket_def CHECK_DURATION_BOUNDS_MS_def le Let_def)
  moreover have "in_duration j (CheckEv e rounds elapsed) \<longleftrightarrow>
      (j \<noteq> 0 \<longrightarrow> [10, 25, 50, 100, 200, 500, 1000, 2000] ! (j - 1) < ms) \<and> (j < 8 \<longrightarrow> ms \<le> [10, 25, 50, 100, 200, 500, 1000, 2000] ! j)"
    using j(1) by (simp add: in_duration_def ms_def Let_def)
  moreover have "j = 0 \<or> j = 1 \<or> j = 2 \<or> j = 3 \<or> j = 4 \<or> j = 5 \<or> j = 6 \<or> j = 7 \<or> j = 8" using j(2) by arith
  ultimately show ?thesis by (elim disjE) simp_all
qed

lemma rounds_bucket_in:
  "rounds \<noteq> 0 \<Longrightarrow> j < 5 \<Longrightarrow> in_rounds j (CheckEv e rounds elapsed) \<longleftrightarrow> min rounds CHECK_ROUND_BUCKETS - 1 = j"
  by (auto simp: in_rounds_def CHECK_ROUND_BUCKETS_def)

definition counted :: "count_event list \<Rightarrow> inner \<Rightarrow> bool" where
  "counted evs c \<longleftrightarrow>
     length (in_datagrams c) = length MESSAGE_TYPES \<and> length (in_bytes c) = length MESSAGE_TYPES \<and>
     (\<forall>i m. i < length MESSAGE_TYPES \<longrightarrow> MESSAGE_TYPES ! i = rpc_message_name m \<longrightarrow>
        in_datagrams c ! i = word_of_nat (occurrences (is_sent m) evs) \<and>
        in_bytes c ! i = word_of_nat (sum_list (map (bytes_of m) evs))) \<and>
     in_resends_measured c = word_of_nat (occurrences ((=) (ResentEv True)) evs) \<and>
     in_resends_unmeasured c = word_of_nat (occurrences ((=) (ResentEv False)) evs) \<and>
     (\<forall>e. outcome_count (in_checks c) e = word_of_nat (occurrences (ended_by e) evs)) \<and>
     length (cc_rounds (in_checks c)) = 5 \<and> length (cc_duration_ms (in_checks c)) = 9 \<and>
     (\<forall>i < 5. cc_rounds (in_checks c) ! i = word_of_nat (occurrences (in_rounds i) evs)) \<and>
     (\<forall>i < 9. cc_duration_ms (in_checks c) ! i = word_of_nat (occurrences (in_duration i) evs)) \<and>
     cc_duration_total_us (in_checks c) = word_of_nat (sum_list (map micros_of evs))"

lemma occurrences_snoc [simp]: "occurrences P (evs @ [e]) = occurrences P evs + (if P e then 1 else 0)"
  by (simp add: occurrences_def)

lemma events_apart [simp]:
  "is_sent m (ResentEv b) = False" "is_sent m (CheckEv e r el) = False" "bytes_of m (ResentEv b) = 0" "bytes_of m (CheckEv e r el) = 0"
  "ended_by x (SentEv m n) = False" "ended_by x (ResentEv b) = False" "ended_by x (CheckEv e r el) = (e = x)"
  "in_rounds i (SentEv m n) = False" "in_rounds i (ResentEv b) = False"
  "in_duration i (SentEv m n) = False" "in_duration i (ResentEv b) = False"
  "micros_of (SentEv m n) = 0" "micros_of (ResentEv b) = 0"
  by (simp_all add: is_sent_def bytes_of_def ended_by_def in_rounds_def in_duration_def micros_of_def)

lemma no_lookup_apart [simp]: "i < 5 \<Longrightarrow> in_rounds i (CheckEv e 0 el) = False" "in_duration i (CheckEv e 0 el) = False"
  "micros_of (CheckEv e 0 el) = 0"
  by (simp_all add: in_rounds_def in_duration_def micros_of_def)

lemma count_end_frame [simp]:
  "cc_rounds (count_end e k) = cc_rounds k" "cc_duration_ms (count_end e k) = cc_duration_ms k"
  "cc_duration_total_us (count_end e k) = cc_duration_total_us k"
  "outcome_count (count_end e k) x = outcome_count k x + (if e = x then 1 else 0)"
  by (cases e; cases x; simp add: count_end_def outcome_count_def)+

lemma outcome_count_update [simp]:
  "outcome_count (k\<lparr>cc_rounds := a, cc_duration_ms := b, cc_duration_total_us := d\<rparr>) = outcome_count k"
  by (simp add: fun_eq_iff outcome_count_def split: check_end.split)

lemma counted_sent:
  assumes "counted evs c"
  shows "counted (evs @ [SentEv m n]) (inner_sent c (rpc_message_name m) n)"
proof -
  obtain i where i: "i < length MESSAGE_TYPES" "position (\<lambda>name. name = rpc_message_name m) MESSAGE_TYPES = Some i"
    "\<forall>j < length MESSAGE_TYPES. MESSAGE_TYPES ! j = rpc_message_name m \<longleftrightarrow> j = i"
    using name_position by blast
  then show ?thesis using assms
    by (auto simp: counted_def inner_sent_def nth_add_at is_sent_def bytes_of_def)
qed

lemma counted_resent: "counted evs c \<Longrightarrow> counted (evs @ [ResentEv b]) (inner_resent c b)"
  by (simp add: counted_def inner_resent_def)

lemma counted_check:
  assumes "counted evs c"
  shows "counted (evs @ [CheckEv e rounds elapsed]) (inner_check c e rounds elapsed)"
proof (cases "rounds = 0")
  case True
  then show ?thesis using assms by (simp add: counted_def inner_check_def Let_def)
next
  case False
  then show ?thesis using assms
    by (simp add: counted_def inner_check_def Let_def nth_add_at rounds_bucket_in duration_bucket_in micros_of_def)
qed

lemma counted_run: "\<exists>c. foldl count_one (counters_default True) evs = Some c \<and> counted evs c"
proof (induction evs rule: rev_induct)
  case Nil
  show ?case
    by (simp add: counters_default_def counted_def inner_default_def occurrences_def CHECK_ROUND_BUCKETS_def
        CHECK_DURATION_BOUNDS_MS_def outcome_count_def nth_Cons' split: check_end.split)
next
  case (snoc e evs)
  then show ?case
    by (cases e) (auto simp: counters_sent_def counters_resent_def counters_check_def counted_sent counted_resent counted_check)
qed

lemma enumerate_nth: "(i, x) \<in> set (List.enumerate 0 xs) \<longleftrightarrow> i < length xs \<and> xs ! i = x"
  by (auto simp: in_set_enumerate_eq)

lemma snapshot_sent:
  assumes "i < length MESSAGE_TYPES"
  shows "map_of (cs_sent (inner_snapshot c)) (MESSAGE_TYPES ! i) =
    (if in_datagrams c ! i = 0 then None
     else Some \<lparr>sent_datagrams = in_datagrams c ! i, sent_bytes = in_bytes c ! i\<rparr>)"
proof -
  let ?f = "\<lambda>(i, name). (name, \<lparr>sent_datagrams = in_datagrams c ! i, sent_bytes = in_bytes c ! i\<rparr>)"
  have fsts: "map fst (map ?f (List.enumerate 0 MESSAGE_TYPES)) = MESSAGE_TYPES"
    by (simp add: comp_def case_prod_beta)
  have d: "distinct (map fst (cs_sent (inner_snapshot c)))"
    using message_types_distinct fsts by (simp add: inner_snapshot_def distinct_map_filter)
  have mem: "(MESSAGE_TYPES ! i, s) \<in> set (cs_sent (inner_snapshot c)) \<longleftrightarrow>
      s = \<lparr>sent_datagrams = in_datagrams c ! i, sent_bytes = in_bytes c ! i\<rparr> \<and> in_datagrams c ! i \<noteq> 0" for s
    using assms message_types_distinct
    by (auto simp: inner_snapshot_def enumerate_nth nth_eq_iff_index_eq word_neq_0_conv image_iff
        intro!: bexI [of _ "(i, MESSAGE_TYPES ! i)"])
  show ?thesis
  proof (cases "map_of (cs_sent (inner_snapshot c)) (MESSAGE_TYPES ! i)")
    case None
    then show ?thesis using mem by (force simp: map_of_eq_None_iff)
  next
    case (Some s)
    then show ?thesis using mem map_of_SomeD [OF Some] by auto
  qed
qed

text \<open>
  Property C40. With the feature \<open>counters\<close> the snapshot of a node's counters is exact, whatever was
  counted in whatever order: the datagrams and bytes of every message type (a type never sent is
  left out, and no type is unknown to the table), the resends to measured and to unmeasured peers,
  the checks by outcome, by rounds and by duration, and the time they took, all modulo \<open>2 ^ 64\<close> as the
  atomics wrap. Without the feature there is nothing to read.
\<close>

theorem counters_exact:
  "counters_snapshot (foldl count_one (counters_default False) evs) = None \<and>
   (\<exists>snap. counters_snapshot (foldl count_one (counters_default True) evs) = Some snap \<and>
     map_of (cs_sent snap) (rpc_message_name m) =
       (if (word_of_nat (occurrences (is_sent m) evs) :: u64) = 0 then None
        else Some \<lparr>sent_datagrams = word_of_nat (occurrences (is_sent m) evs),
                   sent_bytes = word_of_nat (sum_list (map (bytes_of m) evs))\<rparr>) \<and>
     cs_resends_to_measured_peers snap = word_of_nat (occurrences ((=) (ResentEv True)) evs) \<and>
     cs_resends_to_unmeasured_peers snap = word_of_nat (occurrences ((=) (ResentEv False)) evs) \<and>
     outcome_count (cs_checks snap) e = word_of_nat (occurrences (ended_by e) evs) \<and>
     cc_rounds (cs_checks snap) = map (\<lambda>i. word_of_nat (occurrences (in_rounds i) evs)) [0..<5] \<and>
     cc_duration_ms (cs_checks snap) = map (\<lambda>i. word_of_nat (occurrences (in_duration i) evs)) [0..<9] \<and>
     cc_duration_total_us (cs_checks snap) = word_of_nat (sum_list (map micros_of evs)))"
proof -
  have "count_one None e = None" for e by (cases e) (simp_all add: counters_sent_def counters_resent_def counters_check_def)
  then have off: "foldl count_one None evs = None" by (induction evs) simp_all
  obtain c where c: "foldl count_one (counters_default True) evs = Some c" "counted evs c" using counted_run by blast
  obtain i where i: "i < length MESSAGE_TYPES" "MESSAGE_TYPES ! i = rpc_message_name m"
    using name_position [of m] by blast
  have "map_of (cs_sent (inner_snapshot c)) (rpc_message_name m) =
      (if (word_of_nat (occurrences (is_sent m) evs) :: u64) = 0 then None
       else Some \<lparr>sent_datagrams = word_of_nat (occurrences (is_sent m) evs),
                  sent_bytes = word_of_nat (sum_list (map (bytes_of m) evs))\<rparr>)"
    using snapshot_sent [OF i(1), of c] c(2) i by (simp add: counted_def)
  moreover have "cc_rounds (in_checks c) = map (\<lambda>i. word_of_nat (occurrences (in_rounds i) evs)) [0..<5]"
    "cc_duration_ms (in_checks c) = map (\<lambda>i. word_of_nat (occurrences (in_duration i) evs)) [0..<9]"
    using c(2) by (auto simp: counted_def intro!: nth_equalityI)
  ultimately show ?thesis using c off
    by (simp add: counters_snapshot_def counters_default_def counted_def inner_snapshot_def)
qed

end
