(* ===== verification/Protocol.thy ===== *)
theory Protocol
  imports RoutingProps Storage Fragmentation Retransmit Messages Auth Counters
begin

text \<open>
  The state of a node and the upkeep of its contacts: \<open>src/src/protocol/mod.rs\<close>,
  \<open>src/src/protocol/contacts.rs\<close> and \<open>src/src/protocol/welcome.rs\<close>.

  \<open>KademliaProtocol\<close> is the record \<open>proto\<close>. Three things it stands beside in the source are fields
  of the record here: the clocks as they read now (\<open>pr_clock\<close>; the environment advances them), the
  datagrams handed to the socket (\<open>pr_sent\<close>), and the channels between a call and the receive path
  (\<open>pr_replies\<close>, \<open>pr_permits\<close>; a channel is a number, drawn from \<open>pr_next_chan\<close>). A spawned task
  is a value of type \<open>task\<close> in \<open>pr_tasks\<close> until it has run. Code between two awaits runs as one
  step.
\<close>

subsection \<open>State\<close>

text \<open>\<open>Instant::now\<close>, \<open>now_secs\<close> and the random part of \<open>with_jitter\<close>.\<close>

record clock =
  ck_now :: instant
  ck_secs :: nat
  ck_jit :: "duration \<Rightarrow> duration"

record pending_call =
  pc_peer :: sock_addr
  pc_expected :: expected_response
  pc_chan :: nat

type_synonym request_key = "sock_addr \<times> bytes"

datatype task =
    PingOldest node
  | Replicate node
  | AnswerStore sock_addr u32 rpc_message request_key

record proto =
  pr_router :: routing_table
  pr_storage :: storage
  pr_source_node :: node
  pr_ksize :: nat
  pr_alpha :: nat
  pr_store_lookups :: nat
  pr_sig_cache :: "signature_cache option"
  pr_welcome_in_flight :: "node_id set"
  pr_oldest_pings_in_flight :: "node_id set"
  pr_pending :: "(u32 \<times> pending_call) list"
  pr_round_trips :: round_trips
  pr_requests_in_progress :: "request_key set"
  pr_counters :: counters
  pr_next_msg_id :: u32
  pr_next_frag_id :: u32
  pr_reassembly :: reassembly_map
  pr_last_reassembly_gc :: instant
  pr_tasks :: "task list option"
  pr_seeds :: "(bytes \<times> u16) list"
  pr_clock :: clock
  pr_sent :: "(sock_addr \<times> bytes) list"
  pr_replies :: "(nat \<times> rpc_message) list"
  pr_permits :: "nat set"
  pr_next_chan :: nat

abbreviation pnow :: "proto \<Rightarrow> instant" where
  "pnow p \<equiv> ck_now (pr_clock p)"

definition protocol_new ::
    "clock \<Rightarrow> bool \<Rightarrow> node \<Rightarrow> storage \<Rightarrow> nat \<Rightarrow> nat \<Rightarrow> signature_cache option \<Rightarrow> proto" where
  "protocol_new ck feature source_node st ksize alpha sig_cache =
     \<lparr>pr_router = rt_new (ck_secs ck) source_node ksize, pr_storage = st, pr_source_node = source_node,
      pr_ksize = ksize, pr_alpha = alpha, pr_store_lookups = 0, pr_sig_cache = sig_cache,
      pr_welcome_in_flight = {}, pr_oldest_pings_in_flight = {}, pr_pending = [],
      pr_round_trips = round_trips_default, pr_requests_in_progress = {},
      pr_counters = counters_default feature, pr_next_msg_id = 0, pr_next_frag_id = 0,
      pr_reassembly = [], pr_last_reassembly_gc = ck_now ck, pr_tasks = Some [], pr_seeds = [],
      pr_clock = ck, pr_sent = [], pr_replies = [], pr_permits = {}, pr_next_chan = 0\<rparr>"

subsection \<open>Tasks and seeds\<close>

text \<open>
  What dropping a task that has not finished gives back: the place and the mark a STORE holds
  (\<open>Drop\<close> of \<open>StoreLookupSlot\<close> and \<open>InProgress\<close>). The other tasks hold no guard.
\<close>

definition drop_task :: "proto \<Rightarrow> task \<Rightarrow> proto" where
  "drop_task p t =
     (case t of
        AnswerStore _ _ _ key \<Rightarrow>
          p\<lparr>pr_store_lookups := pr_store_lookups p - 1,
            pr_requests_in_progress := pr_requests_in_progress p - {key}\<rparr>
      | _ \<Rightarrow> p)"

definition spawn_task :: "proto \<Rightarrow> task \<Rightarrow> proto" where
  "spawn_task p t =
     (case pr_tasks p of
        None \<Rightarrow> drop_task p t
      | Some ts \<Rightarrow> p\<lparr>pr_tasks := Some (ts @ [t])\<rparr>)"

definition take_tasks :: "proto \<Rightarrow> proto \<times> task list option" where
  "take_tasks p = (p\<lparr>pr_tasks := None\<rparr>, pr_tasks p)"

text \<open>\<open>shutdown_tasks\<close> waits until the tasks are gone, \<open>abort_tasks\<close> does not.\<close>

definition shutdown_tasks :: "proto \<Rightarrow> proto" where
  "shutdown_tasks p =
     (let (p1, ts) = take_tasks p in
      case ts of None \<Rightarrow> p1 | Some ts \<Rightarrow> foldl drop_task p1 ts)"

definition remember_seeds :: "proto \<Rightarrow> (bytes \<times> u16) list \<Rightarrow> proto" where
  "remember_seeds p addrs =
     foldl (\<lambda>p addr. if addr \<in> set (pr_seeds p) then p else p\<lparr>pr_seeds := pr_seeds p @ [addr]\<rparr>) p addrs"

definition seeds :: "proto \<Rightarrow> (bytes \<times> u16) list" where
  "seeds p = pr_seeds p"

subsection \<open>Contacts\<close>

definition RPC_TIMEOUT :: duration where
  "RPC_TIMEOUT = millis 2500"

definition RETURNED_AFTER :: duration where
  "RETURNED_AFTER = RPC_TIMEOUT"

definition note_failure :: "proto \<Rightarrow> node \<Rightarrow> proto" where
  "note_failure p peer =
     p\<lparr>pr_router := record_failure_at (ck_jit (pr_clock p)) (pr_router p) peer (pnow p)\<rparr>"

definition note_alive :: "proto \<Rightarrow> node \<Rightarrow> proto \<times> duration option" where
  "note_alive p n =
     (let router = pr_router p in
      if \<not> has_failures router (nid n) then (p, None)
      else
        (let from_registered_endpoint =
               (case get_contact router (nid n) of
                  None \<Rightarrow> False
                | Some contact \<Rightarrow> same_home_as contact n)
         in if \<not> from_registered_endpoint \<and> \<not> is_stale router (nid n) then (p, None)
            else
              (let (router', silent_for) = record_success router (nid n) (pnow p)
               in (p\<lparr>pr_router := router'\<rparr>, silent_for))))"

text \<open>
  \<open>RoutingTable::add_contact\<close> returns on every table that satisfies its invariant
  (\<open>rt_insert_returns\<close>); the first branch is not taken on one.
\<close>

definition proto_add_contact :: "proto \<Rightarrow> node \<Rightarrow> proto" where
  "proto_add_contact p n =
     (case add_contact (ck_secs (pr_clock p)) (pr_router p) n of
        None \<Rightarrow> p
      | Some (router, oldest) \<Rightarrow>
          (let p1 = p\<lparr>pr_router := router\<rparr> in
           case oldest of
             None \<Rightarrow> p1
           | Some old \<Rightarrow>
               if nid old \<in> pr_oldest_pings_in_flight p1 then p1
               else spawn_task
                      (p1\<lparr>pr_oldest_pings_in_flight := insert (nid old) (pr_oldest_pings_in_flight p1)\<rparr>)
                      (PingOldest old)))"

definition probe_due :: "proto \<Rightarrow> nat \<Rightarrow> node list" where
  "probe_due p limit = contacts_due_for_probe (pr_router p) limit (pnow p)"

definition proto_find_neighbors :: "proto \<Rightarrow> node \<Rightarrow> node option \<Rightarrow> proto \<times> node list" where
  "proto_find_neighbors p target exclude =
     (let (router, ns) = find_neighbors (ck_secs (pr_clock p)) (pr_router p) target exclude
      in (p\<lparr>pr_router := router\<rparr>, ns))"

text \<open>
  The identifier to refresh a bucket with. \<open>rand_bytes\<close> are the 20 random bytes drawn for it;
  \<open>U256\<close> arithmetic is that of 256-bit words, and \<open>to_big_endian\<close> writes all 32 bytes.
\<close>

definition refresh_id :: "bytes \<Rightarrow> kbucket \<Rightarrow> node_id" where
  "refresh_id rand_bytes b =
     (let lo = fst (bk_range b); hi = snd (bk_range b);
          span = hi - lo + 1;
          r = word_of_int (from_be rand_bytes);
          val = lo + r mod span
      in id_of_bytes (drop 12 (to_be 32 (uint val))))"

definition get_refresh_ids :: "(nat \<Rightarrow> bytes) \<Rightarrow> proto \<Rightarrow> node_id list" where
  "get_refresh_ids rnd p =
     map (\<lambda>(i, b). refresh_id (rnd i) b)
       (List.enumerate 0 (lonely_buckets (ck_secs (pr_clock p)) (pr_router p)))"

subsection \<open>Nodes met through a message\<close>

definition WELCOME_CONCURRENCY :: nat where
  "WELCOME_CONCURRENCY = 1"

definition MAX_WELCOME_QUEUE :: nat where
  "MAX_WELCOME_QUEUE = 256"

definition WELCOME_SCAN_CHUNK :: nat where
  "WELCOME_SCAN_CHUNK = 256"

definition REPLICATION_CONCURRENCY :: nat where
  "REPLICATION_CONCURRENCY = 4"

definition schedule_welcome_if_new :: "proto \<Rightarrow> node \<Rightarrow> proto" where
  "schedule_welcome_if_new p n =
     (let (p1, silent) = note_alive p n;
          returned = (case silent of None \<Rightarrow> False | Some silent_for \<Rightarrow> silent_for \<ge> RETURNED_AFTER)
      in if \<not> returned \<and> \<not> is_new_node (pr_router p1) n then p1
         else
           (let p2 = proto_add_contact p1 n in
            if nid n \<in> pr_welcome_in_flight p2 then p2
            else if card (pr_welcome_in_flight p2) \<ge> MAX_WELCOME_QUEUE then p2
            else spawn_task (p2\<lparr>pr_welcome_in_flight := insert (nid n) (pr_welcome_in_flight p2)\<rparr>)
                   (Replicate n)))"

text \<open>
  One entry of the scan of \<open>replicate_to\<close>.
\<close>

definition replicate_entry ::
    "node \<Rightarrow> proto \<times> (node_id \<times> bytes) list \<Rightarrow> bytes \<times> bytes \<Rightarrow> proto \<times> (node_id \<times> bytes) list" where
  "replicate_entry n = (\<lambda>(p, keys_to_replicate) (key_vec, record).
     if length key_vec \<noteq> ID_LEN then (p, keys_to_replicate)
     else
       (let key = id_of_bytes key_vec; key_node = from_id key;
            (p', neighbors) = proto_find_neighbors p key_node (Some n);
            new_node_close =
              (if neighbors = [] then True
               else distance_to n key_node < distance_to (last neighbors) key_node);
            this_closest =
              (if neighbors = [] then True
               else distance_to (pr_source_node p) key_node < distance_to (hd neighbors) key_node)
        in if new_node_close \<and> this_closest then (p', keys_to_replicate @ [(key, record)])
           else (p', keys_to_replicate)))"

end
