(* ===== verification/Client.thy ===== *)
theory Client
  imports Protocol Crawling
begin

text \<open>
  The requests a node sends (\<open>src/src/protocol/client.rs\<close>) and the tasks built on them.

  A call waits for the network: while it does, time passes, other tasks run and datagrams arrive.
  The record \<open>env\<close> says what a call comes back to: \<open>en_rpc\<close> gives the state of the node when the
  call ends and the answer it ends with. \<open>Transport\<close> defines the call itself and shows that it is
  such an environment. \<open>en_yield\<close> gives the state after the other tasks have run while a
  signature is checked on a blocking thread. \<open>en_done\<close> ranks the requests of a batch by the order in which they complete;
  \<open>en_cut\<close> says after how many completions a deadline cuts a round short, and whether the requests
  had been silent long enough to count; \<open>en_hash_order\<close> is the iteration order of a \<open>HashMap\<close>.
  The answers of one round are handled once the last of them has arrived.
\<close>

subsection \<open>Socket addresses\<close>

text \<open>
  \<open>str::parse::<SocketAddr>\<close> on \<open>ip:port\<close>: four decimal octets without leading zeros, or an IPv6
  address in brackets, whose text \<open>ipv6\<close> reads (\<open>std::net\<close>). An address is its canonical text.
\<close>

fun split_on :: "u8 \<Rightarrow> bytes \<Rightarrow> bytes list" where
  "split_on c [] = [[]]"
| "split_on c (b # bs) =
     (if b = c then [] # split_on c bs
      else (case split_on c bs of [] \<Rightarrow> [[b]] | x # xs \<Rightarrow> (b # x) # xs))"

definition is_digit :: "u8 \<Rightarrow> bool" where
  "is_digit b \<longleftrightarrow> 48 \<le> b \<and> b \<le> 57"

definition decimal :: "bytes \<Rightarrow> nat" where
  "decimal bs = foldl (\<lambda>n b. n * 10 + (unat b - 48)) 0 bs"

definition is_octet :: "bytes \<Rightarrow> bool" where
  "is_octet bs \<longleftrightarrow>
     bs \<noteq> [] \<and> length bs \<le> 3 \<and> list_all is_digit bs \<and> (length bs > 1 \<longrightarrow> hd bs \<noteq> 48) \<and> decimal bs \<le> 255"

definition is_ipv4 :: "bytes \<Rightarrow> bool" where
  "is_ipv4 ip \<longleftrightarrow> (let parts = split_on 46 ip in length parts = 4 \<and> list_all is_octet parts)"

definition socket_addr :: "(bytes \<Rightarrow> bytes option) \<Rightarrow> bytes \<times> u16 \<Rightarrow> sock_addr option" where
  "socket_addr ipv6 = (\<lambda>(ip, port).
     if is_ipv4 ip then Some (ip, port)
     else if length ip \<ge> 2 \<and> hd ip = 91 \<and> last ip = 93
     then map_option (\<lambda>text. (text, port)) (ipv6 (butlast (tl ip)))
     else None)"

definition socket_addr_of :: "(bytes \<Rightarrow> bytes option) \<Rightarrow> node \<Rightarrow> sock_addr option" where
  "socket_addr_of ipv6 peer = Option.bind (address peer) (socket_addr ipv6)"

subsection \<open>The environment of a call\<close>

record env =
  en_rpc :: "proto \<Rightarrow> sock_addr \<Rightarrow> rpc_message \<Rightarrow> proto \<times> rpc_message option"
  en_yield :: "proto \<Rightarrow> proto"
  en_done :: "proto \<Rightarrow> nat \<Rightarrow> nat"
  en_cut :: "proto \<Rightarrow> (nat \<times> bool) option"
  en_deadline_passed :: "proto \<Rightarrow> bool"
  en_hash_order :: "proto \<Rightarrow> node_id \<Rightarrow> nat"
  en_ipv6 :: "bytes \<Rightarrow> bytes option"

text \<open>
  Concurrent requests: they end in the order of \<open>rank\<close>, each on the state the previous one left.
  \<open>run_ranked\<close> gives the results in that order, \<open>join_all\<close> in the order of the requests.
\<close>

fun run_each :: "('p \<Rightarrow> 'a \<Rightarrow> 'p \<times> 'b) \<Rightarrow> 'p \<Rightarrow> 'a list \<Rightarrow> 'p \<times> 'b list" where
  "run_each f p [] = (p, [])"
| "run_each f p (x # xs) =
     (let (p1, r) = f p x; (p2, rs) = run_each f p1 xs in (p2, r # rs))"

definition run_ranked :: "(nat \<Rightarrow> nat) \<Rightarrow> ('p \<Rightarrow> 'a \<Rightarrow> 'p \<times> 'b) \<Rightarrow> 'p \<Rightarrow> 'a list \<Rightarrow> 'p \<times> (nat \<times> 'b) list" where
  "run_ranked rank f p xs =
     (let order = sort_key rank [0..<length xs];
          (p', rs) = run_each (\<lambda>p i. f p (xs ! i)) p order
      in (p', zip order rs))"

definition join_all :: "(nat \<Rightarrow> nat) \<Rightarrow> ('p \<Rightarrow> 'a \<Rightarrow> 'p \<times> 'b) \<Rightarrow> 'p \<Rightarrow> 'a list \<Rightarrow> 'p \<times> 'b list" where
  "join_all rank f p xs =
     (let (p', done) = run_ranked rank f p xs
      in (p', map (\<lambda>i. the (map_of done i)) [0..<length xs]))"

subsection \<open>Requests of the lookups\<close>

definition no_response :: raw_response where
  "no_response = \<lparr>rr_happened = False, rr_payload = Empty\<rparr>"

definition wire_tuples :: "wire_node list \<Rightarrow> (bytes \<times> bytes option \<times> u16 option) list" where
  "wire_tuples ws = map (\<lambda>w. (id_bytes (wn_id w), wn_ip w, wn_port w)) ws"

definition call_find_node :: "env \<Rightarrow> proto \<Rightarrow> node \<Rightarrow> node \<Rightarrow> proto \<times> raw_response" where
  "call_find_node E p peer target =
     (case socket_addr_of (en_ipv6 E) peer of
        None \<Rightarrow> (p, no_response)
      | Some addr \<Rightarrow>
          (case en_rpc E p addr (FindNode (nid (pr_source_node p)) (nid target)) of
             (p1, Some (FindNodeResult nodes)) \<Rightarrow>
               (schedule_welcome_if_new p1 peer,
                \<lparr>rr_happened = True, rr_payload = Nodes (wire_tuples nodes)\<rparr>)
           | (p1, _) \<Rightarrow> (note_failure p1 peer, no_response)))"

definition call_find :: "env \<Rightarrow> proto \<Rightarrow> node \<Rightarrow> rpc_message \<Rightarrow> proto \<times> raw_response" where
  "call_find E p peer request =
     (case socket_addr_of (en_ipv6 E) peer of
        None \<Rightarrow> (p, no_response)
      | Some addr \<Rightarrow>
          (case en_rpc E p addr request of
             (p1, Some (FindValueHit value)) \<Rightarrow>
               (schedule_welcome_if_new p1 peer, \<lparr>rr_happened = True, rr_payload = Value value\<rparr>)
           | (p1, Some (FindHashHit hash)) \<Rightarrow>
               (schedule_welcome_if_new p1 peer, \<lparr>rr_happened = True, rr_payload = Value hash\<rparr>)
           | (p1, Some (FindValueNodes nodes)) \<Rightarrow>
               (schedule_welcome_if_new p1 peer,
                \<lparr>rr_happened = True, rr_payload = Nodes (wire_tuples nodes)\<rparr>)
           | (p1, _) \<Rightarrow> (note_failure p1 peer, no_response)))"

definition call_find_value :: "env \<Rightarrow> proto \<Rightarrow> node \<Rightarrow> node \<Rightarrow> proto \<times> raw_response" where
  "call_find_value E p peer target =
     call_find E p peer (FindValue (nid (pr_source_node p)) (nid target))"

definition call_find_hash :: "env \<Rightarrow> proto \<Rightarrow> node \<Rightarrow> node \<Rightarrow> proto \<times> raw_response" where
  "call_find_hash E p peer target =
     call_find E p peer (FindHash (nid (pr_source_node p)) (nid target))"

subsection \<open>Other requests\<close>

definition call_ping_addr :: "env \<Rightarrow> proto \<Rightarrow> bytes \<times> u16 \<Rightarrow> proto \<times> bool \<times> bytes" where
  "call_ping_addr E p addr =
     (case socket_addr (en_ipv6 E) addr of
        None \<Rightarrow> (p, False, [])
      | Some sock_addr \<Rightarrow>
          (case en_rpc E p sock_addr (Ping (nid (pr_source_node p))) of
             (p1, Some (Pong sender_id)) \<Rightarrow> (p1, True, id_bytes sender_id)
           | (p1, _) \<Rightarrow> (p1, False, [])))"

definition call_store_rpc :: "env \<Rightarrow> proto \<Rightarrow> node \<Rightarrow> node_id \<Rightarrow> bytes \<Rightarrow> proto \<times> store_status option" where
  "call_store_rpc E p peer key record =
     (case socket_addr_of (en_ipv6 E) peer of
        None \<Rightarrow> (p, None)
      | Some addr \<Rightarrow>
          (case en_rpc E p addr (Store (nid (pr_source_node p)) key record) of
             (p1, Some (StoreResult status)) \<Rightarrow> (fst (note_alive p1 peer), Some status)
           | (p1, _) \<Rightarrow> (note_failure p1 peer, None)))"

definition call_store :: "env \<Rightarrow> proto \<Rightarrow> node \<Rightarrow> node_id \<Rightarrow> bytes \<Rightarrow> proto \<times> bool" where
  "call_store E p peer key record =
     (let (p1, status) = call_store_rpc E p peer key record
      in (p1, status = Some StoreStatus_Stored \<or> status = Some StoreStatus_AlreadyStored))"

definition call_update_rpc_answer ::
    "env \<Rightarrow> proto \<Rightarrow> node \<Rightarrow> node_id \<Rightarrow> bytes \<Rightarrow> bytes \<Rightarrow> proto \<times> bool option" where
  "call_update_rpc_answer E p peer key record auth_signature =
     (case socket_addr_of (en_ipv6 E) peer of
        None \<Rightarrow> (p, None)
      | Some addr \<Rightarrow>
          (case en_rpc E p addr (Update (nid (pr_source_node p)) key record auth_signature) of
             (p1, Some (UpdateResult ok)) \<Rightarrow> (fst (note_alive p1 peer), Some ok)
           | (p1, _) \<Rightarrow> (note_failure p1 peer, None)))"

definition call_update_rpc ::
    "env \<Rightarrow> proto \<Rightarrow> node \<Rightarrow> node_id \<Rightarrow> bytes \<Rightarrow> bytes \<Rightarrow> proto \<times> bool" where
  "call_update_rpc E p peer key record auth_signature =
     (let (p1, answer) = call_update_rpc_answer E p peer key record auth_signature
      in (p1, case answer of None \<Rightarrow> False | Some ok \<Rightarrow> ok))"

definition call_status_list_update_rpc ::
    "env \<Rightarrow> proto \<Rightarrow> node \<Rightarrow> node_id \<Rightarrow> bytes \<Rightarrow> proto \<times> bool" where
  "call_status_list_update_rpc E p peer key record =
     (case socket_addr_of (en_ipv6 E) peer of
        None \<Rightarrow> (p, False)
      | Some addr \<Rightarrow>
          (case en_rpc E p addr (UpdateStatusList (nid (pr_source_node p)) key record) of
             (p1, Some (UpdateStatusListResult ok)) \<Rightarrow> (fst (note_alive p1 peer), ok)
           | (p1, _) \<Rightarrow> (note_failure p1 peer, False)))"

definition call_ping_node :: "env \<Rightarrow> proto \<Rightarrow> node \<Rightarrow> proto" where
  "call_ping_node E p n =
     (case address n of
        None \<Rightarrow> p
      | Some addr \<Rightarrow>
          (let (p1, ok, _) = call_ping_addr E p addr in if \<not> ok then note_failure p1 n else p1))"

definition probe_failing_contacts :: "env \<Rightarrow> proto \<Rightarrow> nat \<Rightarrow> proto" where
  "probe_failing_contacts E p limit =
     fst (join_all (en_done E p) (\<lambda>p n. (call_ping_node E p n, ())) p (probe_due p limit))"

definition failing_among :: "proto \<Rightarrow> node list \<Rightarrow> node_id set" where
  "failing_among p ns = set (map nid (filter (\<lambda>n. has_failures (pr_router p) (nid n)) ns))"

definition note_no_answer :: "proto \<Rightarrow> node list \<Rightarrow> proto" where
  "note_no_answer p ns = foldl note_failure p ns"

text \<open>
  The scan of \<open>replicate_to\<close> takes the read lock again, an \<open>await\<close>, every \<open>WELCOME_SCAN_CHUNK\<close>
  entries.
\<close>

function replicate_scan ::
    "env \<Rightarrow> node \<Rightarrow> proto \<Rightarrow> (node_id \<times> bytes) list \<Rightarrow> (bytes \<times> bytes) list \<Rightarrow>
     proto \<times> (node_id \<times> bytes) list" where
  "replicate_scan E n p keys_to_replicate entries =
     (if entries = [] then (p, keys_to_replicate)
      else
        (let (p1, keys) = foldl (replicate_entry n) (en_yield E p, keys_to_replicate) (take WELCOME_SCAN_CHUNK entries)
         in replicate_scan E n p1 keys (drop WELCOME_SCAN_CHUNK entries)))"
  by pat_completeness auto
termination
  by (relation "measure (\<lambda>(E, n, p, ks, es). length es)") (auto simp: WELCOME_SCAN_CHUNK_def)

declare replicate_scan.simps [simp del]

text \<open>Then the STOREs, at most \<open>REPLICATION_CONCURRENCY\<close> at a time.\<close>

definition replicate_to :: "env \<Rightarrow> proto \<Rightarrow> node \<Rightarrow> proto" where
  "replicate_to E p n =
     (let (p1, keys_to_replicate) = replicate_scan E n p [] (iter_all (pnow p) (pr_storage p))
      in fst (join_all (en_done E p1) (\<lambda>p (key, record). call_store_rpc E p n key record) p1 keys_to_replicate))"

subsection \<open>\<open>SpiderProtocol\<close>\<close>

text \<open>
  The completions of a \<open>JoinSet\<close>: the requests in the order they complete, cut by the deadline.
  \<open>request\<close> is the call the search makes, \<open>call_find_value\<close> or \<open>call_find_hash\<close>.
\<close>

definition join_events ::
    "env \<Rightarrow> (env \<Rightarrow> proto \<Rightarrow> node \<Rightarrow> node \<Rightarrow> proto \<times> raw_response) \<Rightarrow> proto \<Rightarrow> node list \<Rightarrow> node \<Rightarrow>
     proto \<times> join_event list" where
  "join_events E request p peers target =
     (let order = sort_key (en_done E p) [0..<length peers];
          answered = (case en_cut E p of None \<Rightarrow> length peers | Some (k, _) \<Rightarrow> k);
          (p', rs) = run_each (\<lambda>p i. request E p (peers ! i) target) p (take answered order);
          timeout = (case en_cut E p of None \<Rightarrow> [] | Some (k, silent) \<Rightarrow> if k < length peers then [TimedOut silent] else [])
      in (p', map (\<lambda>(i, raw). Answer (nid (peers ! i)) raw) (zip (take answered order) rs) @ timeout))"

definition kad_spider ::
    "env \<Rightarrow> (env \<Rightarrow> proto \<Rightarrow> node \<Rightarrow> node \<Rightarrow> proto \<times> raw_response) \<Rightarrow> proto spider" where
  "kad_spider E request =
     \<lparr>sp_find_nodes = (\<lambda>p peers target. join_all (en_done E p) (\<lambda>p peer. call_find_node E p peer target) p peers),
      sp_find_values = (\<lambda>p peers target. join_all (en_done E p) (\<lambda>p peer. call_find_value E p peer target) p peers),
      sp_join = join_events E request,
      sp_store = call_store E,
      sp_failing_among = (\<lambda>p ns. (p, failing_among p ns)),
      sp_note_no_answer = note_no_answer,
      sp_deadline_passed = en_deadline_passed E,
      sp_order = en_hash_order E\<rparr>"

subsection \<open>Results of concurrent requests\<close>

lemma run_each_results:
  "length (snd (run_each f p xs)) = length xs"
  "r \<in> set (snd (run_each f p xs)) \<Longrightarrow> \<exists>q. \<exists>x \<in> set xs. r = snd (f q x)"
proof (induction xs arbitrary: p)
  case (Cons x xs)
  {
    case 1 show ?case using Cons.IH(1) by (simp add: Let_def case_prod_beta)
  next
    case 2 then show ?case using Cons.IH(2) by (fastforce simp: Let_def case_prod_beta)
  }
qed simp_all

lemma run_ranked_results:
  "map fst (snd (run_ranked rank f p xs)) = sort_key rank [0..<length xs]"
  "(i, r) \<in> set (snd (run_ranked rank f p xs)) \<Longrightarrow> \<exists>q. \<exists>x \<in> set xs. r = snd (f q x)"
proof -
  let ?o = "sort_key rank [0..<length xs]"
  show "map fst (snd (run_ranked rank f p xs)) = ?o"
    by (simp add: run_ranked_def Let_def case_prod_beta run_each_results(1))
  assume "(i, r) \<in> set (snd (run_ranked rank f p xs))"
  then have "r \<in> set (snd (run_each (\<lambda>p i. f p (xs ! i)) p ?o))"
    by (auto simp: run_ranked_def Let_def case_prod_beta dest: set_zip_rightD)
  then show "\<exists>q. \<exists>x \<in> set xs. r = snd (f q x)"
    using run_each_results(2) [of r "\<lambda>p i. f p (xs ! i)" p ?o] by fastforce
qed

lemma join_all_results:
  "length (snd (join_all rank f p xs)) = length xs"
  "r \<in> set (snd (join_all rank f p xs)) \<Longrightarrow> \<exists>q. \<exists>x \<in> set xs. r = snd (f q x)"
proof -
  show "length (snd (join_all rank f p xs)) = length xs" by (simp add: join_all_def Let_def case_prod_beta)
  let ?d = "snd (run_ranked rank f p xs)"
  assume "r \<in> set (snd (join_all rank f p xs))"
  then obtain i where i: "i < length xs" "r = the (map_of ?d i)"
    by (auto simp: join_all_def Let_def case_prod_beta)
  have "i \<in> fst ` set ?d" using i(1) run_ranked_results(1) [of rank f p xs] by (metis atLeast0LessThan list.set_map lessThan_iff set_sort set_upt)
  then have "(i, r) \<in> set ?d" using i(2) by (metis map_of_SomeD map_of_eq_None_iff option.exhaust_sel)
  then show "\<exists>q. \<exists>x \<in> set xs. r = snd (f q x)" by (rule run_ranked_results(2))
qed

end
