(* ===== verification/Handlers.thy ===== *)
theory Handlers
  imports Client
begin

text \<open>
  What a node does with each request: the network check of an empty replica and STORE
  (\<open>src/src/protocol/store_check.rs\<close>), and the other handlers (\<open>src/src/protocol/handlers.rs\<close>).

  \<open>D\<close> are the third-party functions of \<open>Crypto\<close>, \<open>h\<close> is the signature handler of the node, \<open>E\<close> the
  environment of its calls.
\<close>

subsection \<open>Verification of a record for a key\<close>

text \<open>The check runs on a blocking thread, and the other tasks of the node run meanwhile.\<close>

definition verify_for_key ::
    "env \<Rightarrow> 'j deps \<Rightarrow> handler \<Rightarrow> proto \<Rightarrow> node_id \<Rightarrow> bytes \<Rightarrow> proto \<times> bool" where
  "verify_for_key E D h p key record =
     (let p1 = en_yield E p;
          (ok, cache) = verify_record D h (pr_sig_cache p1) key record
      in (p1\<lparr>pr_sig_cache := cache\<rparr>, ok))"

definition key_binding_is_valid :: "'j deps \<Rightarrow> handler \<Rightarrow> node_id \<Rightarrow> bytes \<Rightarrow> bool" where
  "key_binding_is_valid D h key record = is_bound_to_key D h key record"

subsection \<open>STORE\<close>

definition STORE_LOOKUP_TIMEOUT :: duration where
  "STORE_LOOKUP_TIMEOUT = millis 2000"

definition MAX_STORE_LOOKUPS :: nat where
  "MAX_STORE_LOOKUPS = 256"

datatype network_copy_result = NoneOrSame | Other | Unknown

text \<open>\<open>fetch_add\<close>, then \<open>fetch_sub\<close> when there is no place left.\<close>

definition slot_take :: "proto \<Rightarrow> proto option" where
  "slot_take p =
     (if pr_store_lookups p \<ge> MAX_STORE_LOOKUPS then None
      else Some (p\<lparr>pr_store_lookups := pr_store_lookups p + 1\<rparr>))"

definition slot_drop :: "proto \<Rightarrow> proto" where
  "slot_drop p = p\<lparr>pr_store_lookups := pr_store_lookups p - 1\<rparr>"

definition store_needs_lookup :: "'j deps \<Rightarrow> proto \<Rightarrow> node_id \<Rightarrow> bool" where
  "store_needs_lookup D p key \<longleftrightarrow>
     key \<noteq> digest D STATUS_LIST_KEY \<and> st_get (pnow p) (id_bytes key) (pr_storage p) = None"

definition count_check :: "proto \<Rightarrow> check_end \<Rightarrow> nat \<Rightarrow> duration \<Rightarrow> proto" where
  "count_check p e rounds elapsed =
     p\<lparr>pr_counters := counters_check (pr_counters p) e rounds elapsed\<rparr>"

definition network_copy ::
    "env \<Rightarrow> 'j deps \<Rightarrow> proto \<Rightarrow> node_id \<Rightarrow> bytes \<Rightarrow> proto \<times> network_copy_result" where
  "network_copy E D p key record =
     (let started = pnow p;
          target = from_id key;
          (p1, neighbors) = proto_find_neighbors p target None;
          own_distance = distance_to (pr_source_node p1) target;
          closer = length (filter (\<lambda>n. distance_to n target < own_distance) neighbors);
          nearest = filter (\<lambda>n. \<not> has_failures (pr_router p1) (nid n)) neighbors;
          among_closest = (closer < pr_ksize p1)
      in if nearest = [] then (count_check p1 CheckEnd_NobodyToAsk 0 (pnow p1 - started), Unknown)
         else
           (let own = record_hash (sha256 D) record;
                crawl = crawl_new p1 target nearest (pr_ksize p1) (pr_alpha p1);
                crawl = (if among_closest then asking_everyone crawl else crawl);
                (crawl', result) =
                  search (kad_spider E call_find_hash) True
                    (\<lambda>p found. (p, if found \<noteq> own then Some found else None)) crawl False;
                (copy, e) =
                  (case result of
                     Found _ \<Rightarrow> (Other, CheckEnd_Other)
                   | NotFound \<Rightarrow> (NoneOrSame, CheckEnd_NoneOrSame)
                   | Incomplete \<Rightarrow> (Unknown, CheckEnd_NoAnswer));
                p2 = cr_protocol crawl'
            in (count_check p2 e (cr_rounds crawl') (pnow p2 - started), copy)))"

text \<open>The part of \<open>rpc_store\<close> after the check of the network.\<close>

definition store_verified ::
    "env \<Rightarrow> 'j deps \<Rightarrow> handler \<Rightarrow> proto \<Rightarrow> node_id \<Rightarrow> sock_addr \<Rightarrow> node_id \<Rightarrow> bytes \<Rightarrow>
     proto \<times> store_status option" where
  "store_verified E D h p sender_id sender_addr key record =
     (let (p1, ok) = verify_for_key E D h p key record in
      if \<not> ok then (p1, Some StoreStatus_InvalidRecord)
      else
        (let (st, written) = insert_if_absent (pnow p1) (id_bytes key) record (pr_storage p1);
             p2 = p1\<lparr>pr_storage := st\<rparr>;
             status = from_write_status written
         in if status = StoreStatus_Stored \<or> status = StoreStatus_AlreadyStored
            then (schedule_welcome_if_new p2
                    (node_new sender_id (Some (fst sender_addr)) (Some (snd sender_addr))), Some status)
            else (p2, Some status)))"

definition rpc_store ::
    "env \<Rightarrow> 'j deps \<Rightarrow> handler \<Rightarrow> proto \<Rightarrow> node_id \<Rightarrow> sock_addr \<Rightarrow> node_id \<Rightarrow> bytes \<Rightarrow>
     proto \<times> store_status option" where
  "rpc_store E D h p sender_id sender_addr key record =
     (if store_needs_lookup D p key then
        if \<not> key_binding_is_valid D h key record
        then (count_check p CheckEnd_Unbound 0 0, Some StoreStatus_InvalidRecord)
        else
          (case network_copy E D p key record of
             (p1, NoneOrSame) \<Rightarrow> store_verified E D h p1 sender_id sender_addr key record
           | (p1, Other) \<Rightarrow> (p1, Some StoreStatus_Conflict)
           | (p1, Unknown) \<Rightarrow> (p1, None))
      else store_verified E D h p sender_id sender_addr key record)"

subsection \<open>The other requests\<close>

datatype find_value_result = FoundNodes "node list" | FoundValue bytes

definition sender :: "node_id \<Rightarrow> sock_addr \<Rightarrow> node" where
  "sender sender_id sender_addr = node_new sender_id (Some (fst sender_addr)) (Some (snd sender_addr))"

definition rpc_ping :: "proto \<Rightarrow> node_id \<Rightarrow> sock_addr \<Rightarrow> proto \<times> node_id" where
  "rpc_ping p sender_id sender_addr =
     (schedule_welcome_if_new p (sender sender_id sender_addr), nid (pr_source_node p))"

definition rpc_update ::
    "env \<Rightarrow> 'j deps \<Rightarrow> handler \<Rightarrow> proto \<Rightarrow> node_id \<Rightarrow> sock_addr \<Rightarrow> node_id \<Rightarrow> bytes \<Rightarrow> bytes \<Rightarrow>
     proto \<times> bool" where
  "rpc_update E D h p sender_id sender_addr key record auth_signature =
     (if key = digest D STATUS_LIST_KEY then (p, False)
      else
        (case st_get (pnow p) (id_bytes key) (pr_storage p) of
           None \<Rightarrow> (p, False)
         | Some old_value \<Rightarrow>
             if old_value = record then (p, True)
             else
               (let p1 = en_yield E p in
                if \<not> verify_rotation h key record old_value auth_signature then (p1, False)
                else
                  (let p2 = schedule_welcome_if_new p1 (sender sender_id sender_addr);
                       (st, written) = st_set (pnow p2) (id_bytes key) record (pr_storage p2)
                   in (p2\<lparr>pr_storage := st\<rparr>, written \<noteq> CapacityExceeded)))))"

definition rpc_update_status_list ::
    "env \<Rightarrow> 'j deps \<Rightarrow> handler \<Rightarrow> proto \<Rightarrow> node_id \<Rightarrow> sock_addr \<Rightarrow> node_id \<Rightarrow> bytes \<Rightarrow> proto \<times> bool" where
  "rpc_update_status_list E D h p sender_id sender_addr key record =
     (if key \<noteq> digest D STATUS_LIST_KEY then (p, False)
      else if st_get (pnow p) (id_bytes key) (pr_storage p) = None then (p, False)
      else
        (let p1 = en_yield E p in
         if \<not> verify_issuer_signed h record then (p1, False)
         else
           (let p2 = schedule_welcome_if_new p1 (sender sender_id sender_addr);
                (st, written) = st_set (pnow p2) (id_bytes key) record (pr_storage p2)
            in (p2\<lparr>pr_storage := st\<rparr>, written \<noteq> CapacityExceeded))))"

definition advertise :: "proto \<Rightarrow> node_id \<Rightarrow> node \<Rightarrow> proto \<times> node list" where
  "advertise p key source =
     (let (router, ns) = find_neighbors_to_advertise (ck_secs (pr_clock p)) (pr_router p) (from_id key) (Some source)
      in (p\<lparr>pr_router := router\<rparr>, ns))"

definition rpc_find_node :: "proto \<Rightarrow> node_id \<Rightarrow> sock_addr \<Rightarrow> node_id \<Rightarrow> proto \<times> node list" where
  "rpc_find_node p sender_id sender_addr key =
     (let source = sender sender_id sender_addr
      in advertise (schedule_welcome_if_new p source) key source)"

definition rpc_find_value ::
    "'j deps \<Rightarrow> handler \<Rightarrow> proto \<Rightarrow> node_id \<Rightarrow> sock_addr \<Rightarrow> node_id \<Rightarrow> proto \<times> find_value_result" where
  "rpc_find_value D h p sender_id sender_addr key =
     (let source = sender sender_id sender_addr;
          p1 = schedule_welcome_if_new p source;
          nodes = (\<lambda>_. let (p2, ns) = advertise p1 key source in (p2, FoundNodes ns))
      in case st_get (pnow p1) (id_bytes key) (pr_storage p1) of
           Some value \<Rightarrow> if key_binding_is_valid D h key value then (p1, FoundValue value) else nodes ()
         | None \<Rightarrow> nodes ())"

definition rpc_find_hash ::
    "'j deps \<Rightarrow> handler \<Rightarrow> proto \<Rightarrow> node_id \<Rightarrow> sock_addr \<Rightarrow> node_id \<Rightarrow> proto \<times> rpc_message" where
  "rpc_find_hash D h p sender_id sender_addr key =
     (let (p1, result) = rpc_find_value D h p sender_id sender_addr key
      in (p1, case result of
                FoundValue v \<Rightarrow> FindHashHit (record_hash (sha256 D) v)
              | FoundNodes ns \<Rightarrow> FindValueNodes (map wire_of_node ns)))"

definition rpc_leave :: "proto \<Rightarrow> node_id \<Rightarrow> sock_addr \<Rightarrow> proto" where
  "rpc_leave p sender_id sender_addr =
     (case get_contact (pr_router p) sender_id of
        Some contact \<Rightarrow>
          if same_home_as contact (sender sender_id sender_addr)
          then p\<lparr>pr_router := remove_contact (pr_router p) contact\<rparr> else p
      | None \<Rightarrow> p)"

definition dispatch_request ::
    "env \<Rightarrow> 'j deps \<Rightarrow> handler \<Rightarrow> proto \<Rightarrow> rpc_message \<Rightarrow> sock_addr \<Rightarrow> proto \<times> rpc_message option" where
  "dispatch_request E D h p msg peer =
     (case msg of
        Ping sender_id \<Rightarrow>
          (let (p1, resp_id) = rpc_ping p sender_id peer in (p1, Some (Pong resp_id)))
      | Store sender_id key record \<Rightarrow>
          (let (p1, status) = rpc_store E D h p sender_id peer key record
           in (p1, map_option StoreResult status))
      | Update sender_id key record auth_signature \<Rightarrow>
          (let (p1, ok) = rpc_update E D h p sender_id peer key record auth_signature
           in (p1, Some (UpdateResult ok)))
      | UpdateStatusList sender_id key record \<Rightarrow>
          (let (p1, ok) = rpc_update_status_list E D h p sender_id peer key record
           in (p1, Some (UpdateStatusListResult ok)))
      | FindNode sender_id key \<Rightarrow>
          (let (p1, ns) = rpc_find_node p sender_id peer key
           in (p1, Some (FindNodeResult (map wire_of_node ns))))
      | FindValue sender_id key \<Rightarrow>
          (let (p1, result) = rpc_find_value D h p sender_id peer key
           in (p1, Some (case result of
                           FoundValue v \<Rightarrow> FindValueHit v
                         | FoundNodes ns \<Rightarrow> FindValueNodes (map wire_of_node ns))))
      | FindHash sender_id key \<Rightarrow>
          (let (p1, answer) = rpc_find_hash D h p sender_id peer key in (p1, Some answer))
      | Leave sender_id \<Rightarrow> (rpc_leave p sender_id peer, None)
      | _ \<Rightarrow> (p, None))"

end
