(* ===== verification/Transport.thy ===== *)
theory Transport
  imports Handlers
begin

text \<open>
  Sending requests and receiving datagrams (\<open>src/src/protocol/transport.rs\<close>).

  \<open>bincode\<close> and the UDP socket are the record \<open>world\<close>. A call is a small machine: \<open>call_start\<close>
  sends the request, and each step takes one branch of the \<open>select!\<close> loop, chosen by the
  environment among those that are ready. The receive path is one function per datagram. A STORE
  that needs a lookup becomes a task, and \<open>run_task\<close> is what a task does when it runs.
\<close>

record world =
  w_serialize :: "frame \<Rightarrow> bytes option"
  w_deserialize :: "bytes \<Rightarrow> frame option"
  w_send_to :: "proto \<Rightarrow> sock_addr \<Rightarrow> bytes \<Rightarrow> bool"

subsection \<open>Sending\<close>

definition next_id :: "proto \<Rightarrow> proto \<times> u32" where
  "next_id p = (p\<lparr>pr_next_msg_id := pr_next_msg_id p + 1\<rparr>, pr_next_msg_id p)"

definition next_frag_id_val :: "proto \<Rightarrow> proto \<times> u32" where
  "next_frag_id_val p = (p\<lparr>pr_next_frag_id := pr_next_frag_id p + 1\<rparr>, pr_next_frag_id p)"

definition gc_reassembly :: "proto \<Rightarrow> proto" where
  "gc_reassembly p =
     (if pnow p - pr_last_reassembly_gc p < REASSEMBLY_GC_INTERVAL then p
      else p\<lparr>pr_last_reassembly_gc := pnow p,
             pr_reassembly := reassembly_retain (pnow p) (pr_reassembly p)\<rparr>)"

definition encode_frame :: "world \<Rightarrow> proto \<Rightarrow> frame \<Rightarrow> proto \<times> bytes list option" where
  "encode_frame W p fr =
     (case w_serialize W fr of
        None \<Rightarrow> (p, None)
      | Some payload \<Rightarrow>
          if length payload > MAX_MESSAGE_SIZE then (p, None)
          else (let (p1, frag_id) = next_frag_id_val p in (p1, Some (encode_fragments frag_id payload))))"

fun send_datagrams :: "world \<Rightarrow> proto \<Rightarrow> sock_addr \<Rightarrow> bytes \<Rightarrow> bytes list \<Rightarrow> proto \<times> bool" where
  "send_datagrams W p addr kind [] = (p, True)"
| "send_datagrams W p addr kind (dg # dgs) =
     (if \<not> w_send_to W p addr dg then (p, False)
      else send_datagrams W
             (p\<lparr>pr_sent := pr_sent p @ [(addr, dg)],
                pr_counters := counters_sent (pr_counters p) kind (length dg)\<rparr>) addr kind dgs)"

definition send_frame :: "world \<Rightarrow> proto \<Rightarrow> sock_addr \<Rightarrow> frame \<Rightarrow> proto \<times> bool" where
  "send_frame W p addr fr =
     (case encode_frame W p fr of
        (p1, Some datagrams) \<Rightarrow> send_datagrams W p1 addr (rpc_message_name (fr_message fr)) datagrams
      | (p1, None) \<Rightarrow> (p1, False))"

definition answer :: "world \<Rightarrow> proto \<Rightarrow> sock_addr \<Rightarrow> u32 \<Rightarrow> rpc_message option \<Rightarrow> proto" where
  "answer W p peer msg_id response =
     (case response of
        None \<Rightarrow> p
      | Some message \<Rightarrow>
          fst (send_frame W p peer \<lparr>fr_msg_id = msg_id, fr_is_request = False, fr_message = message\<rparr>))"

definition call_leave_rpc :: "world \<Rightarrow> (bytes \<Rightarrow> bytes option) \<Rightarrow> proto \<Rightarrow> node \<Rightarrow> proto" where
  "call_leave_rpc W ipv6 p peer =
     (case socket_addr_of ipv6 peer of
        None \<Rightarrow> p
      | Some addr \<Rightarrow>
          (let (p1, msg_id) = next_id p
           in fst (send_frame W p1 addr
                \<lparr>fr_msg_id = msg_id, fr_is_request = True, fr_message = Leave (nid (pr_source_node p1))\<rparr>)))"

subsection \<open>A call\<close>

record call_state =
  cl_addr :: sock_addr
  cl_msg_id :: u32
  cl_chan :: nat
  cl_kind :: bytes
  cl_datagrams :: "bytes list"
  cl_answer_measures :: bool
  cl_first_sent :: instant
  cl_deadline :: instant
  cl_measured :: bool
  cl_wait :: duration
  cl_next_send :: instant
  cl_resends :: nat
  cl_receipts :: nat

datatype call_result = Waiting call_state | Ended "rpc_message option"

text \<open>\<open>Drop\<close> of \<open>PendingGuard\<close>.\<close>

definition end_call :: "proto \<Rightarrow> u32 \<Rightarrow> proto" where
  "end_call p msg_id = p\<lparr>pr_pending := AList.delete msg_id (pr_pending p)\<rparr>"

definition call_start :: "world \<Rightarrow> proto \<Rightarrow> sock_addr \<Rightarrow> rpc_message \<Rightarrow> proto \<times> call_result" where
  "call_start W p addr message =
     (let (p1, msg_id) = next_id p;
          fr = \<lparr>fr_msg_id = msg_id, fr_is_request = True, fr_message = message\<rparr>
      in case encode_frame W p1 fr of
           (p2, None) \<Rightarrow> (p2, Ended None)
         | (p2, Some datagrams) \<Rightarrow>
             (let chan = pr_next_chan p2;
                  p3 = p2\<lparr>pr_next_chan := chan + 1,
                          pr_pending := AList.update msg_id
                            \<lparr>pc_peer = addr, pc_expected = for_request message, pc_chan = chan\<rparr> (pr_pending p2)\<rparr>;
                  first_sent = pnow p3;
                  (p4, ok) = send_datagrams W p3 addr (rpc_message_name message) datagrams
              in if \<not> ok then (end_call p4 msg_id, Ended None)
                 else
                   (let wait = resend_after (pr_round_trips p4) addr
                    in (p4, Waiting
                          \<lparr>cl_addr = addr, cl_msg_id = msg_id, cl_chan = chan,
                           cl_kind = rpc_message_name message, cl_datagrams = datagrams,
                           cl_answer_measures = (carried_record message = None),
                           cl_first_sent = first_sent, cl_deadline = first_sent + RPC_TIMEOUT,
                           cl_measured = is_measured (pr_round_trips p4) addr,
                           cl_wait = wait, cl_next_send = first_sent + wait, cl_resends = 0, cl_receipts = 0\<rparr>))))"

datatype branch = AnswerBranch | ReceiptBranch | TimerBranch

definition record_trip :: "proto \<Rightarrow> call_state \<Rightarrow> proto" where
  "record_trip p cs =
     p\<lparr>pr_round_trips := rts_record (pnow p) (pr_round_trips p) (cl_addr cs) (pnow p - cl_first_sent cs)\<rparr>"

text \<open>A reply sender that is gone without a reply closes the channel.\<close>

definition chan_open :: "proto \<Rightarrow> nat \<Rightarrow> bool" where
  "chan_open p chan \<longleftrightarrow> list_ex (\<lambda>(_, call). pc_chan call = chan) (pr_pending p)"

definition call_step :: "world \<Rightarrow> proto \<Rightarrow> call_state \<Rightarrow> branch \<Rightarrow> proto \<times> call_result" where
  "call_step W p cs b =
     (case b of
        AnswerBranch \<Rightarrow>
          (case map_of (pr_replies p) (cl_chan cs) of
             Some response \<Rightarrow>
               (let p1 = (if cl_answer_measures cs \<and> cl_resends cs = 0 then record_trip p cs else p)
                in (end_call p1 (cl_msg_id cs), Ended (Some response)))
           | None \<Rightarrow>
               if \<not> chan_open p (cl_chan cs) then (end_call p (cl_msg_id cs), Ended None)
               else (p, Waiting cs))
      | ReceiptBranch \<Rightarrow>
          if cl_chan cs \<notin> pr_permits p then (p, Waiting cs)
          else
            (let p1 = p\<lparr>pr_permits := pr_permits p - {cl_chan cs}\<rparr>;
                 receipts = cl_receipts cs + 1;
                 p2 = (if receipts = 1 \<and> cl_resends cs = 0 then record_trip p1 cs else p1);
                 wait = (if receipts = 1 then resend_after (pr_round_trips p2) (cl_addr cs) * 2 else cl_wait cs * 2)
             in (p2, Waiting (cs\<lparr>cl_receipts := receipts, cl_wait := wait, cl_next_send := pnow p2 + wait\<rparr>)))
      | TimerBranch \<Rightarrow>
          if pnow p < min (cl_next_send cs) (cl_deadline cs) then (p, Waiting cs)
          else if pnow p \<ge> cl_deadline cs then (end_call p (cl_msg_id cs), Ended None)
          else if cl_resends cs = MAX_RESENDS then (p, Waiting (cs\<lparr>cl_next_send := cl_deadline cs\<rparr>))
          else
            (let p1 = p\<lparr>pr_counters := counters_resent (pr_counters p) (cl_measured cs)\<rparr>;
                 (p2, ok) = send_datagrams W p1 (cl_addr cs) (cl_kind cs) (cl_datagrams cs)
             in if \<not> ok then (end_call p2 (cl_msg_id cs), Ended None)
                else (p2, Waiting (cs\<lparr>cl_resends := cl_resends cs + 1, cl_wait := cl_wait cs * 2,
                                      cl_next_send := pnow p2 + cl_wait cs * 2\<rparr>))))"

subsection \<open>Receiving\<close>

definition progress_start :: "proto \<Rightarrow> request_key \<Rightarrow> proto option" where
  "progress_start p key =
     (if key \<in> pr_requests_in_progress p then None
      else Some (p\<lparr>pr_requests_in_progress := insert key (pr_requests_in_progress p)\<rparr>))"

definition progress_drop :: "proto \<Rightarrow> request_key \<Rightarrow> proto" where
  "progress_drop p key = p\<lparr>pr_requests_in_progress := pr_requests_in_progress p - {key}\<rparr>"

text \<open>From a datagram to the payload it completes.\<close>

definition receive_payload :: "proto \<Rightarrow> bytes \<Rightarrow> sock_addr \<Rightarrow> proto \<times> bytes option" where
  "receive_payload p data peer =
     (case parse_fragment data of
        None \<Rightarrow> (p, None)
      | Some (header, chunk) \<Rightarrow>
          if fh_total header = 1 then (p, Some chunk)
          else if unat (fh_total header) * FRAG_CHUNK_SIZE > MAX_MESSAGE_SIZE then (p, None)
          else
            (let p1 = gc_reassembly p;
                 (m, payload) = accept_fragment (pnow p1) (pr_reassembly p1) peer header chunk
             in (p1\<lparr>pr_reassembly := m\<rparr>, payload)))"

definition handle_response :: "proto \<Rightarrow> frame \<Rightarrow> sock_addr \<Rightarrow> proto" where
  "handle_response p fr peer =
     (case map_of (pr_pending p) (fr_msg_id fr) of
        None \<Rightarrow> p
      | Some call \<Rightarrow>
          if fr_message fr = Received then
            (if pc_peer call = peer \<and> after_receipt (pc_expected call)
             then p\<lparr>pr_permits := insert (pc_chan call) (pr_permits p)\<rparr> else p)
          else if pc_peer call = peer \<and> accepts (pc_expected call) (fr_message fr) then
            (let p1 = p\<lparr>pr_pending := AList.delete (fr_msg_id fr) (pr_pending p)\<rparr>;
                 p2 = (case fr_message fr of
                         Pong sender_id \<Rightarrow> schedule_welcome_if_new p1 (sender sender_id peer)
                       | _ \<Rightarrow> p1)
             in p2\<lparr>pr_replies := (pc_chan call, fr_message fr) # pr_replies p2\<rparr>)
          else p)"

definition handle_request ::
    "world \<Rightarrow> env \<Rightarrow> 'j deps \<Rightarrow> handler \<Rightarrow> proto \<Rightarrow> bytes \<Rightarrow> frame \<Rightarrow> sock_addr \<Rightarrow> proto" where
  "handle_request W E D h p payload fr peer =
     (if carried_record (fr_message fr) = None then
        (let (p1, response) = dispatch_request E D h p (fr_message fr) peer
         in answer W p1 peer (fr_msg_id fr) response)
      else
        (let key = (peer, record_hash (sha256 D) payload) in
         case progress_start p key of
           None \<Rightarrow> answer W p peer (fr_msg_id fr) (Some Received)
         | Some p1 \<Rightarrow>
             if (case fr_message fr of Store _ k _ \<Rightarrow> store_needs_lookup D p1 k | _ \<Rightarrow> False) then
               (case slot_take p1 of
                  None \<Rightarrow> progress_drop p1 key
                | Some p2 \<Rightarrow>
                    spawn_task (answer W p2 peer (fr_msg_id fr) (Some Received))
                      (AnswerStore peer (fr_msg_id fr) (fr_message fr) key))
             else
               (let p2 = answer W p1 peer (fr_msg_id fr) (Some Received);
                    (p3, response) = dispatch_request E D h p2 (fr_message fr) peer
                in progress_drop (answer W p3 peer (fr_msg_id fr) response) key)))"

definition handle_datagram ::
    "world \<Rightarrow> env \<Rightarrow> 'j deps \<Rightarrow> handler \<Rightarrow> proto \<Rightarrow> bytes \<Rightarrow> sock_addr \<Rightarrow> proto" where
  "handle_datagram W E D h p data peer =
     (case receive_payload p data peer of
        (p1, None) \<Rightarrow> p1
      | (p1, Some payload) \<Rightarrow>
          (case w_deserialize W payload of
             None \<Rightarrow> p1
           | Some fr \<Rightarrow>
               if \<not> fr_is_request fr then handle_response p1 fr peer
               else handle_request W E D h p1 payload fr peer))"

subsection \<open>Tasks\<close>

definition run_task :: "world \<Rightarrow> env \<Rightarrow> 'j deps \<Rightarrow> handler \<Rightarrow> proto \<Rightarrow> task \<Rightarrow> proto" where
  "run_task W E D h p t =
     (case t of
        PingOldest old \<Rightarrow>
          (let p1 = call_ping_node E p old
           in p1\<lparr>pr_oldest_pings_in_flight := pr_oldest_pings_in_flight p1 - {nid old}\<rparr>)
      | Replicate n \<Rightarrow>
          (let p1 = replicate_to E p n
           in p1\<lparr>pr_welcome_in_flight := pr_welcome_in_flight p1 - {nid n}\<rparr>)
      | AnswerStore peer msg_id msg key \<Rightarrow>
          (let (p1, response) = dispatch_request E D h p msg peer
           in drop_task (answer W p1 peer msg_id response) t))"

text \<open>
  The task at place \<open>i\<close> of the set runs. It stays out of the list while it runs, and does not come
  back.
\<close>

definition run_next :: "world \<Rightarrow> env \<Rightarrow> 'j deps \<Rightarrow> handler \<Rightarrow> proto \<Rightarrow> nat \<Rightarrow> proto" where
  "run_next W E D h p i =
     (case pr_tasks p of
        None \<Rightarrow> p
      | Some ts \<Rightarrow>
          if i < length ts then run_task W E D h (p\<lparr>pr_tasks := Some (remove_at i ts)\<rparr>) (ts ! i) else p)"

end
