(* ===== verification/CrawlFrame.thy ===== *)
theory CrawlFrame
  imports CrawlProps
begin

text \<open>
  What a lookup does to the state of the protocol it runs on. A relation that every request of the
  protocol keeps, and that is reflexive and transitive, relates the state before a lookup to the
  state after it, for each of the lookups of \<open>Crawling\<close>.
\<close>

fun res_crawl :: "'p crawl search_round_result \<Rightarrow> 'p crawl" where
  "res_crawl (Return c r) = c"
| "res_crawl (Continue c rm inc) = c"

locale spider_frame =
  fixes P :: "'p spider" and R :: "'p \<Rightarrow> 'p \<Rightarrow> bool"
  assumes R_refl: "R p p"
    and R_trans: "R p q \<Longrightarrow> R q r \<Longrightarrow> R p r"
    and find_nodes_R: "R p (fst (sp_find_nodes P p ps t))"
    and find_values_R: "R p (fst (sp_find_values P p ps t))"
    and join_R: "R p (fst (sp_join P p ps t))"
    and store_R: "R p (fst (sp_store P p n k v))"
    and failing_among_R: "R p (fst (sp_failing_among P p ns))"
    and note_no_answer_R: "R p (sp_note_no_answer P p ns)"
begin

lemma add_reported_R: "R (cr_protocol c) (cr_protocol (add_reported P c ns))"
  using failing_among_R by (simp add: add_reported_def Let_def case_prod_beta)

lemma remove_failed_protocol [simp]: "cr_protocol (remove_failed c rm) = cr_protocol c"
  by (simp add: remove_failed_def)

lemma round_R:
  assumes "\<And>p ps t. R p (fst (rpc p ps t))"
  shows "R (cr_protocol c) (cr_protocol (fst (find_round_limited P rpc c limit)))"
  using assms by (simp add: find_round_limited_def Let_def case_prod_beta)

lemma node_responses_R: "R (cr_protocol c) (cr_protocol (fst (node_responses P c rm rs)))"
proof (induction rs arbitrary: c rm)
  case (Cons r rs)
  then show ?case by (cases r) (auto intro: R_trans [OF add_reported_R])
qed (simp add: R_refl)

lemma node_round_R: "R (cr_protocol c) (cr_protocol (node_round P c))"
  using R_trans [OF round_R [where rpc = "sp_find_nodes P" and limit = None] node_responses_R] find_nodes_R
  by (simp add: node_round_conv Let_def find_round_def)

lemma find_lookup_nodes_R: "R (cr_protocol c) (cr_protocol (fst (find_lookup_nodes P c)))"
proof -
  have "Q = P \<Longrightarrow> R (cr_protocol c) (cr_protocol (fst (find_lookup_nodes Q c)))" for Q
  proof (induction Q c rule: find_lookup_nodes.induct)
    case (1 Q c)
    then show ?case
      by (subst find_lookup_nodes.simps) (auto simp: Let_def node_round_R intro: R_trans [OF node_round_R])
  qed
  then show ?thesis by simp
qed

lemma node_find_R: "R (cr_protocol c) (cr_protocol (fst (node_find P c)))"
  using find_lookup_nodes_R by (simp add: node_find_def Let_def case_prod_beta)

lemma value_responses_R: "R (cr_protocol (vc_base vc)) (cr_protocol (vc_base (fst (value_responses P vc rm fs rs))))"
proof (induction rs arbitrary: vc rm fs)
  case (Cons r rs)
  obtain i raw where r: "r = (i, raw)" by (cases r)
  have base: "R (cr_protocol (vc_base vc)) (cr_protocol (vc_base (fst (value_responses P
      (vc1\<lparr>vc_base := add_reported P (vc_base vc1) ns\<rparr>) rm fs rs))))"
    if "vc_base vc1 = vc_base vc" for vc1 ns
    using R_trans [OF add_reported_R [of "vc_base vc1" ns]]
      Cons.IH [of "vc1\<lparr>vc_base := add_reported P (vc_base vc1) ns\<rparr>"] that by simp
  show ?case
    unfolding r using Cons.IH base by (auto simp: Let_def split: option.split)
qed (simp add: R_refl)

lemma value_round_R: "R (cr_protocol (vc_base vc)) (cr_protocol (vc_base (fst (value_round P vc))))"
proof -
  let ?r = "find_round_limited P (sp_find_values P) (vc_base vc) None"
  have "R (cr_protocol (vc_base vc)) (cr_protocol (fst ?r))" using find_values_R by (rule round_R)
  from R_trans [OF this] value_responses_R [of "vc\<lparr>vc_base := fst ?r\<rparr>"]
  show ?thesis by (simp add: value_round_def find_round_def Let_def case_prod_beta)
qed

lemma value_finish_R: "R (cr_protocol (vc_base vc)) (cr_protocol (vc_base (fst (value_finish P vc found))))"
  using store_R by (auto simp: value_finish_def Let_def case_prod_beta R_refl split: option.split)

lemma value_find_R: "R (cr_protocol (vc_base vc)) (cr_protocol (vc_base (fst (value_find P vc))))"
proof -
  have "Q = P \<Longrightarrow> R (cr_protocol (vc_base vc)) (cr_protocol (vc_base (fst (value_find Q vc))))" for Q
  proof (induction Q vc rule: value_find.induct)
    case (1 Q vc)
    obtain vc1 found where vr: "value_round Q vc = (vc1, found)" by fastforce
    have step: "R (cr_protocol (vc_base vc)) (cr_protocol (vc_base vc1))"
      using value_round_R [of vc] vr "1.prems" by simp
    show ?case using "1.IH" [OF vr [symmetric] refl] "1.prems" step R_trans [OF step value_finish_R] R_trans [OF step]
      by (subst value_find.simps) (simp add: vr [unfolded "1.prems"] Let_def)
  qed
  then show ?thesis by simp
qed

lemma quorum_responses_R: "R (cr_protocol c) (cr_protocol (fst (quorum_responses P c rm fs rs)))"
proof (induction rs arbitrary: c rm fs)
  case (Cons r rs)
  then show ?case by (cases r) (auto split: option.split intro: R_trans [OF add_reported_R])
qed (simp add: R_refl)

lemma quorum_round_R: "R (cr_protocol c) (cr_protocol (fst (quorum_round P c rem fs)))"
proof -
  have "R (cr_protocol c) (cr_protocol (fst (find_round_limited P (sp_find_values P) c (Some rem))))"
    using find_values_R by (rule round_R)
  from R_trans [OF this quorum_responses_R] show ?thesis
    by (simp add: quorum_round_def Let_def case_prod_beta)
qed

lemma find_quorum_R: "R (cr_protocol c) (cr_protocol (fst (find_quorum P c found mi ma)))"
proof -
  have "Q = P \<Longrightarrow> R (cr_protocol c) (cr_protocol (fst (find_quorum Q c found mi ma)))" for Q
  proof (induction Q c found mi ma rule: find_quorum.induct)
    case (1 Q c found mi ma)
    let ?q = "quorum_round Q c (ma - length found) found"
    have "R (cr_protocol c) (cr_protocol (fst ?q))" using quorum_round_R "1.prems" by simp
    then show ?case using "1.IH" [OF _ refl _ refl, of "fst ?q" "snd ?q"] "1.prems"
      by (subst find_quorum.simps) (auto simp: Let_def case_prod_beta R_refl split: option.split intro: R_trans)
  qed
  then show ?thesis by simp
qed

end

text \<open>
  The values the peers return for a target satisfy \<open>Q\<close>, and so do the values a lookup returns. An
  acceptance test need only keep \<open>R\<close> on such values.
\<close>

definition keeps :: "('p \<Rightarrow> 'p \<Rightarrow> bool) \<Rightarrow> (bytes \<Rightarrow> bool) \<Rightarrow> 'p acceptance \<Rightarrow> bool" where
  "keeps R Qt accept \<longleftrightarrow> (\<forall>p v. Qt v \<longrightarrow> R p (fst (accept p v)))"

lemma keepsD: "keeps R Qt accept \<Longrightarrow> Qt v \<Longrightarrow> accept p v = (p', r) \<Longrightarrow> R p p'"
  unfolding keeps_def by (metis fst_conv)

definition values_in :: "(bytes \<Rightarrow> bool) \<Rightarrow> raw_response list \<Rightarrow> bool" where
  "values_in Qt raws \<longleftrightarrow> (\<forall>raw \<in> set raws. \<forall>v. get_value raw = Some v \<longrightarrow> Qt v)"

locale spider_values = spider_frame P R for P :: "'p spider" and R +
  fixes Q :: "node \<Rightarrow> bytes \<Rightarrow> bool"
  assumes find_values_Q: "values_in (Q t) (snd (sp_find_values P p ps t))"
    and join_Q: "values_in (Q t) (map snd (answers (snd (sp_join P p ps t))))"
begin

lemma search_events_R:
  assumes acc: "keeps R Qt accept" and "values_in Qt (map snd (answers evs))"
  shows "R (cr_protocol c) (cr_protocol (res_crawl (search_events P accept c w rm inc evs)))"
  using assms(2)
proof (induction evs arbitrary: c w rm inc)
  case (Cons e evs)
  show ?case
  proof (cases e)
    case (Answer i raw)
    have rest: "values_in Qt (map snd (answers evs))" and here: "\<And>v. get_value raw = Some v \<Longrightarrow> Qt v"
      using Cons.prems Answer by (auto simp: values_in_def)
    note IH = Cons.IH [OF rest]
    have "R (cr_protocol c) (cr_protocol (res_crawl (search_events P accept (add_reported P c ns) w' rm inc evs)))" for ns w'
      by (rule R_trans [OF add_reported_R IH])
    moreover have "R (cr_protocol c) p" if "get_value raw = Some v" "accept (cr_protocol c) v = (p, r)" for v p r
      using keepsD [OF acc here] that .
    ultimately show ?thesis using Answer IH R_trans [OF _ IH [of "c\<lparr>cr_protocol := _\<rparr>"]]
      by (auto simp: Let_def R_refl split: option.split prod.split)
  qed (use Cons in \<open>auto simp: R_refl note_no_answer_R\<close>)
qed (simp add: R_refl)

text \<open>What the acceptance test made of a value, and when.\<close>

lemma search_events_found:
  assumes acc: "keeps R Qt accept" and "values_in Qt (map snd (answers evs))"
    and "search_events P accept c w rm inc evs = Return c' (Found a)"
  shows "\<exists>p v. R (cr_protocol c) p \<and> Qt v \<and> snd (accept p v) = Some a"
  using assms(2,3)
proof (induction evs arbitrary: c w rm inc)
  case (Cons e evs)
  have rest: "values_in Qt (map snd (answers evs))" using Cons.prems(1) by (cases e) (auto simp: values_in_def)
  have later: ?case if "search_events P accept d w' rm' inc' evs = Return c' (Found a)" "R (cr_protocol c) (cr_protocol d)"
    for d w' rm' inc' using Cons.IH [OF rest that(1)] R_trans [OF that(2)] by blast
  show ?case
  proof (cases e)
    case (Answer i raw)
    show ?thesis
    proof (cases "happened raw")
      case True
      show ?thesis
      proof (cases "get_value raw")
        case None
        then show ?thesis using Cons.prems(2) Answer True later [OF _ add_reported_R] by (auto simp: Let_def)
      next
        case (Some v)
        then have Qv: "Qt v" using Cons.prems(1) Answer by (auto simp: values_in_def)
        obtain p r where pr: "accept (cr_protocol c) v = (p, r)" by fastforce
        then have R: "R (cr_protocol c) p" by (rule keepsD [OF acc Qv])
        show ?thesis
        proof (cases r)
          case None
          then show ?thesis using Cons.prems(2) Answer True Some pr R later [of "c\<lparr>cr_protocol := p\<rparr>"]
            by (auto simp: Let_def)
        next
          case (Some a')
          then have "a' = a" using Cons.prems(2) Answer True \<open>get_value raw = Some v\<close> pr by (simp add: Let_def)
          then show ?thesis using pr Some Qv R_refl by (metis snd_conv)
        qed
      qed
    qed (use Cons.prems(2) Answer later [OF _ R_refl] in \<open>auto simp: Let_def\<close>)
  qed (use Cons.prems(2) later [OF _ R_refl] in auto)
qed simp

lemma search_round_join:
  obtains p evs where "R (cr_protocol c) p" "values_in (Q (cr_node c)) (map snd (answers evs))"
    and "search_round P deadline accept c inc =
      search_events P accept ((fst (next_peers c None))\<lparr>cr_protocol := p\<rparr>) (snd (next_peers c None)) [] inc evs"
proof -
  let ?n = "fst (next_peers c None)" and ?ps = "snd (next_peers c None)"
  let ?j = "if ?ps = [] then (cr_protocol c, []) else sp_join P (cr_protocol c) ?ps (cr_node c)"
  let ?evs = "if deadline then snd ?j else filter (\<lambda>e. \<not> is_TimedOut e) (snd ?j)"
  have "R (cr_protocol c) (fst ?j)" using join_R R_refl by simp
  moreover have "values_in (Q (cr_node c)) (map snd (answers ?evs))"
    using join_Q [of "cr_node c" "cr_protocol c" ?ps] by (auto simp: values_in_def)
  ultimately show ?thesis
    by (rule that) (simp add: search_round_def Let_def case_prod_beta)
qed

lemma search_round_R:
  assumes "keeps R (Q (cr_node c)) accept"
  shows "R (cr_protocol c) (cr_protocol (res_crawl (search_round P deadline accept c inc)))"
proof -
  obtain p evs where j: "R (cr_protocol c) p" "values_in (Q (cr_node c)) (map snd (answers evs))"
    "search_round P deadline accept c inc =
      search_events P accept ((fst (next_peers c None))\<lparr>cr_protocol := p\<rparr>) (snd (next_peers c None)) [] inc evs"
    by (rule search_round_join)
  from R_trans [OF j(1)] search_events_R [OF assms j(2), of "(fst (next_peers c None))\<lparr>cr_protocol := p\<rparr>"]
  show ?thesis unfolding j(3) by simp
qed

lemma search_round_node:
  assumes "search_round P deadline accept c inc = Continue c' rm inc'"
  shows "cr_node (remove_failed c' rm) = cr_node c"
proof -
  obtain p evs where "search_round P deadline accept c inc =
      search_events P accept ((fst (next_peers c None))\<lparr>cr_protocol := p\<rparr>) (snd (next_peers c None)) [] inc evs"
    by (rule search_round_join)
  from search_events_Continue [OF this [symmetric, unfolded assms]] show ?thesis
    by (simp add: same_run_def remove_failed_def next_peers_def Let_def)
qed

lemma search_R:
  assumes acc: "keeps R (Q (cr_node c)) accept"
  shows "R (cr_protocol c) (cr_protocol (fst (search P deadline accept c inc)))"
proof -
  have "P' = P \<Longrightarrow> ac = accept \<Longrightarrow> cr_node d = cr_node c \<Longrightarrow>
      R (cr_protocol d) (cr_protocol (fst (search P' deadline ac d inc)))" for P' ac d
  proof (induction P' deadline ac d inc rule: search.induct)
    case (1 P' deadline ac d inc)
    note step = search_round_R [of d accept deadline inc, unfolded "1.prems"(3), OF acc]
    show ?case
    proof (cases "search_round P' deadline ac d inc")
      case (Return c' r)
      then show ?thesis using step "1.prems" by (subst search.simps) (simp add: R_refl)
    next
      case (Continue c' rm inc')
      then have s: "R (cr_protocol d) (cr_protocol c')" using step "1.prems" by simp
      have n: "cr_node (remove_failed c' rm) = cr_node c" using search_round_node Continue "1.prems" by metis
      show ?thesis using "1.IH" [OF _ _ Continue "1.prems"(1,2) n] "1.prems" R_trans [OF s]
        by (subst search.simps) (simp add: Continue [unfolded "1.prems"] R_refl)
    qed
  qed
  then show ?thesis by simp
qed

lemma search_found:
  assumes acc: "keeps R (Q (cr_node c)) accept" and "snd (search P deadline accept c inc) = Found a"
  shows "\<exists>p v. R (cr_protocol c) p \<and> Q (cr_node c) v \<and> snd (accept p v) = Some a"
proof -
  have "P' = P \<Longrightarrow> ac = accept \<Longrightarrow> cr_node d = cr_node c \<Longrightarrow> snd (search P' deadline ac d inc) = Found a \<Longrightarrow>
      \<exists>p v. R (cr_protocol d) p \<and> Q (cr_node c) v \<and> snd (accept p v) = Some a" for P' ac d
  proof (induction P' deadline ac d inc rule: search.induct)
    case (1 P' deadline ac d inc)
    note acc' = acc [folded "1.prems"(3)]
    show ?case
    proof (cases "search_round P' deadline ac d inc")
      case (Return c' r)
      then have ret: "search_round P deadline accept d inc = Return c' (Found a)"
        using "1.prems" by (simp add: search.simps [of P deadline accept d inc] split: if_splits)
      obtain p evs where j: "R (cr_protocol d) p" "values_in (Q (cr_node d)) (map snd (answers evs))"
        "search_round P deadline accept d inc =
          search_events P accept ((fst (next_peers d None))\<lparr>cr_protocol := p\<rparr>) (snd (next_peers d None)) [] inc evs"
        by (rule search_round_join)
      from search_events_found [OF acc' j(2) ret [unfolded j(3)]] R_trans [OF j(1)] "1.prems"(3)
      show ?thesis by auto
    next
      case (Continue c' rm inc')
      then have s: "R (cr_protocol d) (cr_protocol c')" using search_round_R [OF acc', of deadline inc] "1.prems" by simp
      have n: "cr_node (remove_failed c' rm) = cr_node c" using search_round_node Continue "1.prems" by metis
      have "snd (search P' deadline ac (remove_failed c' rm) inc') = Found a"
        and "\<not> heap_have_contacted_all (cr_nearest d)" "\<not> (deadline \<and> sp_deadline_passed P' (cr_protocol d))"
        using "1.prems"(4) Continue by (auto simp: search.simps [of P' deadline ac d inc] split: if_splits)
      from "1.IH" [OF this(2,3) Continue "1.prems"(1,2) n this(1)] show ?thesis using R_trans [OF s] by auto
    qed
  qed
  then show ?thesis using assms(2) by blast
qed

lemma find_first_valid_R:
  assumes "keeps R (Q (cr_node c)) accept"
  shows "R (cr_protocol c) (cr_protocol (fst (find_first_valid P accept c)))"
  using search_R [OF assms, of False False]
  by (auto simp: find_first_valid_def case_prod_beta split: value_search.split)

lemma find_first_valid_found:
  assumes "keeps R (Q (cr_node c)) accept" "snd (find_first_valid P accept c) = Some a"
  shows "\<exists>p v. R (cr_protocol c) p \<and> Q (cr_node c) v \<and> snd (accept p v) = Some a"
  using assms(2) search_found [OF assms(1), of False False a]
  by (auto simp: find_first_valid_def case_prod_beta split: value_search.splits)

lemma round_values:
  "values_in (Q (cr_node c)) (map snd (snd (find_round_limited P (sp_find_values P) c limit)))"
  using find_values_Q [of "cr_node c" "cr_protocol c" "snd (next_peers c limit)"]
  by (force simp: find_round_limited_def values_in_def Let_def case_prod_beta dest!: set_zip_rightD)

lemma quorum_values:
  assumes "values_in (Q t) (map snd rs)" "list_all (Q t) fs"
  shows "list_all (Q t) (snd (snd (quorum_responses P c rm fs rs)))"
  using assms
proof (induction rs arbitrary: c rm fs)
  case (Cons r rs)
  then show ?case by (cases r) (auto simp: values_in_def split: option.split)
qed simp

lemma find_quorum_values:
  assumes "list_all (Q (cr_node c)) found" "snd (find_quorum P c found mi ma) = Some v"
  shows "Q (cr_node c) v"
proof -
  have "P' = P \<Longrightarrow> list_all (Q (cr_node d)) fs \<Longrightarrow> snd (find_quorum P' d fs mi ma) = Some v \<Longrightarrow> Q (cr_node d) v" for P' d fs
  proof (induction P' d fs mi ma rule: find_quorum.induct)
    case (1 P' d fs mi ma)
    show ?case
    proof (cases "strict_quorum_value fs mi")
      case (Some w)
      then have "0 < count_list fs w" by (simp add: strict_quorum_iff)
      then have "w \<in> set fs" by (metis count_notin less_irrefl)
      moreover have "w = v" using "1.prems"(3) Some by (simp add: find_quorum.simps [of P' d fs mi ma])
      ultimately show ?thesis using "1.prems"(2) by (simp add: list_all_iff)
    next
      case None
      let ?q = "quorum_round P' d (ma - length fs) fs"
      have go: "ma - length fs \<noteq> 0 \<and> \<not> heap_have_contacted_all (cr_nearest d)"
        "snd (find_quorum P' (fst ?q) (snd ?q) mi ma) = Some v"
        using "1.prems"(3) None by (auto simp: find_quorum.simps [of P' d fs mi ma] Let_def case_prod_beta split: if_splits)
      have n: "cr_node (fst ?q) = cr_node d"
        using same_run_find_round [of d "Some (ma - length fs)" P' "sp_find_values P'"]
          same_run_quorum_responses [of "fst (find_round_limited P' (sp_find_values P') d (Some (ma - length fs)))" P']
        by (simp add: quorum_round_def Let_def case_prod_beta remove_failed_def same_run_def next_peers_def)
      have "list_all (Q (cr_node (fst ?q))) (snd ?q)"
        unfolding n using quorum_values [OF round_values "1.prems"(2)] "1.prems"(1)
        by (simp add: quorum_round_def Let_def case_prod_beta)
      from "1.IH" [OF None refl _ refl prod.collapse "1.prems"(1) this go(2)] go(1) n show ?thesis by simp
    qed
  qed
  then show ?thesis using assms by blast
qed

lemma value_values:
  assumes "values_in (Q t) (map snd rs)" "list_all (Q t) fs"
  shows "list_all (Q t) (snd (snd (value_responses P vc rm fs rs)))"
  using assms
proof (induction rs arbitrary: vc rm fs)
  case (Cons r rs)
  then show ?case by (cases r) (auto simp: values_in_def Let_def split: option.split)
qed simp

lemma value_find_values:
  assumes "fst (snd (value_find P vc)) = Some v"
  shows "Q (cr_node (vc_base vc)) v"
proof -
  have "P' = P \<Longrightarrow> fst (snd (value_find P' d)) = Some v \<Longrightarrow> Q (cr_node (vc_base d)) v" for P' d
  proof (induction P' d rule: value_find.induct)
    case (1 P' d)
    obtain vc1 fs where vr: "value_round P' d = (vc1, fs)" by fastforce
    have n: "cr_node (vc_base vc1) = cr_node (vc_base d)"
      using vr same_run_find_round [of "vc_base d" None P' "sp_find_values P'"]
        same_run_value_responses [of "d\<lparr>vc_base := fst (find_round P' (sp_find_values P') (vc_base d))\<rparr>" P']
      by (auto simp: value_round_def Let_def case_prod_beta find_round_def remove_failed_def same_run_def next_peers_def)
    have fs: "list_all (Q (cr_node (vc_base d))) fs"
      using vr value_values [OF round_values] "1.prems"(1)
      by (auto simp: value_round_def find_round_def Let_def case_prod_beta)
    show ?case
    proof (cases "fs = []")
      case False
      then have "strict_quorum_value fs 1 = Some v"
        using "1.prems"(2) vr by (auto simp: value_find.simps [of P' d] value_finish_def Let_def case_prod_beta split: option.splits)
      then have "v \<in> set fs" by (metis count_notin max.bounded_iff not_one_le_zero strict_quorum_iff)
      then show ?thesis using fs by (auto simp: list_all_iff)
    next
      case True
      then have "fst (snd (value_find P' vc1)) = Some v" "\<not> heap_have_contacted_all (cr_nearest (vc_base vc1))"
        using "1.prems"(2) vr by (auto simp: value_find.simps [of P' d] split: if_splits)
      with "1.IH" [OF vr [symmetric] refl] True "1.prems"(1) n show ?thesis by simp
    qed
  qed
  then show ?thesis using assms by blast
qed

end

end
