(* ===== verification/NodeInv.thy ===== *)
theory NodeInv
  imports Transport CrawlFrame
begin

text \<open>
  The invariant of a node and the contract of its storage.

  A node is specified by authenticated registers, one per key: a register that is empty takes any
  record valid for its key; a register that was ever written takes a record authorised by a record
  it has held (a key rotation), or, for the Status List, by the issuer, or one the user of the node
  gives to UPDATE; registers may expire.
  \<open>evolves\<close> says that a step keeps the invariant of the node and that its storage, read through
  \<open>registers\<close>, makes only such moves.
\<close>

subsection \<open>Authenticated registers\<close>

definition record_ok :: "'j deps \<Rightarrow> handler \<Rightarrow> node_id \<Rightarrow> bytes \<Rightarrow> bool" where
  "record_ok D h key v \<longleftrightarrow> fst (verify_record D h None key v)"

type_synonym registers = "node_id \<rightharpoonup> bytes"
type_synonym seen = "(node_id \<times> bytes) set"

text \<open>What UPDATE asks of a record \<open>v\<close> that follows \<open>old\<close>; a repeated update finds \<open>v\<close> itself.\<close>

definition authorised :: "'j deps \<Rightarrow> handler \<Rightarrow> node_id \<Rightarrow> bytes \<Rightarrow> bytes \<Rightarrow> bool" where
  "authorised D h k old v \<longleftrightarrow>
     (if k = digest D STATUS_LIST_KEY then verify_issuer_signed h v
      else v = old \<or> (\<exists>auth. verify_rotation h k v old auth))"

text \<open>
  The second component collects every record a register has held. \<open>U\<close> are the records the user of the
  node itself gives to UPDATE; what such an update may replace is decided by the record GET returned,
  which the register need not have held.
\<close>

inductive reg_step :: "'j deps \<Rightarrow> handler \<Rightarrow> seen \<Rightarrow> registers \<times> seen \<Rightarrow> registers \<times> seen \<Rightarrow> bool" for D h U where
  create: "A k = None \<Longrightarrow> record_ok D h k v \<Longrightarrow> reg_step D h U (A, T) (A(k \<mapsto> v), insert (k, v) T)"
| rotate: "(k, old) \<in> T \<Longrightarrow> k \<noteq> digest D STATUS_LIST_KEY \<Longrightarrow> verify_rotation h k v old auth \<Longrightarrow>
    reg_step D h U (A, T) (A(k \<mapsto> v), insert (k, v) T)"
| issue: "(k, old) \<in> T \<Longrightarrow> k = digest D STATUS_LIST_KEY \<Longrightarrow> verify_issuer_signed h v \<Longrightarrow>
    reg_step D h U (A, T) (A(k \<mapsto> v), insert (k, v) T)"
| own: "(k, v) \<in> U \<Longrightarrow> record_ok D h k old \<Longrightarrow> authorised D h k old v \<Longrightarrow>
    reg_step D h U (A, T) (A(k \<mapsto> v), insert (k, v) T)"
| expire: "reg_step D h U (A, T) (A |` L, T)"

abbreviation reg_steps :: "'j deps \<Rightarrow> handler \<Rightarrow> seen \<Rightarrow> registers \<times> seen \<Rightarrow> registers \<times> seen \<Rightarrow> bool" where
  "reg_steps D h U \<equiv> (reg_step D h U)\<^sup>*\<^sup>*"

definition held :: "registers \<Rightarrow> seen" where
  "held A = {(k, v). A k = Some v}"

lemma held_updates: "held (A(k \<mapsto> v)) \<subseteq> insert (k, v) (held A)" "held (A |` L) \<subseteq> held A"
  by (auto simp: held_def restrict_map_def split: if_splits)

lemma reg_step_seen: "reg_step D h U s s' \<Longrightarrow> snd s \<subseteq> snd s' \<and> (held (fst s) \<subseteq> snd s \<longrightarrow> held (fst s') \<subseteq> snd s')"
proof (induction rule: reg_step.induct)
  case (expire A T L)
  then show ?case using held_updates(2) [of A L] by auto
qed (use held_updates(1) in fastforce)+

lemma reg_steps_seen:
  assumes "reg_steps D h U (A, T) (A', T')"
  shows "T \<subseteq> T'" "held A \<subseteq> T \<Longrightarrow> held A' \<subseteq> T'"
proof -
  have "snd s \<subseteq> snd s' \<and> (held (fst s) \<subseteq> snd s \<longrightarrow> held (fst s') \<subseteq> snd s')" if "reg_steps D h U s s'" for s s'
    using that by induction (auto dest: reg_step_seen)
  from this [OF assms] show "T \<subseteq> T'" "held A \<subseteq> T \<Longrightarrow> held A' \<subseteq> T'" by simp_all
qed

definition registers :: "proto \<Rightarrow> registers" where
  "registers p k = st_get (pnow p) (id_bytes k) (pr_storage p)"

text \<open>
  The channel of a call to \<open>addr\<close>: whatever waits or arrived on it belongs to that call.
\<close>

definition chan_ok :: "nat \<Rightarrow> sock_addr \<Rightarrow> expected_response \<Rightarrow> proto \<Rightarrow> bool" where
  "chan_ok chan addr ex p \<longleftrightarrow>
     chan < pr_next_chan p \<and>
     (\<forall>(i, call) \<in> set (pr_pending p). pc_chan call = chan \<longrightarrow> pc_peer call = addr \<and> pc_expected call = ex) \<and>
     (\<forall>(c, r) \<in> set (pr_replies p). c = chan \<longrightarrow> accepts ex r)"

lemma chan_ok_frame [simp]:
  "chan_ok chan addr ex (p\<lparr>pr_storage := st\<rparr>) = chan_ok chan addr ex p"
  "chan_ok chan addr ex (p\<lparr>pr_clock := ck\<rparr>) = chan_ok chan addr ex p"
  by (simp_all add: chan_ok_def)

text \<open>What a step of the node may do to what others see of it.\<close>

definition guarantee :: "'j deps \<Rightarrow> handler \<Rightarrow> seen \<Rightarrow> proto \<Rightarrow> proto \<Rightarrow> bool" where
  "guarantee D h U p p' \<longleftrightarrow>
     pr_source_node p' = pr_source_node p \<and> pr_ksize p' = pr_ksize p \<and> pr_alpha p' = pr_alpha p \<and>
     pnow p \<le> pnow p' \<and> pr_next_chan p \<le> pr_next_chan p' \<and>
     (\<forall>chan addr ex. chan_ok chan addr ex p \<longrightarrow> chan_ok chan addr ex p') \<and>
     (\<forall>T. held (registers p) \<subseteq> T \<longrightarrow> (\<exists>T'. reg_steps D h U (registers p, T) (registers p', T')))"

lemma guarantee_trans:
  assumes "guarantee D h U p q" "guarantee D h U q r"
  shows "guarantee D h U p r"
proof -
  have "\<exists>T'. reg_steps D h U (registers p, T) (registers r, T')" if T: "held (registers p) \<subseteq> T" for T
  proof -
    obtain T1 where 1: "reg_steps D h U (registers p, T) (registers q, T1)"
      using assms(1) T by (auto simp: guarantee_def)
    have "held (registers q) \<subseteq> T1" by (rule reg_steps_seen(2) [OF 1 T])
    then obtain T2 where "reg_steps D h U (registers q, T1) (registers r, T2)"
      using assms(2) by (auto simp: guarantee_def)
    from rtranclp_trans [OF 1 this] show ?thesis by blast
  qed
  moreover have "pnow p \<le> pnow r" "pr_next_chan p \<le> pr_next_chan r" using assms by (auto simp: guarantee_def)
  ultimately show ?thesis using assms by (simp add: guarantee_def)
qed

lemma guarantee_same:
  assumes "registers p' = registers p" "pr_clock p' = pr_clock p" "pr_source_node p' = pr_source_node p"
    "pr_ksize p' = pr_ksize p" "pr_alpha p' = pr_alpha p" "pr_pending p' = pr_pending p"
    "pr_replies p' = pr_replies p" "pr_next_chan p' = pr_next_chan p"
  shows "guarantee D h U p p'"
  using assms by (auto simp: guarantee_def chan_ok_def)

lemma registers_cong: "pr_storage p' = pr_storage p \<Longrightarrow> pr_clock p' = pr_clock p \<Longrightarrow> registers p' = registers p"
  by (simp add: registers_def fun_eq_iff)

subsection \<open>The invariant\<close>

definition pings :: "task list \<Rightarrow> node_id list" where
  "pings ts = List.map_filter (\<lambda>t. case t of PingOldest n \<Rightarrow> Some (nid n) | _ \<Rightarrow> None) ts"

definition welcomes :: "task list \<Rightarrow> node_id list" where
  "welcomes ts = List.map_filter (\<lambda>t. case t of Replicate n \<Rightarrow> Some (nid n) | _ \<Rightarrow> None) ts"

definition store_keys :: "task list \<Rightarrow> request_key list" where
  "store_keys ts = List.map_filter (\<lambda>t. case t of AnswerStore _ _ _ key \<Rightarrow> Some key | _ \<Rightarrow> None) ts"

text \<open>
  While the node runs, each mark belongs to one task: the tasks in the set, the tasks \<open>H\<close> that are
  running, and, for requests, the ones \<open>K\<close> handled where they were received; \<open>s\<close> places are taken
  by a STORE about to be spawned.
\<close>

definition book_of ::
    "task list \<Rightarrow> task list \<Rightarrow> request_key list \<Rightarrow> nat \<Rightarrow>
     node_id set \<Rightarrow> node_id set \<Rightarrow> request_key set \<Rightarrow> nat \<Rightarrow> bool" where
  "book_of ts H K s oldest welcome requests lookups \<longleftrightarrow>
     distinct (pings (ts @ H)) \<and> set (pings (ts @ H)) = oldest \<and>
     distinct (welcomes (ts @ H)) \<and> set (welcomes (ts @ H)) = welcome \<and>
     distinct (store_keys (ts @ H) @ K) \<and> set (store_keys (ts @ H) @ K) = requests \<and>
     lookups = length (store_keys (ts @ H)) + s"

definition books :: "task list \<Rightarrow> request_key list \<Rightarrow> nat \<Rightarrow> proto \<Rightarrow> bool" where
  "books H K s p \<longleftrightarrow>
     (\<forall>ts. pr_tasks p = Some ts \<longrightarrow>
        book_of ts H K s (pr_oldest_pings_in_flight p) (pr_welcome_in_flight p) (pr_requests_in_progress p)
          (pr_store_lookups p))"

definition table_ok :: "proto \<Rightarrow> bool" where
  "table_ok p \<longleftrightarrow>
     rt_inv (pr_router p) \<and> rt_node (pr_router p) = pr_source_node p \<and> rt_ksize (pr_router p) = pr_ksize p"

text \<open>
  \<open>S\<close> are the inputs of SHA-256 for the records the node meets, on which it is taken not to collide.
\<close>

definition records_ok :: "'j deps \<Rightarrow> handler \<Rightarrow> bytes set \<Rightarrow> storage \<Rightarrow> bool" where
  "records_ok D h S st \<longleftrightarrow>
     (\<forall>(k, v, i) \<in> set (st_data st). \<exists>key. k = id_bytes key \<and> record_ok D h key v \<and> hash_input D key v \<in> S)"

definition task_ok :: "'j deps \<Rightarrow> bytes set \<Rightarrow> task \<Rightarrow> bool" where
  "task_ok D S t \<longleftrightarrow>
     (case t of
        AnswerStore _ _ msg _ \<Rightarrow> (\<exists>i key v. msg = Store i key v \<and> hash_input D key v \<in> S)
      | _ \<Rightarrow> True)"

definition cached_ok :: "'j deps \<Rightarrow> handler \<Rightarrow> bytes set \<Rightarrow> proto \<Rightarrow> bool" where
  "cached_ok D h S p \<longleftrightarrow> (\<forall>c. pr_sig_cache p = Some c \<longrightarrow> cache_ok D h S c)"

definition tasks_of :: "proto \<Rightarrow> task list" where
  "tasks_of p = (case pr_tasks p of None \<Rightarrow> [] | Some ts \<Rightarrow> ts)"

text \<open>Channels of later calls are new.\<close>

definition chans_ok :: "proto \<Rightarrow> bool" where
  "chans_ok p \<longleftrightarrow>
     (\<forall>(i, call) \<in> set (pr_pending p). pc_chan call < pr_next_chan p) \<and>
     (\<forall>(chan, r) \<in> set (pr_replies p). chan < pr_next_chan p)"

definition bounds_ok :: "proto \<Rightarrow> bool" where
  "bounds_ok p \<longleftrightarrow>
     chans_ok p \<and> reass_inv (pr_reassembly p) \<and> (\<exists>m. rts_inv m (pr_round_trips p)) \<and>
     card (pr_welcome_in_flight p) \<le> MAX_WELCOME_QUEUE \<and> pr_store_lookups p \<le> MAX_STORE_LOOKUPS"

definition node_inv ::
    "'j deps \<Rightarrow> handler \<Rightarrow> bytes set \<Rightarrow> task list \<Rightarrow> request_key list \<Rightarrow> nat \<Rightarrow> proto \<Rightarrow> bool" where
  "node_inv D h S H K s p \<longleftrightarrow>
     table_ok p \<and> st_inv 0 (pr_storage p) \<and> records_ok D h S (pr_storage p) \<and> bounds_ok p \<and>
     cached_ok D h S p \<and> (\<forall>t \<in> set (tasks_of p @ H). task_ok D S t) \<and> books H K s p"

definition evolves :: "'j deps \<Rightarrow> handler \<Rightarrow> seen \<Rightarrow> bytes set \<Rightarrow> proto \<Rightarrow> proto \<Rightarrow> bool" where
  "evolves D h U S p p' \<longleftrightarrow>
     (\<forall>H K s. node_inv D h S H K s p \<longrightarrow> node_inv D h S H K s p' \<and> guarantee D h U p p')"

lemmas inv_parts = table_ok_def bounds_ok_def chans_ok_def cached_ok_def tasks_of_def books_def

lemma evolves_refl [simp]: "evolves D h U S p p"
  by (simp add: evolves_def guarantee_same)

lemma evolves_trans [trans]: "evolves D h U S p q \<Longrightarrow> evolves D h U S q r \<Longrightarrow> evolves D h U S p r"
  unfolding evolves_def using guarantee_trans by metis

text \<open>The fields the invariant and the guarantee look at, apart from the routing table.\<close>

definition core :: "proto \<Rightarrow> _" where
  "core p =
     ((pr_storage p, pr_clock p, pr_source_node p, pr_ksize p, pr_alpha p),
      (pr_sig_cache p, pr_reassembly p, pr_round_trips p),
      (pr_pending p, pr_replies p, pr_next_chan p),
      (pr_tasks p, pr_welcome_in_flight p, pr_oldest_pings_in_flight p, pr_requests_in_progress p, pr_store_lookups p))"

lemma core_inv:
  assumes "core p' = core p"
  shows "node_inv D h S H K s p' \<longleftrightarrow>
    table_ok p' \<and> st_inv 0 (pr_storage p) \<and> records_ok D h S (pr_storage p) \<and> bounds_ok p \<and>
    cached_ok D h S p \<and> (\<forall>t \<in> set (tasks_of p @ H). task_ok D S t) \<and> books H K s p"
  using assms by (simp add: core_def node_inv_def bounds_ok_def chans_ok_def cached_ok_def tasks_of_def books_def)

lemma core_guarantee: "core p' = core p \<Longrightarrow> guarantee D h U p p'"
  by (intro guarantee_same registers_cong) (simp_all add: core_def)

lemma evolves_core:
  assumes "core p' = core p" "table_ok p \<Longrightarrow> table_ok p'"
  shows "evolves D h U S p p'"
  unfolding evolves_def core_inv [OF assms(1)] core_inv [OF refl, of D h S _ _ _ p]
  using core_guarantee [OF assms(1)] assms(2) by blast

lemma evolves_router:
  assumes "table_ok p \<Longrightarrow> rt_inv rt \<and> rt_node rt = rt_node (pr_router p) \<and> rt_ksize rt = rt_ksize (pr_router p)"
  shows "evolves D h U S p (p\<lparr>pr_router := rt\<rparr>)"
  by (rule evolves_core) (use assms in \<open>simp_all add: core_def table_ok_def\<close>)

lemma task_lists_append [simp]:
  "pings (a @ b) = pings a @ pings b" "welcomes (a @ b) = welcomes a @ welcomes b"
  "store_keys (a @ b) = store_keys a @ store_keys b"
  by (simp_all add: pings_def welcomes_def store_keys_def List.map_filter_def)

lemma task_lists_Cons [simp]:
  "pings (PingOldest n # ts) = nid n # pings ts" "pings (Replicate n # ts) = pings ts"
  "pings (AnswerStore a b m k # ts) = pings ts"
  "welcomes (PingOldest n # ts) = welcomes ts" "welcomes (Replicate n # ts) = nid n # welcomes ts"
  "welcomes (AnswerStore a b m k # ts) = welcomes ts"
  "store_keys (PingOldest n # ts) = store_keys ts" "store_keys (Replicate n # ts) = store_keys ts"
  "store_keys (AnswerStore a b m k # ts) = k # store_keys ts"
  "pings [] = []" "welcomes [] = []" "store_keys [] = []"
  by (simp_all add: pings_def welcomes_def store_keys_def List.map_filter_simps)

lemma book_spawn_ping: "book_of ts H K s P W R l \<Longrightarrow> nid n \<notin> P \<Longrightarrow> book_of (ts @ [PingOldest n]) H K s (insert (nid n) P) W R l"
  and book_spawn_replicate: "book_of ts H K s P W R l \<Longrightarrow> nid n \<notin> W \<Longrightarrow> book_of (ts @ [Replicate n]) H K s P (insert (nid n) W) R l"
  and book_spawn_store: "book_of ts H (key # K) (Suc s) P W R l \<Longrightarrow> book_of (ts @ [AnswerStore a i m key]) H K s P W R l"
  and book_progress: "book_of ts H K s P W R l \<Longrightarrow> key \<notin> R \<Longrightarrow> book_of ts H (key # K) s P W (insert key R) l"
  and book_progress_drop: "book_of ts H (key # K) s P W R l \<Longrightarrow> book_of ts H K s P W (R - {key}) l"
  and book_slot: "book_of ts H K s P W R l \<Longrightarrow> book_of ts H K (Suc s) P W R (Suc l)"
  by (auto simp: book_of_def)

lemma book_finish_ping: "book_of ts (PingOldest n # H) K s P W R l \<Longrightarrow> book_of ts H K s (P - {nid n}) W R l"
  and book_finish_replicate: "book_of ts (Replicate n # H) K s P W R l \<Longrightarrow> book_of ts H K s P (W - {nid n}) R l"
  and book_finish_store: "book_of ts (AnswerStore a i m key # H) K s P W R l \<Longrightarrow> book_of ts H K s P W (R - {key}) (l - Suc 0)"
  by (auto simp: book_of_def)

subsection \<open>Contacts\<close>

lemma note_failure_evolves: "evolves D h U S p (note_failure p n)"
  unfolding note_failure_def
  by (rule evolves_router) (simp add: table_ok_def record_failure_at_inv)

lemma note_alive_evolves: "evolves D h U S p (fst (note_alive p n))"
proof -
  have "evolves D h U S p (p\<lparr>pr_router := fst (record_success (pr_router p) (nid n) (pnow p))\<rparr>)"
    by (rule evolves_router) (simp add: table_ok_def record_success_inv)
  then show ?thesis by (simp add: note_alive_def Let_def case_prod_beta)
qed

lemma find_neighbors_evolves: "evolves D h U S p (fst (proto_find_neighbors p target ex))"
  unfolding proto_find_neighbors_def Let_def case_prod_beta fst_conv
  by (rule evolves_router) (simp add: table_ok_def find_neighbors_tier)

lemma advertise_evolves: "evolves D h U S p (fst (advertise p key source))"
  unfolding advertise_def Let_def case_prod_beta fst_conv find_neighbors_to_advertise_def
  by (rule evolves_router) (simp add: table_ok_def closest_inv)

text \<open>A mark is set and its task spawned.\<close>

lemma spawn_ping_evolves:
  assumes "nid n \<notin> pr_oldest_pings_in_flight p"
  shows "evolves D h U S p
    (spawn_task (p\<lparr>pr_oldest_pings_in_flight := insert (nid n) (pr_oldest_pings_in_flight p)\<rparr>) (PingOldest n))"
    (is "evolves D h U S p ?p'")
proof (cases "pr_tasks p")
  case None
  then have "guarantee D h U p ?p'"
    by (intro guarantee_same registers_cong) (simp_all add: spawn_task_def drop_task_def)
  then show ?thesis using None
    by (simp add: evolves_def node_inv_def inv_parts spawn_task_def drop_task_def)
next
  case (Some ts)
  then have "guarantee D h U p ?p'"
    by (intro guarantee_same registers_cong) (simp_all add: spawn_task_def)
  then show ?thesis using Some assms
    by (simp add: evolves_def node_inv_def inv_parts spawn_task_def task_ok_def book_spawn_ping)
qed

lemma spawn_replicate_evolves:
  assumes "nid n \<notin> pr_welcome_in_flight p" "card (pr_welcome_in_flight p) < MAX_WELCOME_QUEUE"
  shows "evolves D h U S p
    (spawn_task (p\<lparr>pr_welcome_in_flight := insert (nid n) (pr_welcome_in_flight p)\<rparr>) (Replicate n))"
    (is "evolves D h U S p ?p'")
proof (cases "pr_tasks p")
  case None
  then have "guarantee D h U p ?p'"
    by (intro guarantee_same registers_cong) (simp_all add: spawn_task_def drop_task_def)
  then show ?thesis using None assms
    by (simp add: evolves_def node_inv_def inv_parts spawn_task_def drop_task_def)
next
  case (Some ts)
  then have "guarantee D h U p ?p'"
    by (intro guarantee_same registers_cong) (simp_all add: spawn_task_def)
  then show ?thesis using Some assms
    by (auto simp: evolves_def node_inv_def inv_parts spawn_task_def task_ok_def book_spawn_replicate card_insert_if)
qed

lemma add_contact_evolves: "evolves D h U S p (proto_add_contact p n)"
proof (cases "add_contact (ck_secs (pr_clock p)) (pr_router p) n")
  case (Some r)
  obtain rt oldest where r: "r = (rt, oldest)" by (cases r)
  have step: "evolves D h U S p (p\<lparr>pr_router := rt\<rparr>)"
    using Some r add_contact_post [of "pr_router p" "ck_secs (pr_clock p)" n]
    by (intro evolves_router) (auto simp: table_ok_def keeps_live_def)
  show ?thesis
  proof (cases "oldest = None \<or> nid (the oldest) \<in> pr_oldest_pings_in_flight p")
    case True
    then show ?thesis using step Some r by (auto simp: proto_add_contact_def Let_def split: option.split)
  next
    case False
    then obtain old where old: "oldest = Some old" "nid old \<notin> pr_oldest_pings_in_flight (p\<lparr>pr_router := rt\<rparr>)" by auto
    from evolves_trans [OF step spawn_ping_evolves [OF old(2)]] show ?thesis
      using Some r old by (simp add: proto_add_contact_def)
  qed
qed (simp add: proto_add_contact_def)

lemma schedule_welcome_evolves: "evolves D h U S p (schedule_welcome_if_new p n)"
proof -
  let ?p1 = "fst (note_alive p n)" and ?p2 = "proto_add_contact (fst (note_alive p n)) n"
  have 1: "evolves D h U S p ?p1" by (rule note_alive_evolves)
  have 2: "evolves D h U S p ?p2" by (rule evolves_trans [OF 1 add_contact_evolves])
  show ?thesis
  proof (cases "nid n \<in> pr_welcome_in_flight ?p2 \<or> card (pr_welcome_in_flight ?p2) \<ge> MAX_WELCOME_QUEUE")
    case True
    then show ?thesis using 1 2 by (auto simp: schedule_welcome_if_new_def Let_def case_prod_beta)
  next
    case False
    then have "evolves D h U S p (spawn_task (?p2\<lparr>pr_welcome_in_flight := insert (nid n) (pr_welcome_in_flight ?p2)\<rparr>) (Replicate n))"
      by (intro evolves_trans [OF 2 spawn_replicate_evolves]) auto
    then show ?thesis using 1 False by (simp add: schedule_welcome_if_new_def Let_def case_prod_beta)
  qed
qed

lemma evolves_foldl: "(\<And>q x. evolves D h U S q (f q x)) \<Longrightarrow> evolves D h U S p (foldl f p xs)"
  by (induction xs arbitrary: p) (auto intro: evolves_trans)

lemma replicate_entries_evolves: "evolves D h U S (fst q) (fst (foldl (replicate_entry n) q es))"
proof (induction es arbitrary: q)
  case (Cons e es)
  have "evolves D h U S (fst q) (fst (replicate_entry n q e))"
    using find_neighbors_evolves [of D h U S "fst q"]
    by (auto simp: replicate_entry_def Let_def case_prod_beta)
  from evolves_trans [OF this Cons.IH] show ?case by simp
qed simp

lemma note_no_answer_evolves: "evolves D h U S p (note_no_answer p ns)"
  unfolding note_no_answer_def by (rule evolves_foldl) (rule note_failure_evolves)

subsection \<open>Sending and counting\<close>

lemma count_check_evolves: "evolves D h U S p (count_check p e r el)"
  by (rule evolves_core) (simp_all add: count_check_def core_def table_ok_def)

lemma send_datagrams_core:
  "core (fst (send_datagrams W p addr kind dgs)) = core p \<and>
   pr_router (fst (send_datagrams W p addr kind dgs)) = pr_router p"
  by (induction W p addr kind dgs rule: send_datagrams.induct) (simp_all add: core_def)

lemma table_ok_cong: "core p' = core p \<Longrightarrow> pr_router p' = pr_router p \<Longrightarrow> table_ok p \<Longrightarrow> table_ok p'"
  by (simp add: core_def table_ok_def)

lemma encode_frame_core:
  "core (fst (encode_frame W p fr)) = core p \<and> pr_router (fst (encode_frame W p fr)) = pr_router p"
  by (auto simp: encode_frame_def next_frag_id_val_def core_def split: option.split)

lemma send_frame_core:
  "core (fst (send_frame W p addr fr)) = core p \<and> pr_router (fst (send_frame W p addr fr)) = pr_router p"
proof -
  obtain p1 r where e: "encode_frame W p fr = (p1, r)" by fastforce
  have "core p1 = core p \<and> pr_router p1 = pr_router p" using encode_frame_core [of W p fr] e by simp
  then show ?thesis using send_datagrams_core [of W p1] by (cases r) (simp_all add: send_frame_def e)
qed

lemma answer_core: "core (answer W p peer i r) = core p \<and> pr_router (answer W p peer i r) = pr_router p"
  using send_frame_core by (cases r) (simp_all add: answer_def)

lemma answer_evolves: "evolves D h U S p (answer W p peer i r)"
  using answer_core [of W p peer i r] by (intro evolves_core) (auto intro: table_ok_cong)

lemma leave_evolves: "evolves D h U S p (call_leave_rpc W v6 p n)"
proof (cases "socket_addr_of v6 n")
  case (Some addr)
  let ?p1 = "p\<lparr>pr_next_msg_id := pr_next_msg_id p + 1\<rparr>"
  have c: "core ?p1 = core p" "pr_router ?p1 = pr_router p" by (simp_all add: core_def)
  then show ?thesis using Some send_frame_core [of W ?p1 addr]
    by (intro evolves_core) (auto simp: call_leave_rpc_def next_id_def intro: table_ok_cong)
qed (simp add: call_leave_rpc_def)

subsection \<open>Writing records\<close>

lemma id_bytes_eq [simp]: "id_bytes i = id_bytes j \<longleftrightarrow> i = j"
  using id_eqI by blast

lemma registers_insert:
  "registers (p\<lparr>pr_storage := fst (insert_if_absent (pnow p) (id_bytes key) v (pr_storage p))\<rparr>) =
     (if snd (insert_if_absent (pnow p) (id_bytes key) v (pr_storage p)) \<in> {Stored, AlreadyStored}
      then (registers p)(key \<mapsto> v) else registers p)"
proof (rule ext)
  fix k
  let ?w = "insert_if_absent (pnow p) (id_bytes key) v (pr_storage p)"
  have other: "k \<noteq> key \<Longrightarrow> st_get (pnow p) (id_bytes k) (fst ?w) = st_get (pnow p) (id_bytes k) (pr_storage p)"
    by (simp add: fs.store_absent_other)
  have same: "st_get (pnow p) (id_bytes key) (fst ?w) =
      (if snd ?w \<in> {Stored, AlreadyStored} then Some v else st_get (pnow p) (id_bytes key) (pr_storage p))"
  proof (cases "st_get (pnow p) (id_bytes key) (pr_storage p)")
    case None
    from fs.absent_vacant [OF None, of v] None show ?thesis by (elim disjE) simp_all
  next
    case (Some w)
    from fs.absent_live [OF Some, of v] Some show ?thesis by simp
  qed
  show "registers (p\<lparr>pr_storage := fst ?w\<rparr>) k =
      (if snd ?w \<in> {Stored, AlreadyStored} then (registers p)(key \<mapsto> v) else registers p) k"
    using other same by (cases "k = key") (auto simp: registers_def)
qed

lemma registers_set:
  "registers (p\<lparr>pr_storage := fst (st_set (pnow p) (id_bytes key) v (pr_storage p))\<rparr>) =
     (if snd (st_set (pnow p) (id_bytes key) v (pr_storage p)) \<noteq> CapacityExceeded
      then (registers p)(key \<mapsto> v) else registers p)"
proof (rule ext)
  fix k
  let ?w = "st_set (pnow p) (id_bytes key) v (pr_storage p)"
  have other: "k \<noteq> key \<Longrightarrow> st_get (pnow p) (id_bytes k) (fst ?w) = st_get (pnow p) (id_bytes k) (pr_storage p)"
    by (simp add: fs.store_other)
  have wrote: "snd ?w \<noteq> CapacityExceeded \<Longrightarrow> st_get (pnow p) (id_bytes key) (fst ?w) = Some v"
    using fs.store_done [of "pnow p" "id_bytes key" v "pr_storage p"] fs.store_refused [of "pnow p" "id_bytes key" v "pr_storage p"]
    by blast
  have refused: "snd ?w = CapacityExceeded \<Longrightarrow> fst ?w = pr_storage p"
    using fs.store_refused [of "pnow p" "id_bytes key" v "pr_storage p"] by simp
  show "registers (p\<lparr>pr_storage := fst ?w\<rparr>) k =
      (if snd ?w \<noteq> CapacityExceeded then (registers p)(key \<mapsto> v) else registers p) k"
    using other wrote refused by (cases "k = key") (auto simp: registers_def)
qed

lemma records_ok_write:
  assumes "records_ok D h S st" "record_ok D h key v" "hash_input D key v \<in> S"
  shows "records_ok D h S (fst (insert_if_absent now (id_bytes key) v st))"
    and "records_ok D h S (fst (st_set now (id_bytes key) v st))"
proof -
  have upd: "records_ok D h S st'" if "st_data st' = AList.update (id_bytes key) (v, now) (st_data st)" for st'
    using assms alist_update_subset [of "id_bytes key" "(v, now)" "st_data st"]
    by (fastforce simp: records_ok_def that)
  show "records_ok D h S (fst (insert_if_absent now (id_bytes key) v st))"
    using insert_if_absent_cases [of now "id_bytes key" v st] assms(1) upd by auto
  show "records_ok D h S (fst (st_set now (id_bytes key) v st))"
    using st_set_cases [of now "id_bytes key" v st] assms(1) upd by auto
qed

lemma write_inv:
  assumes "node_inv D h S H K s p" "st_inv 0 st" "records_ok D h S st"
  shows "node_inv D h S H K s (p\<lparr>pr_storage := st\<rparr>)"
  using assms by (simp add: node_inv_def inv_parts)

lemma insert_evolves:
  assumes "record_ok D h key v" "hash_input D key v \<in> S"
  shows "evolves D h U S p (p\<lparr>pr_storage := fst (insert_if_absent (pnow p) (id_bytes key) v (pr_storage p))\<rparr>)"
    (is "evolves D h U S p ?p'")
  unfolding evolves_def
proof (intro allI impI conjI)
  fix H K s assume inv: "node_inv D h S H K s p"
  show "node_inv D h S H K s ?p'"
    using inv assms by (intro write_inv [OF inv] fs.store_absent_ok records_ok_write) (auto simp: node_inv_def)
  show "guarantee D h U p ?p'"
  proof (cases "registers ?p' = registers p")
    case True
    then show ?thesis by (intro guarantee_same) simp_all
  next
    case False
    then have upd: "registers ?p' = (registers p)(key \<mapsto> v)"
      "snd (insert_if_absent (pnow p) (id_bytes key) v (pr_storage p)) \<in> {Stored, AlreadyStored}"
      by (auto simp: registers_insert split: if_splits)
    have "registers p key = None"
    proof (rule ccontr)
      assume "registers p key \<noteq> None"
      then obtain w where w: "st_get (pnow p) (id_bytes key) (pr_storage p) = Some w" by (auto simp: registers_def)
      then have "w = v" using upd(2) fs.absent_live [OF w, of v] by (auto split: if_splits)
      then show False using False upd(1) w by (auto simp: registers_def fun_eq_iff split: if_splits)
    qed
    then have "reg_step D h U (registers p, T) (registers ?p', insert (key, v) T)" for T
      unfolding upd(1) by (rule reg_step.create) (rule assms(1))
    then show ?thesis by (auto simp: guarantee_def intro!: r_into_rtranclp)
  qed
qed

text \<open>
  A record read before the check of its successor: whatever the other tasks did meanwhile, the new
  record is authorised by one the register has held.
\<close>

lemma overwrite_guarantee:
  assumes g: "guarantee D h U p q"
    and step: "\<And>A T. held (registers p) \<subseteq> T \<Longrightarrow> reg_step D h U (A, T) (A(key \<mapsto> v), insert (key, v) T)"
  shows "guarantee D h U p (q\<lparr>pr_storage := fst (st_set (pnow q) (id_bytes key) v (pr_storage q))\<rparr>)"
    (is "guarantee D h U p ?q'")
proof (cases "registers ?q' = registers q")
  case True
  then have "guarantee D h U q ?q'" by (intro guarantee_same) simp_all
  from guarantee_trans [OF g this] show ?thesis .
next
  case False
  then have upd: "registers ?q' = (registers q)(key \<mapsto> v)" by (auto simp: registers_set split: if_splits)
  have "\<exists>T'. reg_steps D h U (registers p, T) (registers ?q', T')" if T: "held (registers p) \<subseteq> T" for T
  proof -
    obtain T1 where 1: "reg_steps D h U (registers p, T) (registers q, T1)" using g T by (auto simp: guarantee_def)
    have "held (registers p) \<subseteq> T1" using T reg_steps_seen(1) [OF 1] by blast
    from rtranclp.rtrancl_into_rtrancl [OF 1 step [OF this]] show ?thesis unfolding upd by blast
  qed
  then show ?thesis using g by (simp add: guarantee_def)
qed

lemma set_inv:
  assumes "node_inv D h S H K s q" "record_ok D h key v" "hash_input D key v \<in> S"
  shows "node_inv D h S H K s (q\<lparr>pr_storage := fst (st_set (pnow q) (id_bytes key) v (pr_storage q))\<rparr>)"
  using assms by (intro write_inv fs.store_ok records_ok_write) (auto simp: node_inv_def)

lemma held_mem: "registers p key = Some v \<Longrightarrow> held (registers p) \<subseteq> T \<Longrightarrow> (key, v) \<in> T"
  by (auto simp: held_def)

subsection \<open>Time and pruning\<close>

definition advance :: "clock \<Rightarrow> proto \<Rightarrow> proto" where
  "advance ck p = p\<lparr>pr_clock := ck\<rparr>"

lemma advance_evolves:
  assumes "pnow p \<le> ck_now ck"
  shows "evolves D h U S p (advance ck p)"
proof -
  let ?A = "registers p" and ?A' = "registers (advance ck p)"
  have "?A' = ?A |` dom ?A'"
  proof (rule ext)
    fix k
    show "?A' k = (?A |` dom ?A') k"
      using is_expired_later [OF _ assms]
      by (auto simp: registers_def advance_def get_default_None restrict_map_def dom_def split: option.split if_splits)
  qed
  then have "reg_step D h U (?A, T) (?A', T)" for T
    using reg_step.expire [of D h U ?A T "dom ?A'"] by simp
  then have "guarantee D h U p (advance ck p)"
    using assms by (auto simp: guarantee_def advance_def intro!: r_into_rtranclp)
  then show ?thesis by (simp add: evolves_def node_inv_def inv_parts advance_def)
qed

lemma prune_read:
  assumes "prune_retain now s = (s1, cnt, n)" "distinct (map fst (st_data s))"
  shows "st_get now k (release_bytes n s1) = st_get now k s" "set (st_data (release_bytes n s1)) \<subseteq> set (st_data s)"
proof -
  have d: "st_data s1 = filter (\<lambda>(k, v, i). \<not> is_expired now s i) (st_data s)"
    "st_ttl (release_bytes n s1) = st_ttl s"
    using assms(1) by (auto simp: prune_retain_def Let_def is_expired_def split: if_splits)
  show "set (st_data (release_bytes n s1)) \<subseteq> set (st_data s)" by (auto simp: d(1))
  show "st_get now k (release_bytes n s1) = st_get now k s"
    using assms(2) is_expired_cong [OF d(2)]
    by (auto simp: get_default_None d(1) map_of_filter_snd split: option.split)
qed

lemma prune_evolves: "evolves D h U S p (p\<lparr>pr_storage := fst (prune_expired (pnow p) (pr_storage p))\<rparr>)"
  unfolding evolves_def
proof (intro allI impI conjI)
  fix H K s assume inv: "node_inv D h S H K s p"
  then have si: "st_inv 0 (pr_storage p)" by (simp add: node_inv_def)
  obtain s1 cnt n where ret: "prune_retain (pnow p) (pr_storage p) = (s1, cnt, n)" by (metis prod_cases3)
  have s': "fst (prune_expired (pnow p) (pr_storage p)) = release_bytes n s1"
    by (simp add: prune_expired_def ret)
  have "st_inv 0 (release_bytes n s1)" using release_inv [OF prune_retain_inv [OF si ret], of n] by simp
  moreover have d: "distinct (map fst (st_data (pr_storage p)))" using si by (simp add: st_inv_def)
  note R = prune_read [OF ret d]
  have "records_ok D h S (release_bytes n s1)"
    using inv R(2) by (auto simp: node_inv_def records_ok_def)
  ultimately show "node_inv D h S H K s (p\<lparr>pr_storage := fst (prune_expired (pnow p) (pr_storage p))\<rparr>)"
    unfolding s' by (intro write_inv [OF inv])
  show "guarantee D h U p (p\<lparr>pr_storage := fst (prune_expired (pnow p) (pr_storage p))\<rparr>)"
    unfolding s' by (intro guarantee_same) (simp_all add: registers_def fun_eq_iff R(1))
qed

end
