(* ===== verification/NodeSteps.thy ===== *)
theory NodeSteps
  imports NodeInv
begin

text \<open>
  Every request a node sends, every handler and every task keeps the invariant of the node and the
  contract of its storage, in any environment that does. The interface a handler relies on is the
  locale \<open>rpc_env\<close>.
\<close>

lemma answers_append [simp]: "answers (es @ es') = answers es @ answers es'"
  by (induction es rule: answers.induct) auto

lemma join_events_results:
  assumes "raw \<in> set (map snd (answers (snd (join_events E request p ps t))))"
  shows "\<exists>q n. raw = snd (request E q n t)"
proof -
  have one: "answers (map (\<lambda>(i, raw). Answer (g i) raw) xs) = map (\<lambda>(i, raw). (g i, raw)) xs" for g xs
    by (induction xs) auto
  have "\<exists>order. raw \<in> set (snd (run_each (\<lambda>p i. request E p (ps ! i) t) p order))"
    using assms by (auto simp: join_events_def Let_def case_prod_beta one split: option.splits if_splits dest!: set_zip_rightD)
  then show ?thesis using run_each_results(2) [of raw "\<lambda>p i. request E p (ps ! i) t"] by blast
qed

text \<open>The records lookups return are among those \<open>S\<close> speaks of.\<close>

definition answers_ok :: "'j deps \<Rightarrow> bytes set \<Rightarrow> env \<Rightarrow> bool" where
  "answers_ok D S E \<longleftrightarrow>
     (\<forall>p a i key v. snd (en_rpc E p a (FindValue i key)) \<in> {Some (FindValueHit v), Some (FindHashHit v)} \<longrightarrow>
        hash_input D key v \<in> S)"

locale rpc_env = record_rule D h for D :: "'j deps" and h :: handler +
  fixes E :: env and S :: "bytes set" and U :: seen
  assumes S_inj: "inj_on (sha256 D) S"
    and rpc_evolves: "evolves D h U S p (fst (en_rpc E p a m))"
    and yield_evolves: "evolves D h U S p (en_yield E p)"
    and answers_S: "answers_ok D S E"
begin

lemma after_rpc:
  assumes "en_rpc E p a m = (p1, r)" "evolves D h U S p1 p2"
  shows "evolves D h U S p p2"
  using evolves_trans [OF rpc_evolves [of p a m]] assms by simp

lemmas after_rpc_intros = after_rpc schedule_welcome_evolves note_failure_evolves note_alive_evolves evolves_refl

lemma call_find_node_evolves: "evolves D h U S p (fst (call_find_node E p peer t))"
  unfolding call_find_node_def
  by (auto split: option.split prod.split rpc_message.split intro: after_rpc_intros)

lemma call_find_evolves: "evolves D h U S p (fst (call_find E p peer m))"
  unfolding call_find_def
  by (auto split: option.split prod.split rpc_message.split intro: after_rpc_intros)

lemma call_ping_addr_evolves: "evolves D h U S p (fst (call_ping_addr E p addr))"
  unfolding call_ping_addr_def
  by (auto split: option.split prod.split rpc_message.split intro: after_rpc_intros)

lemma call_store_rpc_evolves: "evolves D h U S p (fst (call_store_rpc E p peer key v))"
  unfolding call_store_rpc_def
  by (auto split: option.split prod.split rpc_message.split intro: after_rpc_intros)

lemma call_update_rpc_answer_evolves: "evolves D h U S p (fst (call_update_rpc_answer E p peer key v auth))"
  unfolding call_update_rpc_answer_def
  by (auto split: option.split prod.split rpc_message.split intro: after_rpc_intros)

lemma call_status_list_update_rpc_evolves: "evolves D h U S p (fst (call_status_list_update_rpc E p peer key v))"
  unfolding call_status_list_update_rpc_def
  by (auto split: option.split prod.split rpc_message.split intro: after_rpc_intros)

lemma call_ping_node_evolves: "evolves D h U S p (call_ping_node E p n)"
  using call_ping_addr_evolves [of p] evolves_trans [OF call_ping_addr_evolves note_failure_evolves]
  by (auto simp: call_ping_node_def case_prod_beta Let_def split: option.split)

lemma run_each_evolves:
  assumes "\<And>q x. evolves D h U S q (fst (f q x))"
  shows "evolves D h U S p (fst (run_each f p xs))"
proof (induction xs arbitrary: p)
  case (Cons x xs)
  from evolves_trans [OF assms Cons.IH] show ?case by (simp add: Let_def case_prod_beta)
qed simp

lemma join_all_evolves:
  assumes "\<And>q x. evolves D h U S q (fst (f q x))"
  shows "evolves D h U S p (fst (join_all rank f p xs))"
  using run_each_evolves [of "\<lambda>p i. f p (xs ! i)"] assms
  by (simp add: join_all_def run_ranked_def Let_def case_prod_beta)

lemma join_events_evolves:
  assumes "\<And>q n t. evolves D h U S q (fst (request E q n t))"
  shows "evolves D h U S p (fst (join_events E request p ps t))"
  using run_each_evolves [of "\<lambda>p i. request E p (ps ! i) t"] assms
  by (simp add: join_events_def Let_def case_prod_beta)

lemma kad_spider_frame:
  assumes "\<And>q n t. evolves D h U S q (fst (request E q n t))"
  shows "spider_frame (kad_spider E request) (evolves D h U S)"
proof
  show "evolves D h U S p (fst (sp_find_nodes (kad_spider E request) p ps t))" for p ps t
    by (simp add: kad_spider_def join_all_evolves call_find_node_evolves)
  show "evolves D h U S p (fst (sp_find_values (kad_spider E request) p ps t))" for p ps t
    by (simp add: kad_spider_def join_all_evolves call_find_value_def call_find_evolves)
  show "evolves D h U S p (fst (sp_store (kad_spider E request) p n k v))" for p n k v
    by (simp add: kad_spider_def call_store_def Let_def case_prod_beta call_store_rpc_evolves)
  show "evolves D h U S p q \<Longrightarrow> evolves D h U S q r \<Longrightarrow> evolves D h U S p r" for p q r
    by (rule evolves_trans)
qed (simp_all add: kad_spider_def join_events_evolves assms note_no_answer_evolves)

lemma call_find_value_S:
  assumes "get_value (snd (call_find_value E p n t)) = Some v"
  shows "hash_input D (nid t) v \<in> S"
proof -
  let ?m = "FindValue (nid (pr_source_node p)) (nid t)"
  obtain addr where a: "socket_addr_of (en_ipv6 E) n = Some addr"
    using assms by (auto simp: call_find_value_def call_find_def get_value_def no_response_def split: option.splits if_splits)
  obtain p1 r where r: "en_rpc E p addr ?m = (p1, r)" by fastforce
  then have "r \<in> {Some (FindValueHit v), Some (FindHashHit v)}"
    using assms a by (auto simp: call_find_value_def call_find_def get_value_def no_response_def
        split: option.splits rpc_message.splits if_splits)
  then have "snd (en_rpc E p addr ?m) \<in> {Some (FindValueHit v), Some (FindHashHit v)}" using r by simp
  then show ?thesis using answers_S unfolding answers_ok_def by blast
qed

lemma probe_evolves: "evolves D h U S p (probe_failing_contacts E p limit)"
  by (simp add: probe_failing_contacts_def join_all_evolves call_ping_node_evolves)

lemma replicate_scan_evolves: "evolves D h U S p (fst (replicate_scan E n p ks es))"
proof (induction es arbitrary: p ks rule: length_induct)
  case (1 es)
  show ?case
  proof (cases "es = []")
    case False
    let ?q = "foldl (replicate_entry n) (en_yield E p, ks) (take WELCOME_SCAN_CHUNK es)"
    have "evolves D h U S p (fst ?q)"
      using evolves_trans [OF yield_evolves [of p]] replicate_entries_evolves [of D h U S "(en_yield E p, ks)"] by simp
    moreover have "evolves D h U S (fst ?q) (fst (replicate_scan E n (fst ?q) (snd ?q) (drop WELCOME_SCAN_CHUNK es)))"
      using "1.IH" False by (simp add: WELCOME_SCAN_CHUNK_def)
    ultimately show ?thesis using False evolves_trans
      by (subst replicate_scan.simps) (auto simp: case_prod_beta)
  qed (simp add: replicate_scan.simps)
qed

lemma replicate_to_evolves: "evolves D h U S p (replicate_to E p n)"
proof -
  let ?p1 = "fst (replicate_scan E n p [] (iter_all (pnow p) (pr_storage p)))"
  have "evolves D h U S ?p1 (fst (join_all r (\<lambda>p (key, v). call_store_rpc E p n key v) ?p1 xs))" for r xs
    by (rule join_all_evolves) (simp add: case_prod_beta call_store_rpc_evolves)
  from evolves_trans [OF replicate_scan_evolves this] show ?thesis
    by (simp add: replicate_to_def Let_def case_prod_beta)
qed

end

sublocale rpc_env \<subseteq> by_hash: spider_values "kad_spider E call_find_hash" "evolves D h U S" "\<lambda>_ _. True"
proof -
  have "spider_frame (kad_spider E call_find_hash) (evolves D h U S)"
    by (rule kad_spider_frame) (simp add: call_find_hash_def call_find_evolves)
  then show "spider_values (kad_spider E call_find_hash) (evolves D h U S) (\<lambda>_ _. True)"
    by (simp add: spider_values_def spider_values_axioms_def values_in_def)
qed

sublocale rpc_env \<subseteq> by_value: spider_values "kad_spider E call_find_value" "evolves D h U S"
  "\<lambda>t v. hash_input D (nid t) v \<in> S"
proof (intro spider_values.intro spider_values_axioms.intro)
  show "spider_frame (kad_spider E call_find_value) (evolves D h U S)"
    by (rule kad_spider_frame) (simp add: call_find_value_def call_find_evolves)
  show "values_in (\<lambda>v. hash_input D (nid t) v \<in> S) (snd (sp_find_values (kad_spider E call_find_value) p ps t))" for t p ps
    unfolding values_in_def
  proof (intro ballI allI impI)
    fix raw v assume "raw \<in> set (snd (sp_find_values (kad_spider E call_find_value) p ps t))" and v: "get_value raw = Some v"
    then obtain q n where "raw = snd (call_find_value E q n t)"
      unfolding kad_spider_def spider.simps by (blast dest: join_all_results(2))
    then show "hash_input D (nid t) v \<in> S" using v call_find_value_S by simp
  qed
  show "values_in (\<lambda>v. hash_input D (nid t) v \<in> S)
      (map snd (answers (snd (sp_join (kad_spider E call_find_value) p ps t))))" for t p ps
    unfolding values_in_def
  proof (intro ballI allI impI)
    fix raw v assume "raw \<in> set (map snd (answers (snd (sp_join (kad_spider E call_find_value) p ps t))))"
      and v: "get_value raw = Some v"
    then obtain q n where "raw = snd (call_find_value E q n t)"
      unfolding kad_spider_def spider.simps by (blast dest: join_events_results)
    then show "hash_input D (nid t) v \<in> S" using v call_find_value_S by simp
  qed
qed

subsection \<open>The handlers\<close>

text \<open>A message whose record may be checked.\<close>

definition msg_ok :: "'j deps \<Rightarrow> bytes set \<Rightarrow> rpc_message \<Rightarrow> bool" where
  "msg_ok D S msg \<longleftrightarrow>
     (case msg of
        Store _ key v \<Rightarrow> hash_input D key v \<in> S
      | Update _ key v _ \<Rightarrow> hash_input D key v \<in> S
      | UpdateStatusList _ key v \<Rightarrow> hash_input D key v \<in> S
      | _ \<Rightarrow> True)"

context rpc_env
begin

lemma network_copy_evolves: "evolves D h U S p (fst (network_copy E D p key v))"
proof -
  let ?p1 = "fst (proto_find_neighbors p (from_id key) None)"
  have 1: "evolves D h U S p ?p1" by (rule find_neighbors_evolves)
  have s: "evolves D h U S ?p1 (cr_protocol (fst (search (kad_spider E call_find_hash) True accept c False)))"
    if "cr_protocol c = ?p1" "keeps (evolves D h U S) (\<lambda>_. True) accept" for c accept
    using by_hash.search_R [of accept c True False] that by simp
  have c: "cr_protocol (crawl_new ?p1 t ns k a) = ?p1" "cr_protocol (asking_everyone (crawl_new ?p1 t ns k a)) = ?p1" for t ns k a
    by (simp_all add: crawl_new_def asking_everyone_def)
  show ?thesis
    unfolding network_copy_def Let_def case_prod_beta
    by (auto intro!: evolves_trans [OF 1] evolves_trans [OF s count_check_evolves] count_check_evolves simp: c keeps_def
        split: value_search.split)
qed

lemma verify_for_key_evolves:
  assumes "hash_input D key v \<in> S"
  shows "evolves D h U S p (fst (verify_for_key E D h p key v))"
    and "node_inv D h S H K s p \<Longrightarrow> snd (verify_for_key E D h p key v) = record_ok D h key v"
proof -
  let ?p1 = "en_yield E p"
  let ?p2 = "?p1\<lparr>pr_sig_cache := snd (verify_record D h (pr_sig_cache ?p1) key v)\<rparr>"
  have S: "insert (hash_input D key v) S = S" using assms by blast
  have cached: "cached_ok D h S ?p2 \<and> fst (verify_record D h (pr_sig_cache ?p1) key v) = record_ok D h key v"
    if ok: "cached_ok D h S ?p1"
  proof (cases "pr_sig_cache ?p1")
    case None
    then show ?thesis by (auto simp: cached_ok_def record_ok_def verify_record_def Let_def split: if_splits)
  next
    case (Some c)
    then have "cache_ok D h S c" using ok by (simp add: cached_ok_def)
    from verify_record_cached [OF this, of key v, unfolded S, OF S_inj] Some
    show ?thesis by (auto simp: cached_ok_def record_ok_def)
  qed
  have "evolves D h U S ?p1 ?p2"
    using cached
    by (auto simp: evolves_def node_inv_def table_ok_def bounds_ok_def chans_ok_def tasks_of_def books_def
        intro!: guarantee_same registers_cong)
  from evolves_trans [OF yield_evolves this]
  show "evolves D h U S p (fst (verify_for_key E D h p key v))"
    by (simp add: verify_for_key_def Let_def case_prod_beta)
  show "snd (verify_for_key E D h p key v) = record_ok D h key v" if "node_inv D h S H K s p"
    using that yield_evolves [of p] cached
    by (auto simp: verify_for_key_def Let_def case_prod_beta evolves_def node_inv_def)
qed

lemma store_verified_evolves:
  assumes "hash_input D key v \<in> S"
  shows "evolves D h U S p (fst (store_verified E D h p i a key v))"
proof -
  let ?vk = "verify_for_key E D h p key v"
  note 1 = verify_for_key_evolves(1) [OF assms, of p] and 2 = verify_for_key_evolves(2) [OF assms, of _ _ _ p]
  show ?thesis
  proof (cases "snd ?vk \<and> record_ok D h key v")
    case False
    show ?thesis
    proof (cases "snd ?vk")
      case True
      then have "\<not> node_inv D h S H K s p" for H K s using 2 False by blast
      then show ?thesis by (simp add: evolves_def)
    qed (use 1 in \<open>simp add: store_verified_def case_prod_beta\<close>)
  next
    case True
    then have ins: "evolves D h U S p ((fst ?vk)\<lparr>pr_storage :=
        fst (insert_if_absent (pnow (fst ?vk)) (id_bytes key) v (pr_storage (fst ?vk)))\<rparr>)"
      by (intro evolves_trans [OF 1 insert_evolves] assms) simp
    then show ?thesis using True evolves_trans [OF ins schedule_welcome_evolves]
      by (simp add: store_verified_def case_prod_beta Let_def)
  qed
qed

lemma rpc_store_evolves:
  assumes "hash_input D key v \<in> S"
  shows "evolves D h U S p (fst (rpc_store E D h p i a key v))"
proof -
  obtain p1 r where n: "network_copy E D p key v = (p1, r)" by fastforce
  then have 1: "evolves D h U S p p1" using network_copy_evolves [of p key v] by simp
  show ?thesis
    using 1 evolves_trans [OF 1 store_verified_evolves [OF assms]] store_verified_evolves [OF assms]
    by (simp add: rpc_store_def n count_check_evolves split: network_copy_result.split)
qed

lemma overwrite_evolves:
  assumes old: "registers p key = Some old" and ok: "record_ok D h key v" "hash_input D key v \<in> S"
    and step: "\<And>A T. (key, old) \<in> T \<Longrightarrow> reg_step D h U (A, T) (A(key \<mapsto> v), insert (key, v) T)"
    and q: "evolves D h U S p q"
  shows "evolves D h U S p (q\<lparr>pr_storage := fst (st_set (pnow q) (id_bytes key) v (pr_storage q))\<rparr>)"
  unfolding evolves_def
proof (intro allI impI)
  fix H K s assume "node_inv D h S H K s p"
  then have "node_inv D h S H K s q" "guarantee D h U p q" using q by (auto simp: evolves_def)
  then show "node_inv D h S H K s (q\<lparr>pr_storage := fst (st_set (pnow q) (id_bytes key) v (pr_storage q))\<rparr>) \<and>
      guarantee D h U p (q\<lparr>pr_storage := fst (st_set (pnow q) (id_bytes key) v (pr_storage q))\<rparr>)"
    using set_inv overwrite_guarantee step ok held_mem [OF old] by blast
qed

lemma rpc_update_evolves:
  assumes S: "hash_input D key v \<in> S"
  shows "evolves D h U S p (fst (rpc_update E D h p i a key v auth))"
proof (cases "st_get (pnow p) (id_bytes key) (pr_storage p)")
  case (Some old)
  then have reg: "registers p key = Some old" by (simp add: registers_def)
  let ?q = "schedule_welcome_if_new (en_yield E p) (sender i a)"
  have q: "evolves D h U S p ?q" by (rule evolves_trans [OF yield_evolves schedule_welcome_evolves])
  have "evolves D h U S p (?q\<lparr>pr_storage := fst (st_set (pnow ?q) (id_bytes key) v (pr_storage ?q))\<rparr>)"
    if "verify_rotation h key v old auth" "key \<noteq> digest D STATUS_LIST_KEY"
    using that rotation_result_valid [OF that]
    by (intro overwrite_evolves [OF reg _ S _ q]) (auto simp: record_ok_def intro: reg_step.rotate)
  then show ?thesis using Some yield_evolves by (simp add: rpc_update_def Let_def case_prod_beta)
qed (simp add: rpc_update_def)

lemma rpc_update_status_list_evolves:
  assumes S: "hash_input D key v \<in> S"
  shows "evolves D h U S p (fst (rpc_update_status_list E D h p i a key v))"
proof (cases "st_get (pnow p) (id_bytes key) (pr_storage p)")
  case (Some old)
  then have reg: "registers p key = Some old" by (simp add: registers_def)
  let ?q = "schedule_welcome_if_new (en_yield E p) (sender i a)"
  have q: "evolves D h U S p ?q" by (rule evolves_trans [OF yield_evolves schedule_welcome_evolves])
  have "evolves D h U S p (?q\<lparr>pr_storage := fst (st_set (pnow ?q) (id_bytes key) v (pr_storage ?q))\<rparr>)"
    if "verify_issuer_signed h v" "key = digest D STATUS_LIST_KEY"
    using that
    by (intro overwrite_evolves [OF reg _ S _ q])
      (auto simp: record_ok_def verify_record_def check_signature_def is_bound_to_key_def verify_issuer_signed_def Let_def
        intro: reg_step.issue)
  then show ?thesis using Some yield_evolves by (simp add: rpc_update_status_list_def Let_def case_prod_beta)
qed (auto simp: rpc_update_status_list_def)

lemma rpc_find_value_evolves: "evolves D h U S p (fst (rpc_find_value D h p i a key))"
  using schedule_welcome_evolves [of D h U S p "sender i a"]
    evolves_trans [OF schedule_welcome_evolves advertise_evolves, of D h U S p "sender i a" key "sender i a"]
  by (simp add: rpc_find_value_def Let_def case_prod_beta split: option.split)

lemma rpc_leave_evolves: "evolves D h U S p (rpc_leave p i a)"
proof (cases "get_contact (pr_router p) i")
  case (Some c)
  have "evolves D h U S p (p\<lparr>pr_router := remove_contact (pr_router p) c\<rparr>)"
    by (rule evolves_router) (simp add: table_ok_def remove_contact_inv)
  then show ?thesis using Some by (simp add: rpc_leave_def)
qed (simp add: rpc_leave_def)

lemma dispatch_evolves:
  assumes "msg_ok D S msg"
  shows "evolves D h U S p (fst (dispatch_request E D h p msg peer))"
proof -
  have "evolves D h U S p (fst (rpc_find_node p i peer key))" for i key
    unfolding rpc_find_node_def Let_def by (rule evolves_trans [OF schedule_welcome_evolves advertise_evolves])
  moreover have "evolves D h U S p (fst (rpc_find_hash D h p i peer key))" for i key
    using rpc_find_value_evolves by (simp add: rpc_find_hash_def case_prod_beta)
  ultimately show ?thesis using assms
    by (cases msg) (simp_all add: dispatch_request_def rpc_ping_def Let_def case_prod_beta msg_ok_def schedule_welcome_evolves
        rpc_store_evolves rpc_update_evolves rpc_update_status_list_evolves rpc_find_value_evolves rpc_leave_evolves)
qed

end

subsection \<open>Receiving and running tasks\<close>

lemma evolvesI:
  assumes "\<And>H K s. node_inv D h S H K s p \<Longrightarrow> node_inv D h S H K s p'" "guarantee D h U p p'"
  shows "evolves D h U S p p'"
  using assms by (simp add: evolves_def)

lemma finish_ping:
  assumes "node_inv D h S (PingOldest n # H) K s p"
  shows "node_inv D h S H K s (p\<lparr>pr_oldest_pings_in_flight := pr_oldest_pings_in_flight p - {nid n}\<rparr>)"
  using assms by (simp add: node_inv_def inv_parts book_finish_ping)

lemma finish_replicate:
  assumes "node_inv D h S (Replicate n # H) K s p"
  shows "node_inv D h S H K s (p\<lparr>pr_welcome_in_flight := pr_welcome_in_flight p - {nid n}\<rparr>)"
proof -
  have "card (pr_welcome_in_flight p - {nid n}) \<le> card (pr_welcome_in_flight p)"
    by (metis card_Diff1_le)
  then show ?thesis using assms by (auto simp: node_inv_def inv_parts book_finish_replicate)
qed

lemma finish_store:
  assumes "node_inv D h S (AnswerStore peer i m key # H) K s p"
  shows "node_inv D h S H K s (drop_task p (AnswerStore peer i m key))"
  using assms by (auto simp: node_inv_def inv_parts drop_task_def intro: book_finish_store)

lemma task_moved:
  fixes f :: "task list \<Rightarrow> 'b list"
  assumes f: "\<And>a b. f (a @ b) = f a @ f b" and i: "i < length ts"
  shows "distinct (f (remove_at i ts @ ts ! i # H) @ K) \<longleftrightarrow> distinct (f (ts @ H) @ K)"
    "set (f (remove_at i ts @ ts ! i # H) @ K) = set (f (ts @ H) @ K)"
    "length (f (remove_at i ts @ ts ! i # H)) = length (f (ts @ H))"
proof -
  have split: "ts = take i ts @ ts ! i # drop (Suc i) ts" using i by (simp add: id_take_nth_drop)
  have c: "f (ts @ H) = f (take i ts) @ f [ts ! i] @ f (drop (Suc i) ts) @ f H"
    "f (remove_at i ts @ ts ! i # H) = f (take i ts) @ f (drop (Suc i) ts) @ f [ts ! i] @ f H"
    using arg_cong [OF split, of f] f [of "take i ts" "[ts ! i] @ drop (Suc i) ts"] f [of "[ts ! i]" "drop (Suc i) ts"]
      f [of "[ts ! i]" H] by (simp_all add: f remove_at_def)
  show "distinct (f (remove_at i ts @ ts ! i # H) @ K) \<longleftrightarrow> distinct (f (ts @ H) @ K)"
    "set (f (remove_at i ts @ ts ! i # H) @ K) = set (f (ts @ H) @ K)"
    "length (f (remove_at i ts @ ts ! i # H)) = length (f (ts @ H))"
    unfolding c by auto
qed

lemma start_task:
  assumes "node_inv D h S H K s p" "pr_tasks p = Some ts" "i < length ts"
  shows "node_inv D h S (ts ! i # H) K s (p\<lparr>pr_tasks := Some (remove_at i ts)\<rparr>)"
proof -
  note moved = task_moved [where H = H, OF _ assms(3)]
  have "set (remove_at i ts @ ts ! i # H) = set (ts @ H)" using moved(2) [where f = "\<lambda>x. x" and K = "[]"] by simp
  moreover note moved(1,2) [where f = pings and K = "[]", OF task_lists_append(1)]
    moved(1,2) [where f = welcomes and K = "[]", OF task_lists_append(2)]
    moved [where f = store_keys, OF task_lists_append(3)]
  ultimately show ?thesis using assms(1,2)
    by (simp add: node_inv_def inv_parts book_of_def del: task_lists_append append_assoc set_append distinct_append)
qed

lemma progress_inv:
  assumes "progress_start p key = Some p1"
  shows "node_inv D h S H K s p \<Longrightarrow> node_inv D h S H (key # K) s p1" "guarantee D h U p p1"
proof -
  have p1: "p1 = p\<lparr>pr_requests_in_progress := insert key (pr_requests_in_progress p)\<rparr>"
    and new: "key \<notin> pr_requests_in_progress p"
    using assms by (auto simp: progress_start_def split: if_splits)
  show "guarantee D h U p p1" unfolding p1 by (intro guarantee_same registers_cong) simp_all
  assume inv: "node_inv D h S H K s p"
  have "books H (key # K) s p1" using inv new unfolding p1 by (simp add: node_inv_def books_def book_progress)
  then show "node_inv D h S H (key # K) s p1"
    using inv unfolding p1 by (simp add: node_inv_def table_ok_def bounds_ok_def chans_ok_def cached_ok_def tasks_of_def)
qed

lemma progress_drop_inv:
  shows "node_inv D h S H (key # K) s p \<Longrightarrow> node_inv D h S H K s (progress_drop p key)"
    and "guarantee D h U p (progress_drop p key)"
proof -
  show "guarantee D h U p (progress_drop p key)"
    unfolding progress_drop_def by (intro guarantee_same registers_cong) simp_all
  assume inv: "node_inv D h S H (key # K) s p"
  have "books H K s (progress_drop p key)" using inv by (simp add: node_inv_def books_def book_progress_drop progress_drop_def)
  then show "node_inv D h S H K s (progress_drop p key)"
    using inv by (simp add: node_inv_def table_ok_def bounds_ok_def chans_ok_def cached_ok_def tasks_of_def progress_drop_def)
qed

lemma slot_inv:
  assumes "slot_take p = Some p1"
  shows "node_inv D h S H K s p \<Longrightarrow> node_inv D h S H K (Suc s) p1" "guarantee D h U p p1"
proof -
  have p1: "p1 = p\<lparr>pr_store_lookups := pr_store_lookups p + 1\<rparr>" and room: "pr_store_lookups p < MAX_STORE_LOOKUPS"
    using assms by (auto simp: slot_take_def split: if_splits)
  show "guarantee D h U p p1" unfolding p1 by (intro guarantee_same registers_cong) simp_all
  show "node_inv D h S H K (Suc s) p1" if "node_inv D h S H K s p"
    using that room unfolding p1 by (simp add: node_inv_def inv_parts book_slot)
qed

lemma spawn_store_inv:
  assumes "hash_input D k v \<in> S"
  shows "node_inv D h S H (key # K) (Suc s) p \<Longrightarrow> node_inv D h S H K s (spawn_task p (AnswerStore peer i (Store j k v) key))"
    and "guarantee D h U p (spawn_task p (AnswerStore peer i m key))"
proof -
  show "guarantee D h U p (spawn_task p (AnswerStore peer i m key))"
    by (intro guarantee_same registers_cong) (simp_all add: spawn_task_def drop_task_def split: option.split)
  assume "node_inv D h S H (key # K) (Suc s) p"
  then show "node_inv D h S H K s (spawn_task p (AnswerStore peer i (Store j k v) key))"
    using assms
    by (cases "pr_tasks p") (simp_all add: spawn_task_def drop_task_def node_inv_def inv_parts task_ok_def book_spawn_store le_trans [OF diff_le_self])
qed

lemma evolves_step: "evolves D h U S p q \<Longrightarrow> node_inv D h S H K s p \<Longrightarrow> node_inv D h S H K s q \<and> guarantee D h U p q"
  by (simp add: evolves_def)

lemma receive_payload_evolves: "evolves D h U S p (fst (receive_payload p data peer))"
proof -
  have gc: "evolves D h U S p (gc_reassembly p)"
    by (rule evolvesI) (auto simp: gc_reassembly_def node_inv_def inv_parts reassembly_retain_inv intro!: guarantee_same registers_cong)
  have acc: "evolves D h U S q (q\<lparr>pr_reassembly := fst (accept_fragment (pnow q) (pr_reassembly q) peer hd c)\<rparr>)" for q hd c
    by (rule evolvesI) (auto simp: node_inv_def inv_parts accept_fragment_inv intro!: guarantee_same registers_cong)
  from evolves_trans [OF gc acc] show ?thesis
    by (auto simp: receive_payload_def Let_def case_prod_beta split: option.split)
qed

lemma handle_response_evolves: "evolves D h U S p (handle_response p fr peer)"
proof (cases "map_of (pr_pending p) (fr_msg_id fr)")
  case (Some call)
  have mem: "(fr_msg_id fr, call) \<in> set (pr_pending p)" using Some by (rule map_of_SomeD)
  have permit: "evolves D h U S p (p\<lparr>pr_permits := m\<rparr>)" for m
    by (rule evolves_core) (simp_all add: core_def table_ok_def)
  define p1 where "p1 = p\<lparr>pr_pending := AList.delete (fr_msg_id fr) (pr_pending p)\<rparr>"
  define p2 where "p2 = (case fr_message fr of Pong i \<Rightarrow> schedule_welcome_if_new p1 (sender i peer) | _ \<Rightarrow> p1)"
  have reply: "evolves D h U S p (p2\<lparr>pr_replies := (pc_chan call, fr_message fr) # pr_replies p2\<rparr>)"
    if ok: "pc_peer call = peer" "accepts (pc_expected call) (fr_message fr)"
    unfolding evolves_def
  proof (intro allI impI)
    fix H K s assume inv: "node_inv D h S H K s p"
    have inv1: "node_inv D h S H K s p1" using inv by (auto simp: p1_def node_inv_def inv_parts AList.delete_eq)
    have "evolves D h U S p1 p2" by (auto simp: p2_def schedule_welcome_evolves split: rpc_message.split)
    then have 2: "node_inv D h S H K s p2" "guarantee D h U p1 p2" using inv1 by (auto simp: evolves_def)
    have "pc_chan call < pr_next_chan p" using inv mem by (auto simp: node_inv_def inv_parts)
    then have fresh: "pc_chan call < pr_next_chan p2" using 2(2) by (simp add: guarantee_def p1_def)
    have "chan_ok chan addr ex (p2\<lparr>pr_replies := (pc_chan call, fr_message fr) # pr_replies p2\<rparr>)"
      if c: "chan_ok chan addr ex p" for chan addr ex
    proof -
      have "chan_ok chan addr ex p1"
        using c by (auto simp: chan_ok_def p1_def AList.delete_eq)
      then have "chan_ok chan addr ex p2" using 2(2) by (cases addr) (simp add: guarantee_def)
      then show ?thesis using c mem ok by (auto simp: chan_ok_def)
    qed
    moreover have "registers (p2\<lparr>pr_replies := r\<rparr>) = registers p2" "registers p1 = registers p" for r
      by (simp_all add: registers_def fun_eq_iff p1_def)
    ultimately have "guarantee D h U p (p2\<lparr>pr_replies := (pc_chan call, fr_message fr) # pr_replies p2\<rparr>)"
      using 2(2) by (simp add: guarantee_def p1_def)
    then show "node_inv D h S H K s (p2\<lparr>pr_replies := (pc_chan call, fr_message fr) # pr_replies p2\<rparr>) \<and>
        guarantee D h U p (p2\<lparr>pr_replies := (pc_chan call, fr_message fr) # pr_replies p2\<rparr>)"
      using 2(1) fresh by (simp add: node_inv_def inv_parts)
  qed
  then show ?thesis using Some permit
    by (simp add: handle_response_def p1_def [symmetric] p2_def [symmetric])
qed (simp add: handle_response_def)

context rpc_env
begin

lemma handle_request_evolves:
  assumes ok: "msg_ok D S (fr_message fr)"
  shows "evolves D h U S p (handle_request W E D h p payload fr peer)"
proof (cases "carried_record (fr_message fr) = None")
  case True
  then show ?thesis using evolves_trans [OF dispatch_evolves [OF ok] answer_evolves]
    by (simp add: handle_request_def Let_def case_prod_beta)
next
  case False
  let ?key = "(peer, record_hash (sha256 D) payload)" and ?id = "fr_msg_id fr"
  show ?thesis
  proof (cases "progress_start p ?key")
    case None
    then show ?thesis using False by (auto simp: handle_request_def Let_def answer_evolves)
  next
    case (Some p1)
    let ?p2 = "answer W p1 peer ?id (Some Received)"
    let ?d = "dispatch_request E D h ?p2 (fr_message fr) peer"
    let ?p3 = "answer W (fst ?d) peer ?id (snd ?d)"
    have inline: "evolves D h U S p (progress_drop ?p3 ?key)"
      unfolding evolves_def
    proof (intro allI impI)
      fix H K s assume inv: "node_inv D h S H K s p"
      have "evolves D h U S p1 ?p3"
        by (rule evolves_trans [OF answer_evolves evolves_trans [OF dispatch_evolves [OF ok] answer_evolves]])
      note 3 = evolves_step [OF this progress_inv(1) [OF Some inv]]
      have "guarantee D h U p ?p3" by (rule guarantee_trans [OF progress_inv(2) [OF Some] conjunct2 [OF 3]])
      from progress_drop_inv(1) [OF conjunct1 [OF 3]] guarantee_trans [OF this progress_drop_inv(2)]
      show "node_inv D h S H K s (progress_drop ?p3 ?key) \<and> guarantee D h U p (progress_drop ?p3 ?key)" ..
    qed
    have full: "evolves D h U S p (progress_drop p1 ?key)"
      by (rule evolvesI [OF progress_drop_inv(1) [OF progress_inv(1) [OF Some]]
            guarantee_trans [OF progress_inv(2) [OF Some] progress_drop_inv(2)]])
    have spawn: "evolves D h U S p (spawn_task (answer W q peer ?id (Some Received)) (AnswerStore peer ?id (fr_message fr) ?key))"
      if q: "slot_take p1 = Some q" and m: "fr_message fr = Store j k v" for q j k v
      unfolding evolves_def m
    proof (intro allI impI)
      fix H K s assume inv: "node_inv D h S H K s p"
      have S: "hash_input D k v \<in> S" using ok m by (simp add: msg_ok_def)
      note 1 = slot_inv(1) [OF q progress_inv(1) [OF Some inv]]
      note 2 = evolves_step [OF answer_evolves 1, of W peer ?id "Some Received"]
      let ?p' = "spawn_task (answer W q peer ?id (Some Received)) (AnswerStore peer ?id (Store j k v) ?key)"
      have "guarantee D h U p q" by (rule guarantee_trans [OF progress_inv(2) [OF Some] slot_inv(2) [OF q]])
      from guarantee_trans [OF guarantee_trans [OF this conjunct2 [OF 2]] spawn_store_inv(2) [OF S]]
        spawn_store_inv(1) [OF S conjunct1 [OF 2]]
      show "node_inv D h S H K s ?p' \<and> guarantee D h U p ?p'" by simp
    qed
    show ?thesis
    proof (cases "\<exists>j k v. fr_message fr = Store j k v \<and> store_needs_lookup D p1 k")
      case True
      then show ?thesis using Some full spawn
        by (cases "slot_take p1") (auto simp: handle_request_def Let_def carried_record_def)
    next
      case no: False
      then have "\<not> (case fr_message fr of Store _ k _ \<Rightarrow> store_needs_lookup D p1 k | _ \<Rightarrow> False)"
        by (cases "fr_message fr") simp_all
      then show ?thesis using False Some inline by (auto simp: handle_request_def Let_def case_prod_beta)
    qed
  qed
qed

lemma run_task_step:
  assumes inv: "node_inv D h S (t # H) K s p"
  shows "node_inv D h S H K s (run_task W E D h p t) \<and> guarantee D h U p (run_task W E D h p t)"
proof (cases t)
  case (PingOldest n)
  let ?p1 = "call_ping_node E p n"
  note 1 = evolves_step [OF call_ping_node_evolves inv, of n]
  have "guarantee D h U ?p1 (?p1\<lparr>pr_oldest_pings_in_flight := pr_oldest_pings_in_flight ?p1 - {nid n}\<rparr>)"
    by (intro guarantee_same registers_cong) simp_all
  from guarantee_trans [OF conjunct2 [OF 1] this] finish_ping [of D h S n H K s ?p1] 1
  show ?thesis unfolding PingOldest by (simp add: run_task_def Let_def)
next
  case (Replicate n)
  let ?p1 = "replicate_to E p n"
  note 1 = evolves_step [OF replicate_to_evolves inv, of n]
  have "guarantee D h U ?p1 (?p1\<lparr>pr_welcome_in_flight := pr_welcome_in_flight ?p1 - {nid n}\<rparr>)"
    by (intro guarantee_same registers_cong) simp_all
  from guarantee_trans [OF conjunct2 [OF 1] this] finish_replicate [of D h S n H K s ?p1] 1
  show ?thesis unfolding Replicate by (simp add: run_task_def Let_def)
next
  case (AnswerStore peer i m key)
  let ?d = "dispatch_request E D h p m peer"
  let ?p1 = "answer W (fst ?d) peer i (snd ?d)"
  have "task_ok D S t" using inv by (simp add: node_inv_def)
  then have "msg_ok D S m" unfolding AnswerStore by (auto simp: task_ok_def msg_ok_def)
  then have "evolves D h U S p ?p1" by (intro evolves_trans [OF dispatch_evolves answer_evolves])
  note 1 = evolves_step [OF this inv]
  have "guarantee D h U ?p1 (drop_task ?p1 t)"
    unfolding AnswerStore by (intro guarantee_same registers_cong) (simp_all add: drop_task_def)
  from guarantee_trans [OF _ this] finish_store [of D h S peer i m key H K s ?p1] 1
  show ?thesis unfolding AnswerStore by (simp add: run_task_def Let_def case_prod_beta)
qed

lemma run_next_evolves: "evolves D h U S p (run_next W E D h p i)"
proof (cases "\<exists>ts. pr_tasks p = Some ts \<and> i < length ts")
  case True
  then obtain ts where ts: "pr_tasks p = Some ts" "i < length ts" by blast
  let ?p1 = "p\<lparr>pr_tasks := Some (remove_at i ts)\<rparr>"
  have g: "guarantee D h U p ?p1" by (intro guarantee_same registers_cong) simp_all
  have run: "run_next W E D h p i = run_task W E D h ?p1 (ts ! i)" using ts by (simp add: run_next_def)
  show ?thesis unfolding evolves_def run
  proof (intro allI impI)
    fix H K s assume "node_inv D h S H K s p"
    note 1 = run_task_step [OF start_task [OF this ts], of W]
    from guarantee_trans [OF g conjunct2 [OF 1]] conjunct1 [OF 1]
    show "node_inv D h S H K s (run_task W E D h ?p1 (ts ! i)) \<and> guarantee D h U p (run_task W E D h ?p1 (ts ! i))" by simp
  qed
qed (auto simp: run_next_def split: option.split)

end

subsection \<open>Calls\<close>

lemma rts_inv_mono: "rts_inv m rts \<Longrightarrow> m \<le> m' \<Longrightarrow> rts_inv m' rts"
  by (fastforce simp: rts_inv_def)

lemma record_trip_evolves: "evolves D h U S p (record_trip p cs)"
proof (rule evolvesI)
  fix H K s assume inv: "node_inv D h S H K s p"
  let ?x = "pnow p - cl_first_sent cs"
  obtain m where "rts_inv m (pr_round_trips p)" using inv by (auto simp: node_inv_def bounds_ok_def)
  then have "rts_inv (max m ?x) (rts_record (pnow p) (pr_round_trips p) (cl_addr cs) ?x)"
    by (auto intro!: rts_record_inv elim: rts_inv_mono)
  then have "\<exists>m. rts_inv m (rts_record (pnow p) (pr_round_trips p) (cl_addr cs) ?x)" ..
  then show "node_inv D h S H K s (record_trip p cs)"
    using inv by (simp add: record_trip_def node_inv_def inv_parts)
qed (intro guarantee_same registers_cong; simp add: record_trip_def)

lemma end_call_evolves: "evolves D h U S p (end_call p i)"
proof (rule evolvesI)
  show "node_inv D h S H K s p \<Longrightarrow> node_inv D h S H K s (end_call p i)" for H K s
    by (auto simp: end_call_def node_inv_def inv_parts AList.delete_eq)
  have "registers (end_call p i) = registers p" by (rule registers_cong) (simp_all add: end_call_def)
  moreover have "chan_ok chan addr ex p \<Longrightarrow> chan_ok chan addr ex (end_call p i)" for chan addr ex
    by (auto simp: chan_ok_def end_call_def AList.delete_eq)
  ultimately show "guarantee D h U p (end_call p i)" by (auto simp: guarantee_def end_call_def)
qed

lemma send_datagrams_evolves: "evolves D h U S p (fst (send_datagrams W p addr kind dgs))"
  using send_datagrams_core [of W p addr kind dgs] by (intro evolves_core) (auto intro: table_ok_cong)

lemma evolves_permits: "evolves D h U S p (p\<lparr>pr_permits := x\<rparr>)"
  and evolves_counters: "evolves D h U S p (p\<lparr>pr_counters := c\<rparr>)"
  by (rule evolves_core; simp add: core_def table_ok_def)+

lemma call_step_evolves: "evolves D h U S p (fst (call_step W p cs b))"
proof (cases b)
  case AnswerBranch
  then show ?thesis
    by (simp add: call_step_def Let_def evolves_trans [OF record_trip_evolves end_call_evolves] end_call_evolves
        split: option.split)
next
  case ReceiptBranch
  then show ?thesis
    by (simp add: call_step_def Let_def evolves_trans [OF evolves_permits record_trip_evolves] evolves_permits)
next
  case TimerBranch
  then show ?thesis
    by (simp add: call_step_def Let_def case_prod_beta end_call_evolves
        evolves_trans [OF evolves_counters send_datagrams_evolves]
        evolves_trans [OF evolves_trans [OF evolves_counters send_datagrams_evolves] end_call_evolves])
qed

text \<open>What a waiting call knows of its channel.\<close>

definition call_ok :: "sock_addr \<Rightarrow> rpc_message \<Rightarrow> proto \<Rightarrow> call_state \<Rightarrow> bool" where
  "call_ok addr m p cs \<longleftrightarrow> cl_addr cs = addr \<and> chan_ok (cl_chan cs) addr (for_request m) p"

definition result_ok :: "sock_addr \<Rightarrow> rpc_message \<Rightarrow> proto \<times> call_result \<Rightarrow> bool" where
  "result_ok addr m pr \<longleftrightarrow>
     (case snd pr of
        Waiting cs \<Rightarrow> call_ok addr m (fst pr) cs
      | Ended None \<Rightarrow> True
      | Ended (Some r) \<Rightarrow> accepts (for_request m) r)"

abbreviation open_call :: "proto \<Rightarrow> u32 \<Rightarrow> sock_addr \<Rightarrow> expected_response \<Rightarrow> proto" where
  "open_call p i a e \<equiv>
     p\<lparr>pr_next_chan := pr_next_chan p + 1,
       pr_pending := AList.update i \<lparr>pc_peer = a, pc_expected = e, pc_chan = pr_next_chan p\<rparr> (pr_pending p)\<rparr>"

lemma open_call_inv:
  assumes "node_inv D h S H K s p"
  shows "node_inv D h S H K s (open_call p i a e)" "guarantee D h U p (open_call p i a e)"
    "chan_ok (pr_next_chan p) a e (open_call p i a e)"
proof -
  let ?p' = "open_call p i a e"
  have fresh: "\<forall>(i, call) \<in> set (pr_pending p). pc_chan call < pr_next_chan p"
    "\<forall>(chan, r) \<in> set (pr_replies p). chan < pr_next_chan p"
    using assms by (simp_all add: node_inv_def inv_parts)
  let ?new = "\<lparr>pc_peer = a, pc_expected = e, pc_chan = pr_next_chan p\<rparr>"
  have sub: "set (AList.update i ?new (pr_pending p)) \<subseteq> insert (i, ?new) (set (pr_pending p))"
    by (rule alist_update_subset)
  have "\<forall>(i, call) \<in> set (AList.update i ?new (pr_pending p)). pc_chan call < pr_next_chan p + 1"
    using sub fresh(1) by fastforce
  then show "node_inv D h S H K s ?p'"
    using assms fresh(2) by (fastforce simp: node_inv_def inv_parts)
  show "chan_ok (pr_next_chan p) a e ?p'"
    using sub fresh by (fastforce simp: chan_ok_def)
  have "chan_ok chan addr ex ?p'" if "chan_ok chan addr ex p" for chan addr ex
    using that sub by (fastforce simp: chan_ok_def)
  moreover have "registers ?p' = registers p" by (rule registers_cong) simp_all
  ultimately show "guarantee D h U p ?p'" by (auto simp: guarantee_def)
qed

lemma call_start_ok:
  assumes inv: "node_inv D h S H K s p"
  shows "node_inv D h S H K s (fst (call_start W p addr m)) \<and> guarantee D h U p (fst (call_start W p addr m)) \<and>
    result_ok addr m (call_start W p addr m)"
proof -
  let ?p1 = "p\<lparr>pr_next_msg_id := pr_next_msg_id p + 1\<rparr>" and ?i = "pr_next_msg_id p"
  let ?fr = "\<lparr>fr_msg_id = ?i, fr_is_request = True, fr_message = m\<rparr>"
  obtain p2 r where e: "encode_frame W ?p1 ?fr = (p2, r)" by fastforce
  have "core p2 = core p" "pr_router p2 = pr_router p"
    using encode_frame_core [of W ?p1 ?fr] e by (simp_all add: core_def)
  then have "evolves D h U S p p2" by (intro evolves_core) (auto intro: table_ok_cong)
  note 2 = evolves_step [OF this inv]
  show ?thesis
  proof (cases r)
    case None
    then show ?thesis using e 2 by (simp add: call_start_def next_id_def result_ok_def)
  next
    case (Some dgs)
    let ?p3 = "open_call p2 ?i addr (for_request m)"
    note 3 = open_call_inv [where i = ?i and a = addr and e = "for_request m", OF conjunct1 [OF 2]]
    obtain p4 ok where s: "send_datagrams W ?p3 addr (rpc_message_name m) dgs = (p4, ok)" by fastforce
    have "evolves D h U S ?p3 p4" using send_datagrams_evolves [of D h U S ?p3 W] s by (metis fst_conv)
    note 4 = evolves_step [OF this 3(1)]
    note 5 = evolves_step [OF end_call_evolves conjunct1 [OF 4], of ?i]
    have g: "guarantee D h U p p4"
      by (rule guarantee_trans [OF guarantee_trans [OF conjunct2 [OF 2] 3(2)] conjunct2 [OF 4]])
    have c: "chan_ok (pr_next_chan p2) addr (for_request m) p4"
      using 3(3) 4 by (cases addr) (simp add: guarantee_def)
    show ?thesis
      using e Some s 4 5 g c guarantee_trans [OF g conjunct2 [OF 5]]
      by (simp add: call_start_def next_id_def result_ok_def call_ok_def Let_def)
  qed
qed

lemma call_step_ok:
  assumes "call_ok addr m p cs" "node_inv D h S H K s p"
  shows "result_ok addr m (call_step W p cs b)"
proof -
  note 1 = evolves_step [OF call_step_evolves assms(2), of W cs b]
  have chan: "chan_ok (cl_chan cs) addr (for_request m) (fst (call_step W p cs b))"
    using 1 assms(1) by (cases addr) (simp add: guarantee_def call_ok_def)
  show ?thesis
  proof (cases "snd (call_step W p cs b)")
    case (Waiting cs')
    have "cl_chan cs' = cl_chan cs \<and> cl_addr cs' = cl_addr cs"
      using Waiting by (auto simp: call_step_def Let_def split: branch.splits if_splits option.splits prod.splits)
    then show ?thesis using Waiting chan assms(1) by (simp add: result_ok_def call_ok_def)
  next
    case (Ended r)
    show ?thesis
    proof (cases r)
      case (Some r')
      then have "map_of (pr_replies p) (cl_chan cs) = Some r'"
        using Ended by (auto simp: call_step_def Let_def split: branch.splits if_splits option.splits prod.splits)
      then have "accepts (for_request m) r'"
        using assms(1) by (auto simp: call_ok_def chan_ok_def dest!: map_of_SomeD)
      then show ?thesis using Ended Some by (simp add: result_ok_def)
    qed (use Ended in \<open>simp add: result_ok_def\<close>)
  qed
qed

text \<open>
  A call and the rest of the node take turns: between two branches of its loop the other tasks of
  the node take it from one state to another, by \<open>R\<close>.
\<close>

inductive call_runs :: "world \<Rightarrow> (proto \<Rightarrow> proto \<Rightarrow> bool) \<Rightarrow> proto \<times> call_result \<Rightarrow> proto \<times> rpc_message option \<Rightarrow> bool"
  for W R where
  ended: "call_runs W R (p, Ended r) (p, r)"
| turn: "R p q \<Longrightarrow> call_runs W R (call_step W q cs b) res \<Longrightarrow> call_runs W R (p, Waiting cs) res"

lemma call_runs_mono:
  assumes "R \<le> R'"
  shows "call_runs W R x y \<longrightarrow> call_runs W R' x y"
proof
  assume "call_runs W R x y"
  then show "call_runs W R' x y"
    by (induction rule: call_runs.induct) (use assms in \<open>auto intro: call_runs.intros\<close>)
qed

lemma call_runs_ok:
  assumes "call_runs W (evolves D h U S) x y" "node_inv D h S H K s (fst x)" "result_ok addr m x"
  shows "node_inv D h S H K s (fst y) \<and> guarantee D h U (fst x) (fst y) \<and>
    (\<forall>r. snd y = Some r \<longrightarrow> accepts (for_request m) r)"
  using assms
proof (induction rule: call_runs.induct)
  case (turn p q cs b res)
  note 1 = evolves_step [OF turn.hyps(1), of H K s]
  have q: "node_inv D h S H K s q" "guarantee D h U p q" using turn.prems(1) 1 by simp_all
  have "call_ok addr m q cs"
    using turn.prems(2) q(2) by (cases addr) (simp add: result_ok_def call_ok_def guarantee_def)
  note r = call_step_ok [OF this q(1), of W b]
  note 2 = evolves_step [OF call_step_evolves q(1), of W cs b]
  from turn.IH [OF conjunct1 [OF 2] r] guarantee_trans [OF guarantee_trans [OF q(2) conjunct2 [OF 2]]]
  show ?case by auto
qed (auto simp: result_ok_def guarantee_same split: option.splits)

subsection \<open>Whole steps\<close>

lemma drop_task_evolves: "pr_tasks p = None \<Longrightarrow> evolves D h U S p (drop_task p t) \<and> pr_tasks (drop_task p t) = None"
proof (cases t)
  case (AnswerStore a i m key)
  assume none: "pr_tasks p = None"
  have "evolves D h U S p (drop_task p t)" unfolding AnswerStore
  proof (rule evolvesI)
    show "node_inv D h S H K s p \<Longrightarrow> node_inv D h S H K s (drop_task p (AnswerStore a i m key))" for H K s
      using none by (simp add: node_inv_def inv_parts drop_task_def le_trans [OF diff_le_self])
    show "guarantee D h U p (drop_task p (AnswerStore a i m key))"
      by (intro guarantee_same registers_cong) (simp_all add: drop_task_def)
  qed
  then show ?thesis using none by (simp add: AnswerStore drop_task_def)
qed (simp_all add: drop_task_def)

lemma shutdown_evolves: "evolves D h U S p (shutdown_tasks p)"
proof -
  let ?p1 = "p\<lparr>pr_tasks := None\<rparr>"
  have 1: "evolves D h U S p ?p1"
  proof (rule evolvesI)
    show "node_inv D h S H K s p \<Longrightarrow> node_inv D h S H K s ?p1" for H K s
      by (simp add: node_inv_def inv_parts)
    show "guarantee D h U p ?p1" by (intro guarantee_same registers_cong) simp_all
  qed
  have "evolves D h U S q (foldl drop_task q ts)" if "pr_tasks q = None" for q ts
    using that by (induction ts arbitrary: q) (simp_all, metis drop_task_evolves evolves_trans)
  then show ?thesis using 1 evolves_trans [OF 1]
    by (simp add: shutdown_tasks_def take_tasks_def split: option.split)
qed

text \<open>The record in the message a datagram completes is among those \<open>S\<close> speaks of.\<close>

definition datagram_ok :: "world \<Rightarrow> 'j deps \<Rightarrow> bytes set \<Rightarrow> proto \<Rightarrow> bytes \<Rightarrow> sock_addr \<Rightarrow> bool" where
  "datagram_ok W D S p data peer \<longleftrightarrow>
     (case snd (receive_payload p data peer) of
        None \<Rightarrow> True
      | Some payload \<Rightarrow> (case w_deserialize W payload of None \<Rightarrow> True | Some fr \<Rightarrow> msg_ok D S (fr_message fr)))"

context rpc_env
begin

lemma handle_datagram_evolves:
  assumes "datagram_ok W D S p data peer"
  shows "evolves D h U S p (handle_datagram W E D h p data peer)"
proof -
  obtain p1 r where r: "receive_payload p data peer = (p1, r)" by fastforce
  have 1: "evolves D h U S p p1" using receive_payload_evolves [of D h U S p data peer] r by simp
  have "evolves D h U S p1 (handle_request W E D h p1 payload fr peer)"
    if "r = Some payload" "w_deserialize W payload = Some fr" for payload fr
    using assms r that by (intro handle_request_evolves) (simp add: datagram_ok_def)
  then show ?thesis using r 1 evolves_trans [OF 1]
    by (simp add: handle_datagram_def handle_response_evolves split: option.split)
qed

end

text \<open>
  An environment that is made of steps \<open>R\<close> of the node itself: other tasks run at an \<open>await\<close>, and
  calls take turns with them.
\<close>

definition env_ok :: "world \<Rightarrow> (proto \<Rightarrow> proto \<Rightarrow> bool) \<Rightarrow> env \<Rightarrow> bool" where
  "env_ok W R E \<longleftrightarrow>
     (\<forall>p. R p (en_yield E p)) \<and> (\<forall>p a m. call_runs W R (call_start W p a m) (en_rpc E p a m))"

lemma env_ok_mono [mono]: "R \<le> R' \<Longrightarrow> env_ok W R E \<longrightarrow> env_ok W R' E"
  unfolding env_ok_def using call_runs_mono by (metis rev_predicate2D)

text \<open>Such an environment meets the interface of the handlers.\<close>

lemma env_call_ok:
  assumes "env_ok W (evolves D h U S) E" "node_inv D h S H K s p"
  shows "node_inv D h S H K s (fst (en_rpc E p a m)) \<and> guarantee D h U p (fst (en_rpc E p a m)) \<and>
    (\<forall>r. snd (en_rpc E p a m) = Some r \<longrightarrow> accepts (for_request m) r)"
proof -
  have run: "call_runs W (evolves D h U S) (call_start W p a m) (en_rpc E p a m)" using assms(1) unfolding env_ok_def by blast
  note 1 = call_start_ok [OF assms(2), of W a m]
  note 2 = call_runs_ok [OF run, of H K s a m]
  from 1 2 guarantee_trans [of D h U p "fst (call_start W p a m)"] show ?thesis by simp
qed

lemma rpc_envI:
  assumes "record_rule h" "inj_on (sha256 D) S" "answers_ok D S E" "env_ok W (evolves D h U S) E"
  shows "rpc_env D h E S U"
proof (intro rpc_env.intro rpc_env_axioms.intro)
  show "evolves D h U S p (fst (en_rpc E p a m))" for p a m
    using env_call_ok [OF assms(4)] by (simp add: evolves_def)
  show "evolves D h U S p (en_yield E p)" for p using assms(4) by (simp add: env_ok_def)
qed (use assms in simp_all)

end
