(* ===== verification/Network.thy ===== *)
theory Network
  imports Transport
begin

text \<open>
  The public interface of a node, \<open>Server\<close>: its life cycle (\<open>src/src/network/mod.rs\<close>), GET
  (\<open>read.rs\<close>), SET (\<open>publish.rs\<close>) and UPDATE (\<open>update.rs\<close>).

  The storage and the signature cache are shared with the protocol by reference. While the server
  listens they are those of its protocol, \<open>sv_storage\<close> and \<open>sv_sig_cache\<close> hold them otherwise.
\<close>

subsection \<open>The server\<close>

record server =
  sv_ksize :: nat
  sv_alpha :: nat
  sv_storage :: storage
  sv_node :: node
  sv_protocol :: "proto option"
  sv_sig_cache :: "signature_cache option"
  sv_clock :: clock

definition server_storage :: "server \<Rightarrow> storage" where
  "server_storage sv = (case sv_protocol sv of Some p \<Rightarrow> pr_storage p | None \<Rightarrow> sv_storage sv)"

definition server_now :: "server \<Rightarrow> instant" where
  "server_now sv = (case sv_protocol sv of Some p \<Rightarrow> pnow p | None \<Rightarrow> ck_now (sv_clock sv))"

definition with_protocol :: "server \<Rightarrow> proto \<Rightarrow> server" where
  "with_protocol sv p = sv\<lparr>sv_protocol := Some p\<rparr>"

text \<open>\<open>rnd\<close> are the 32 random bytes drawn for a node without a fixed identifier.\<close>

definition server_new ::
    "'j deps \<Rightarrow> clock \<Rightarrow> bytes \<Rightarrow> nat \<Rightarrow> nat \<Rightarrow> node_id option \<Rightarrow> storage option \<Rightarrow> bool \<Rightarrow> server" where
  "server_new D ck rnd ksize alpha node_id st use_cache =
     \<lparr>sv_ksize = ksize, sv_alpha = alpha,
      sv_storage = (case st of Some s \<Rightarrow> s | None \<Rightarrow> storage_new DEFAULT_TTL),
      sv_node = (case node_id of Some i \<Rightarrow> from_id i | None \<Rightarrow> from_id (digest_bytes D rnd)),
      sv_protocol = None,
      sv_sig_cache = (if use_cache then Some Map.empty else None),
      sv_clock = ck\<rparr>"

text \<open>The quorum of a Status List GET.\<close>

definition read_quorum :: "nat \<Rightarrow> nat" where
  "read_quorum alpha = max alpha 1 div 2 + 1"

text \<open>
  \<open>listen\<close>: the protocol a server starts, and the worker a datagram is given to. \<open>try_send\<close> is
  the outcome of \<open>senders[w].try_send\<close>; when every queue is full the loop waits for the base worker.
\<close>

definition listen_protocol :: "bool \<Rightarrow> server \<Rightarrow> proto" where
  "listen_protocol feature sv =
     (let p = protocol_new (sv_clock sv) feature (sv_node sv) (sv_storage sv) (sv_ksize sv) (sv_alpha sv) (sv_sig_cache sv)
      in p\<lparr>pr_router := set_min_lookup_contacts (pr_router p) (read_quorum (sv_alpha sv))\<rparr>)"

definition listen :: "bool \<Rightarrow> server \<Rightarrow> server" where
  "listen feature sv = with_protocol sv (listen_protocol feature sv)"

definition pick_worker :: "nat \<Rightarrow> (nat \<Rightarrow> bool) \<Rightarrow> nat \<Rightarrow> nat \<times> nat" where
  "pick_worker num_workers try_send idx =
     (let w = (case find (\<lambda>i. try_send ((idx + i) mod num_workers)) [0..<num_workers] of
                 Some i \<Rightarrow> (idx + i) mod num_workers
               | None \<Rightarrow> idx mod num_workers)
      in (w, (w + 1) mod num_workers))"

definition stop :: "world \<Rightarrow> env \<Rightarrow> server \<Rightarrow> server" where
  "stop W E sv =
     (case sv_protocol sv of
        None \<Rightarrow> sv
      | Some p \<Rightarrow>
          (let (p1, neighbors) = proto_find_neighbors p (sv_node sv) None;
               p2 = fst (join_all (en_done E p1) (\<lambda>p n. (call_leave_rpc W (en_ipv6 E) p n, ())) p1 neighbors);
               p3 = shutdown_tasks p2
           in sv\<lparr>sv_protocol := None, sv_storage := pr_storage p3, sv_sig_cache := pr_sig_cache p3,
                 sv_clock := pr_clock p3\<rparr>))"

definition bootstrap_node :: "env \<Rightarrow> proto \<Rightarrow> bytes \<times> u16 \<Rightarrow> proto \<times> node option" where
  "bootstrap_node E p addr =
     (let (p1, ok, idb) = call_ping_addr E p addr
      in (p1, if \<not> ok \<or> length idb \<noteq> ID_LEN then None
              else Some (node_new (id_of_bytes idb) (Some (fst addr)) (Some (snd addr)))))"

definition bootstrap :: "env \<Rightarrow> server \<Rightarrow> (bytes \<times> u16) list \<Rightarrow> server \<times> node list" where
  "bootstrap E sv addrs =
     (case sv_protocol sv of
        None \<Rightarrow> (sv, [])
      | Some p \<Rightarrow>
          (let p1 = remember_seeds p addrs;
               (p2, found) = join_all (en_done E p1) (bootstrap_node E) p1 addrs;
               nodes = List.map_filter (\<lambda>n. n) found;
               (c, r) = node_find (kad_spider E call_find_value)
                          (crawl_new p2 (sv_node sv) nodes (sv_ksize sv) (sv_alpha sv))
           in (with_protocol sv (cr_protocol c), r)))"

definition verify_value ::
    "env \<Rightarrow> 'j deps \<Rightarrow> handler \<Rightarrow> server \<Rightarrow> bytes \<Rightarrow> bytes \<Rightarrow> server \<times> bool" where
  "verify_value E D h sv key record =
     (case sv_protocol sv of
        Some p \<Rightarrow>
          (let (p1, ok) = verify_for_key E D h p (digest D key) record in (with_protocol sv p1, ok))
      | None \<Rightarrow>
          (let (ok, cache) = verify_record D h (sv_sig_cache sv) (digest D key) record
           in (sv\<lparr>sv_sig_cache := cache\<rparr>, ok)))"

definition bootstrappable_neighbors :: "server \<Rightarrow> server \<times> (bytes \<times> u16) list" where
  "bootstrappable_neighbors sv =
     (case sv_protocol sv of
        None \<Rightarrow> (sv, [])
      | Some p \<Rightarrow>
          (let (p1, ns) = proto_find_neighbors p (sv_node sv) None
           in (with_protocol sv p1, List.map_filter address ns)))"

text \<open>\<open>Drop\<close>: the tasks are aborted.\<close>

definition server_drop :: "server \<Rightarrow> server" where
  "server_drop sv =
     (case sv_protocol sv of None \<Rightarrow> sv | Some p \<Rightarrow> with_protocol sv (shutdown_tasks p))"

subsection \<open>GET\<close>

definition accept_valid :: "env \<Rightarrow> 'j deps \<Rightarrow> handler \<Rightarrow> node_id \<Rightarrow> proto acceptance" where
  "accept_valid E D h dkey p record =
     (let (p1, ok) = verify_for_key E D h p dkey record in (p1, if ok then Some record else None))"

definition server_get ::
    "env \<Rightarrow> 'j deps \<Rightarrow> handler \<Rightarrow> server \<Rightarrow> bytes \<Rightarrow> server \<times> bytes option" where
  "server_get E D h sv key =
     (let dkey = digest D key;
          is_status_list = (key = STATUS_LIST_KEY);
          local_value = st_get (server_now sv) (id_bytes dkey) (server_storage sv)
      in case (if is_status_list then None else local_value) of
           Some result \<Rightarrow>
             (let (sv1, ok) = verify_value E D h sv key result in (sv1, if ok then Some result else None))
         | None \<Rightarrow>
             (case sv_protocol sv of
                None \<Rightarrow> (sv, None)
              | Some p \<Rightarrow>
                  (let (p1, nearest) = proto_find_neighbors p (from_id dkey) None in
                   if nearest = [] then (with_protocol sv p1, None)
                   else
                     (let crawl = crawl_new p1 (from_id dkey) nearest (sv_ksize sv) (sv_alpha sv) in
                      if \<not> is_status_list then
                        (let (c, r) = find_first_valid (kad_spider E call_find_value) (accept_valid E D h dkey) crawl
                         in (with_protocol sv (cr_protocol c), r))
                      else
                        (let (c, r) = find_quorum (kad_spider E call_find_value) crawl
                               (case local_value of None \<Rightarrow> [] | Some v \<Rightarrow> [v])
                               (read_quorum (sv_alpha sv)) (max (sv_alpha sv) 1);
                             sv1 = with_protocol sv (cr_protocol c)
                         in case r of
                              None \<Rightarrow> (sv1, None)
                            | Some v \<Rightarrow>
                                (let (sv2, ok) = verify_value E D h sv1 key v
                                 in (sv2, if ok then Some v else None)))))))"

subsection \<open>SET\<close>

record set_report =
  sr_expected_replicas :: nat
  sr_stored_replicas :: nat
  sr_already_present :: nat
  sr_capacity_rejections :: nat
  sr_unavailable_nodes :: nat
  sr_conflict_rejections :: nat
  sr_invalid_rejections :: nat

definition set_report_default :: set_report where
  "set_report_default =
     \<lparr>sr_expected_replicas = 0, sr_stored_replicas = 0, sr_already_present = 0, sr_capacity_rejections = 0,
      sr_unavailable_nodes = 0, sr_conflict_rejections = 0, sr_invalid_rejections = 0\<rparr>"

definition acknowledged_replicas :: "set_report \<Rightarrow> nat" where
  "acknowledged_replicas r = sr_stored_replicas r + sr_already_present r"

definition record_status :: "set_report \<Rightarrow> store_status option \<Rightarrow> set_report" where
  "record_status r status =
     (case status of
        Some StoreStatus_Stored \<Rightarrow> r\<lparr>sr_stored_replicas := sr_stored_replicas r + 1\<rparr>
      | Some StoreStatus_AlreadyStored \<Rightarrow> r\<lparr>sr_already_present := sr_already_present r + 1\<rparr>
      | Some StoreStatus_CapacityExceeded \<Rightarrow> r\<lparr>sr_capacity_rejections := sr_capacity_rejections r + 1\<rparr>
      | Some StoreStatus_Conflict \<Rightarrow> r\<lparr>sr_conflict_rejections := sr_conflict_rejections r + 1\<rparr>
      | Some StoreStatus_InvalidRecord \<Rightarrow> r\<lparr>sr_invalid_rejections := sr_invalid_rejections r + 1\<rparr>
      | None \<Rightarrow> r\<lparr>sr_unavailable_nodes := sr_unavailable_nodes r + 1\<rparr>)"

datatype set_rejection =
  ExistingRecord | InvalidRecord | ReplicaConflict | CapacityRefused | Unavailable | NoResponsibleNodes

datatype set_outcome =
  Complete set_report | Degraded set_report | Rejected set_rejection set_report

definition outcome_report :: "set_outcome \<Rightarrow> set_report" where
  "outcome_report oc = (case oc of Complete r \<Rightarrow> r | Degraded r \<Rightarrow> r | Rejected _ r \<Rightarrow> r)"

datatype publish_lookup = Missing lookup_nodes | Identical | ConflictFound

text \<open>\<open>dedup_by_key\<close> drops an element whose key is that of the element kept before it.\<close>

fun dedup_by_id :: "node list \<Rightarrow> node list" where
  "dedup_by_id [] = []"
| "dedup_by_id [n] = [n]"
| "dedup_by_id (n # m # ns) =
     (if nid n = nid m then dedup_by_id (n # ns) else n # dedup_by_id (m # ns))"

definition select_responsible_nodes :: "node \<Rightarrow> node \<Rightarrow> node list \<Rightarrow> nat \<Rightarrow> bool \<times> node list" where
  "select_responsible_nodes local_node target remote_nodes ksize =
     (let all = take ksize (dedup_by_id (sort_key (\<lambda>n. distance_to n target) (remote_nodes @ [local_node])))
      in (list_ex (\<lambda>n. nid n = nid local_node) all, filter (\<lambda>n. nid n \<noteq> nid local_node) all))"

definition classify_set_report :: "set_report \<Rightarrow> set_outcome" where
  "classify_set_report r =
     (if sr_conflict_rejections r > 0 then Rejected ReplicaConflict r
      else if sr_invalid_rejections r > 0 then Rejected InvalidRecord r
      else if sr_expected_replicas r = 0 then Rejected NoResponsibleNodes r
      else
        (let acknowledged = acknowledged_replicas r in
         if acknowledged = sr_expected_replicas r then Complete r
         else if acknowledged > 0 then Degraded r
         else Rejected (if sr_capacity_rejections r > 0 then CapacityRefused else Unavailable) r))"

definition discover_publish_nodes :: "env \<Rightarrow> server \<Rightarrow> node_id \<Rightarrow> server \<times> lookup_nodes" where
  "discover_publish_nodes E sv dkey =
     (case sv_protocol sv of
        None \<Rightarrow> (sv, empty_lookup)
      | Some p \<Rightarrow>
          (let (p1, nearest) = proto_find_neighbors p (from_id dkey) None in
           if nearest = [] then (with_protocol sv p1, empty_lookup)
           else
             (let (c, lookup) = find_lookup_nodes (kad_spider E call_find_value)
                    (crawl_new p1 (from_id dkey) nearest (sv_ksize sv) (sv_alpha sv))
              in (with_protocol sv (cr_protocol c), lookup))))"

definition check_publish_state ::
    "env \<Rightarrow> 'j deps \<Rightarrow> handler \<Rightarrow> server \<Rightarrow> bytes \<Rightarrow> bytes \<Rightarrow> server \<times> publish_lookup" where
  "check_publish_state E D h sv key record =
     (let dkey = digest D key in
      case st_get (server_now sv) (id_bytes dkey) (server_storage sv) of
        Some existing \<Rightarrow> (sv, if existing = record then Identical else ConflictFound)
      | None \<Rightarrow>
          (case sv_protocol sv of
             None \<Rightarrow> (sv, Missing empty_lookup)
           | Some p \<Rightarrow>
               (let (p1, nearest) = proto_find_neighbors p (from_id dkey) None in
                if nearest = [] then (with_protocol sv p1, Missing empty_lookup)
                else
                  (let (vc, result, lookup) = value_find (kad_spider E call_find_value)
                         (value_crawl_new p1 (from_id dkey) nearest (sv_ksize sv) (sv_alpha sv));
                       sv1 = with_protocol sv (cr_protocol (vc_base vc))
                   in case result of
                        None \<Rightarrow> (sv1, Missing lookup)
                      | Some found \<Rightarrow>
                          (let (sv2, ok) = verify_value E D h sv1 key found in
                           if ok then (sv2, if found = record then Identical else ConflictFound)
                           else
                             (let (sv3, lookup') = discover_publish_nodes E sv2 dkey
                              in (sv3, Missing lookup')))))))"

definition set_digest_detailed ::
    "env \<Rightarrow> server \<Rightarrow> node_id \<Rightarrow> bytes \<Rightarrow> lookup_nodes \<Rightarrow> server \<times> set_outcome" where
  "set_digest_detailed E sv dkey record lookup =
     (case sv_protocol sv of
        None \<Rightarrow> (sv, Rejected Unavailable set_report_default)
      | Some p \<Rightarrow>
          (let (store_local, remote_nodes) =
                 select_responsible_nodes (sv_node sv) (from_id dkey) (lk_nodes lookup) (sv_ksize sv);
               cut_off = (remote_nodes = [] \<and> (has_contacts (pr_router p) \<or> seeds p \<noteq> []));
               report = set_report_default
                 \<lparr>sr_expected_replicas := length remote_nodes + (if store_local then 1 else 0) + (if cut_off then 1 else 0),
                  sr_unavailable_nodes := max (lk_unresponsive lookup) (if cut_off then 1 else 0)\<rparr>;
               (p1, report1) =
                 (if store_local then
                    (let (st, written) = insert_if_absent (pnow p) (id_bytes dkey) record (pr_storage p)
                     in (p\<lparr>pr_storage := st\<rparr>, record_status report (Some (from_write_status written))))
                  else (p, report));
               (p2, statuses) =
                 join_all (en_done E p1) (\<lambda>p n. call_store_rpc E p n dkey record) p1 remote_nodes
           in (with_protocol sv p2, classify_set_report (foldl record_status report1 statuses))))"

definition set_detailed ::
    "env \<Rightarrow> 'j deps \<Rightarrow> handler \<Rightarrow> server \<Rightarrow> bytes \<Rightarrow> bytes \<Rightarrow> server \<times> set_outcome" where
  "set_detailed E D h sv key record =
     (let (sv1, ok) = verify_value E D h sv key record in
      if \<not> ok then (sv1, Rejected InvalidRecord set_report_default)
      else if sv_protocol sv1 = None then (sv1, Rejected Unavailable set_report_default)
      else
        (let dkey = digest D key in
         case check_publish_state E D h sv1 key record of
           (sv2, Missing lookup) \<Rightarrow> set_digest_detailed E sv2 dkey record lookup
         | (sv2, Identical) \<Rightarrow>
             (let (sv3, lookup) = discover_publish_nodes E sv2 dkey
              in set_digest_detailed E sv3 dkey record lookup)
         | (sv2, ConflictFound) \<Rightarrow> (sv2, Rejected ExistingRecord set_report_default)))"

definition server_set ::
    "env \<Rightarrow> 'j deps \<Rightarrow> handler \<Rightarrow> server \<Rightarrow> bytes \<Rightarrow> bytes \<Rightarrow> server \<times> bool option" where
  "server_set E D h sv key record =
     (let (sv1, outcome) = set_detailed E D h sv key record
      in (sv1, case outcome of
                 Complete _ \<Rightarrow> Some True
               | Degraded _ \<Rightarrow> Some False
               | Rejected reason _ \<Rightarrow>
                   if reason \<in> {ExistingRecord, InvalidRecord, ReplicaConflict} then None else Some False))"

subsection \<open>UPDATE\<close>

definition server_yield :: "env \<Rightarrow> server \<Rightarrow> server" where
  "server_yield E sv = (case sv_protocol sv of None \<Rightarrow> sv | Some p \<Rightarrow> with_protocol sv (en_yield E p))"

text \<open>The request to one replica.\<close>

definition update_replica ::
    "env \<Rightarrow> bool \<Rightarrow> node_id \<Rightarrow> bytes \<Rightarrow> bytes \<Rightarrow> proto \<Rightarrow> node \<Rightarrow> proto \<times> bool" where
  "update_replica E is_status_list dkey record sig p n =
     (if is_status_list then call_status_list_update_rpc E p n dkey record
      else
        (case call_update_rpc_answer E p n dkey record sig of
           (p1, Some True) \<Rightarrow> (p1, True)
         | (p1, Some False) \<Rightarrow>
             (let (p2, status) = call_store_rpc E p1 n dkey record
              in (p2, status = Some StoreStatus_Stored \<or> status = Some StoreStatus_AlreadyStored))
         | (p1, None) \<Rightarrow> (p1, False)))"

text \<open>The vote of the consistency group, and how many it needs.\<close>

definition update_quorum :: "nat \<Rightarrow> bool \<Rightarrow> bool list \<Rightarrow> bool option" where
  "update_quorum alpha should_store_local results =
     (let local_vote = (if should_store_local then 1 else 0);
          primary_remote_count = min (alpha - local_vote) (length results);
          group_size = local_vote + primary_remote_count
      in if group_size = 0 then None
         else
           (let required = group_size div 2 + 1;
                acknowledgements = local_vote + length (filter (\<lambda>ok. ok) (take primary_remote_count results))
            in Some (acknowledgements \<ge> required)))"

definition update_digest ::
    "env \<Rightarrow> server \<Rightarrow> bytes \<Rightarrow> node_id \<Rightarrow> bytes \<Rightarrow> bytes option \<Rightarrow> server \<times> bool" where
  "update_digest E sv key dkey record auth_signature =
     (case sv_protocol sv of
        None \<Rightarrow> (sv, False)
      | Some p \<Rightarrow>
          (let (p1, nearest) = proto_find_neighbors p (from_id dkey) None in
           if nearest = [] then (with_protocol sv p1, False)
           else
             (let (c, found) = node_find (kad_spider E call_find_value)
                    (crawl_new p1 (from_id dkey) nearest (sv_ksize sv) (sv_alpha sv));
                  (should_store_local, nodes) =
                    select_responsible_nodes (sv_node sv) (from_id dkey) found (sv_ksize sv);
                  sig = (case auth_signature of None \<Rightarrow> [] | Some s \<Rightarrow> s);
                  p2 = cr_protocol c;
                  (p3, results) =
                    join_all (en_done E p2) (update_replica E (key = STATUS_LIST_KEY) dkey record sig) p2 nodes
              in case update_quorum (sv_alpha sv) should_store_local results of
                   Some True \<Rightarrow>
                     if should_store_local then
                       (let (st, written) = st_set (pnow p3) (id_bytes dkey) record (pr_storage p3)
                        in (with_protocol sv (p3\<lparr>pr_storage := st\<rparr>), written \<noteq> CapacityExceeded))
                     else (with_protocol sv p3, True)
                 | _ \<Rightarrow> (with_protocol sv p3, False))))"

definition server_update ::
    "env \<Rightarrow> 'j deps \<Rightarrow> handler \<Rightarrow> server \<Rightarrow> bytes \<Rightarrow> bytes \<Rightarrow> bytes option \<Rightarrow> server \<times> bool option" where
  "server_update E D h sv key record auth_signature =
     (let dkey = digest D key in
      case server_get E D h sv key of
        (sv1, None) \<Rightarrow> (sv1, None)
      | (sv1, Some old_value) \<Rightarrow>
          (let is_status = (key = STATUS_LIST_KEY \<and> auth_signature = None);
               already_applied = (key \<noteq> STATUS_LIST_KEY \<and> old_value = record);
               (sv2, ok) =
                 (if already_applied then (sv1, True)
                  else (server_yield E sv1,
                        if is_status then verify_issuer_signed h record
                        else verify_rotation h dkey record old_value
                               (case auth_signature of None \<Rightarrow> [] | Some s \<Rightarrow> s)))
           in if \<not> ok then (sv2, None)
              else (let (sv3, r) = update_digest E sv2 key dkey record auth_signature in (sv3, Some r))))"

end
