(* ===== verification/Maintenance.thy ===== *)
theory Maintenance
  imports Network
begin

text \<open>
  The background work of a node (\<open>src/src/network/maintenance.rs\<close>): statistics and the saved
  state, and one turn of each of its loops, as it runs after the sleep that starts the turn.
\<close>

definition MAINTENANCE_TICK :: duration where
  "MAINTENANCE_TICK = secs 1"

definition REJOIN_BACKOFF_MAX :: duration where
  "REJOIN_BACKOFF_MAX = secs 60"

subsection \<open>Statistics and saved state\<close>

record server_stats =
  ss_node_id :: node_id
  ss_listening :: bool
  ss_routing_nodes :: nat
  ss_live_routing_nodes :: nat
  ss_storage_records :: nat
  ss_storage_bytes :: nat
  ss_max_storage_bytes :: nat
  ss_signature_cache_entries :: "nat option"

text \<open>\<open>entry_count\<close> is that of the cache library, an estimate.\<close>

definition stats :: "(signature_cache \<Rightarrow> nat) \<Rightarrow> server \<Rightarrow> server_stats" where
  "stats entry_count sv =
     (let (routing, live) =
            (case sv_protocol sv of
               Some p \<Rightarrow> (sum_list (map (\<lambda>b. length (bk_nodes b)) (rt_buckets (pr_router p))), live_contacts (pr_router p))
             | None \<Rightarrow> (0, 0));
          st = server_storage sv;
          cache = (case sv_protocol sv of Some p \<Rightarrow> pr_sig_cache p | None \<Rightarrow> sv_sig_cache sv)
      in \<lparr>ss_node_id = nid (sv_node sv), ss_listening = (sv_protocol sv \<noteq> None),
          ss_routing_nodes = routing, ss_live_routing_nodes = live,
          ss_storage_records = length (iter_all (server_now sv) st),
          ss_storage_bytes = st_current_storage_bytes st, ss_max_storage_bytes = st_max_storage_bytes st,
          ss_signature_cache_entries = map_option entry_count cache\<rparr>)"

record saved_state =
  sd_ksize :: nat
  sd_alpha :: nat
  sd_id :: node_id
  sd_neighbors :: "(bytes \<times> u16) list"

text \<open>What \<open>save_state\<close> writes to its file, if anything.\<close>

definition save_state :: "server \<Rightarrow> server \<times> saved_state option" where
  "save_state sv =
     (let (sv1, neighbors) = bootstrappable_neighbors sv
      in (sv1, if neighbors = [] then None
               else Some \<lparr>sd_ksize = sv_ksize sv, sd_alpha = sv_alpha sv, sd_id = nid (sv_node sv), sd_neighbors = neighbors\<rparr>))"

definition save_state_turn :: "nat \<Rightarrow> nat \<Rightarrow> node \<Rightarrow> proto \<Rightarrow> proto \<times> saved_state option" where
  "save_state_turn ksize alpha n p =
     (let (p1, ns) = proto_find_neighbors p n None;
          neighbors = List.map_filter address ns
      in (p1, if neighbors = [] then None
              else Some \<lparr>sd_ksize = ksize, sd_alpha = alpha, sd_id = nid n, sd_neighbors = neighbors\<rparr>))"

subsection \<open>The loops\<close>

text \<open>The loop of the stats log also reclaims what has expired.\<close>

definition stats_log_turn :: "proto \<Rightarrow> proto" where
  "stats_log_turn p = p\<lparr>pr_storage := fst (prune_expired (pnow p) (pr_storage p))\<rparr>"

record maintenance_state =
  mt_isolated :: bool
  mt_seed_delay :: duration
  mt_next_seed_attempt :: instant

definition maintenance_init :: "proto \<Rightarrow> maintenance_state" where
  "maintenance_init p =
     \<lparr>mt_isolated = False, mt_seed_delay = MAINTENANCE_TICK, mt_next_seed_attempt = pnow p\<rparr>"

definition maintenance_turn ::
    "env \<Rightarrow> nat \<Rightarrow> nat \<Rightarrow> node \<Rightarrow> proto \<times> maintenance_state \<Rightarrow> proto \<times> maintenance_state" where
  "maintenance_turn E ksize alpha n = (\<lambda>(p, mt).
     let p1 = probe_failing_contacts E p alpha in
     if live_contacts (pr_router p1) > 0 then
       (let mt1 = mt\<lparr>mt_seed_delay := MAINTENANCE_TICK\<rparr> in
        if mt_isolated mt then
          (let (p2, neighbors) = proto_find_neighbors p1 n None;
               (c, _) = node_find (kad_spider E call_find_value) (crawl_new p2 n neighbors ksize alpha)
           in (cr_protocol c, mt1\<lparr>mt_isolated := False\<rparr>))
        else (p1, mt1))
     else
       (let mt1 = mt\<lparr>mt_isolated := True\<rparr>;
            sds = seeds p1
        in if sds \<noteq> [] \<and> pnow p1 \<ge> mt_next_seed_attempt mt1 then
             (let p2 = fst (join_all (en_done E p1) (call_ping_addr E) p1 sds);
                  delay = min (mt_seed_delay mt1 * 2) REJOIN_BACKOFF_MAX
              in (p2, mt1\<lparr>mt_seed_delay := delay,
                          mt_next_seed_attempt := pnow p2 + with_jitter (ck_jit (pr_clock p2)) delay\<rparr>))
           else (p1, mt1)))"

text \<open>
  The hourly refresh: a lookup of a random identifier in each lonely bucket, then the republication
  of every record at least an hour old. \<open>rnd i\<close> are the random bytes of the \<open>i\<close>-th bucket.
\<close>

fun refresh_targets :: "proto \<Rightarrow> node_id list \<Rightarrow> proto \<times> (node \<times> node list) list" where
  "refresh_targets p [] = (p, [])"
| "refresh_targets p (rid # rids) =
     (let (p1, neighbors) = proto_find_neighbors p (from_id rid) None;
          (p2, rest) = refresh_targets p1 rids
      in (p2, (from_id rid, neighbors) # rest))"

definition lookup_from :: "env \<Rightarrow> nat \<Rightarrow> nat \<Rightarrow> proto \<Rightarrow> node \<times> node list \<Rightarrow> proto \<times> node list" where
  "lookup_from E ksize alpha p = (\<lambda>(target, neighbors).
     let (c, ns) = node_find (kad_spider E call_find_value) (crawl_new p target neighbors ksize alpha)
     in (cr_protocol c, ns))"

definition republish_entry :: "env \<Rightarrow> nat \<Rightarrow> nat \<Rightarrow> proto \<Rightarrow> bytes \<times> bytes \<Rightarrow> proto" where
  "republish_entry E ksize alpha p = (\<lambda>(key_vec, record).
     if length key_vec \<noteq> ID_LEN then p
     else
       (let dkey = id_of_bytes key_vec; target = from_id dkey;
            (p1, neighbors) = proto_find_neighbors p target None
        in if neighbors = [] then p1
           else
             (let (p2, nodes) = lookup_from E ksize alpha p1 (target, neighbors)
              in fst (join_all (en_done E p2) (\<lambda>p n. call_store_rpc E p n dkey record) p2 nodes))))"

definition refresh_turn :: "env \<Rightarrow> (nat \<Rightarrow> bytes) \<Rightarrow> nat \<Rightarrow> nat \<Rightarrow> proto \<Rightarrow> proto" where
  "refresh_turn E rnd ksize alpha p =
     (let (p1, targets) = refresh_targets p (get_refresh_ids rnd p);
          p2 = fst (join_all (en_done E p1) (lookup_from E ksize alpha) p1 targets)
      in foldl (republish_entry E ksize alpha) p2 (iter_older_than (pnow p2) 3600 (pr_storage p2)))"

end
