(* ===== verification/ServerSteps.thy ===== *)
theory ServerSteps
  imports NodeSteps Maintenance
begin

text \<open>
  The operations of a listening server and the turns of its background loops keep the invariant of
  the node, in any environment that does, and GET returns only records that are valid for their key.
\<close>

definition server_evolves :: "'j deps \<Rightarrow> handler \<Rightarrow> seen \<Rightarrow> bytes set \<Rightarrow> server \<Rightarrow> server \<Rightarrow> bool" where
  "server_evolves D h U S sv sv' \<longleftrightarrow>
     (\<exists>p p'. sv_protocol sv = Some p \<and> sv' = with_protocol sv p' \<and> evolves D h U S p p')"

lemma with_protocol_simps [simp]:
  "sv_protocol (with_protocol sv p) = Some p" "sv_ksize (with_protocol sv p) = sv_ksize sv"
  "sv_alpha (with_protocol sv p) = sv_alpha sv" "sv_node (with_protocol sv p) = sv_node sv"
  "with_protocol (with_protocol sv p) p' = with_protocol sv p'"
  "server_storage (with_protocol sv p) = pr_storage p" "server_now (with_protocol sv p) = pnow p"
  by (simp_all add: with_protocol_def server_storage_def server_now_def)

lemma with_protocol_id: "sv_protocol sv = Some p \<Longrightarrow> with_protocol sv p = sv"
  by (cases sv) (simp add: with_protocol_def)

lemma server_evolvesI: "evolves D h U S p p' \<Longrightarrow> server_evolves D h U S (with_protocol sv p) (with_protocol sv p')"
  by (auto simp: server_evolves_def)

lemma server_evolves_trans:
  "server_evolves D h U S s t \<Longrightarrow> server_evolves D h U S t u \<Longrightarrow> server_evolves D h U S s u"
  by (force simp: server_evolves_def intro: evolves_trans)

lemma server_evolvesE:
  assumes "server_evolves D h U S (with_protocol sv p) sv'"
  obtains p' where "sv' = with_protocol sv p'" "evolves D h U S p p'"
  using assms by (auto simp: server_evolves_def)

lemma crawl_new_simps [simp]:
  "cr_protocol (crawl_new p n ns k a) = p" "cr_node (crawl_new p n ns k a) = n"
  "vc_base (value_crawl_new p n ns k a) = crawl_new p n ns k a"
  by (simp_all add: crawl_new_def value_crawl_new_def)

lemma nid_from_id [simp]: "nid (from_id i) = i"
  by (simp add: from_id_def)

text \<open>The input of SHA-256 for the record a register holds.\<close>

lemma register_S:
  assumes "node_inv D h S H K s p" "registers p key = Some v"
  shows "record_ok D h key v \<and> hash_input D key v \<in> S"
proof -
  obtain i where "(id_bytes key, v, i) \<in> set (st_data (pr_storage p))"
    using assms(2) by (auto simp: registers_def get_default_None dest!: map_of_SomeD split: option.splits if_splits)
  then show ?thesis using assms(1) by (fastforce simp: node_inv_def records_ok_def)
qed

definition keeps_node ::
    "'j deps \<Rightarrow> handler \<Rightarrow> seen \<Rightarrow> bytes set \<Rightarrow> task list \<Rightarrow> request_key list \<Rightarrow> nat \<Rightarrow> proto \<Rightarrow> proto \<Rightarrow> bool" where
  "keeps_node D h U S H K s p p' \<longleftrightarrow> node_inv D h S H K s p' \<and> guarantee D h U p p'"

lemma keeps_node_refl: "node_inv D h S H K s p \<Longrightarrow> keeps_node D h U S H K s p p"
  by (simp add: keeps_node_def guarantee_same)

lemma keeps_node_trans: "keeps_node D h U S H K s p q \<Longrightarrow> evolves D h U S q r \<Longrightarrow> keeps_node D h U S H K s p r"
  unfolding keeps_node_def evolves_def using guarantee_trans by blast

text \<open>
  UPDATE. SHA-1 is taken to keep the key of the Status List apart from the key at hand, and from
  every DID.
\<close>

definition status_key_apart :: "'j deps \<Rightarrow> handler \<Rightarrow> bytes \<Rightarrow> bool" where
  "status_key_apart D h key \<longleftrightarrow>
     (digest D key = digest D STATUS_LIST_KEY \<longrightarrow> key = STATUS_LIST_KEY) \<and>
     (\<forall>v. handle_key_binding_verification h (digest D STATUS_LIST_KEY) v \<noteq> Inr True)"

context rpc_env
begin

lemma lookup_nodes_evolves:
  "evolves D h U S p (cr_protocol (fst (find_lookup_nodes (kad_spider E call_find_value) (crawl_new p n ns k a))))"
  using by_value.find_lookup_nodes_R [of "crawl_new p n ns k a"] by simp

lemma node_find_evolves:
  "evolves D h U S p (cr_protocol (fst (node_find (kad_spider E call_find_value) (crawl_new p n ns k a))))"
  using by_value.node_find_R [of "crawl_new p n ns k a"] by simp

lemma verify_value_evolves:
  assumes "hash_input D (digest D key) v \<in> S"
  shows "server_evolves D h U S (with_protocol sv p) (fst (verify_value E D h (with_protocol sv p) key v))"
    and "node_inv D h S H K s p \<Longrightarrow>
      snd (verify_value E D h (with_protocol sv p) key v) = record_ok D h (digest D key) v"
  using verify_for_key_evolves(1) [OF assms, of p] verify_for_key_evolves(2) [OF assms, of H K s p]
  by (simp_all add: verify_value_def case_prod_beta Let_def server_evolvesI)

lemma accept_valid_keeps: "keeps (evolves D h U S) (\<lambda>v. hash_input D dkey v \<in> S) (accept_valid E D h dkey)"
  using verify_for_key_evolves(1) by (simp add: keeps_def accept_valid_def Let_def case_prod_beta)

text \<open>The two lookups of GET.\<close>

lemma find_first_valid_step:
  fixes p n ns k a
  defines "r \<equiv> find_first_valid (kad_spider E call_find_value) (accept_valid E D h (nid n)) (crawl_new p n ns k a)"
  shows "evolves D h U S p (cr_protocol (fst r))"
    and "node_inv D h S H K s p \<Longrightarrow> snd r = Some v \<Longrightarrow> record_ok D h (nid n) v \<and> hash_input D (nid n) v \<in> S"
proof -
  have acc: "keeps (evolves D h U S) (\<lambda>v. hash_input D (nid (cr_node (crawl_new p n ns k a))) v \<in> S) (accept_valid E D h (nid n))"
    using accept_valid_keeps [of "nid n"] by simp
  show "evolves D h U S p (cr_protocol (fst r))"
    unfolding r_def using by_value.find_first_valid_R [OF acc] by simp
  assume inv: "node_inv D h S H K s p" and "snd r = Some v"
  then obtain q w where q: "evolves D h U S p q" "hash_input D (nid n) w \<in> S" "snd (accept_valid E D h (nid n) q w) = Some v"
    using by_value.find_first_valid_found [OF acc, of v] unfolding r_def by auto
  then have "node_inv D h S H K s q" using inv by (simp add: evolves_def)
  from verify_for_key_evolves(2) [OF q(2) this] q(2,3) show "record_ok D h (nid n) v \<and> hash_input D (nid n) v \<in> S"
    by (auto simp: accept_valid_def Let_def case_prod_beta split: if_splits)
qed

lemma find_quorum_step:
  assumes "\<forall>v \<in> set vs. hash_input D (nid n) v \<in> S"
  shows "evolves D h U S p (cr_protocol (fst (find_quorum (kad_spider E call_find_value) (crawl_new p n ns k a) vs mi ma)))"
    and "snd (find_quorum (kad_spider E call_find_value) (crawl_new p n ns k a) vs mi ma) = Some v \<Longrightarrow> hash_input D (nid n) v \<in> S"
proof -
  show "evolves D h U S p (cr_protocol (fst (find_quorum (kad_spider E call_find_value) (crawl_new p n ns k a) vs mi ma)))"
    using by_value.find_quorum_R [of "crawl_new p n ns k a"] by simp
  assume r: "snd (find_quorum (kad_spider E call_find_value) (crawl_new p n ns k a) vs mi ma) = Some v"
  have "list_all (\<lambda>v. hash_input D (nid (cr_node (crawl_new p n ns k a))) v \<in> S) vs"
    using assms by (simp add: list_all_iff)
  from by_value.find_quorum_values [OF this r] show "hash_input D (nid n) v \<in> S" by simp
qed

lemma server_get_ok:
  assumes inv: "node_inv D h S H K s p"
  shows "\<exists>p'. fst (server_get E D h (with_protocol sv p) key) = with_protocol sv p' \<and> keeps_node D h U S H K s p p' \<and>
      (\<forall>v. snd (server_get E D h (with_protocol sv p) key) = Some v \<longrightarrow>
         record_ok D h (digest D key) v \<and> hash_input D (digest D key) v \<in> S)"
proof -
  let ?sv = "with_protocol sv p" and ?k = "digest D key"
  define get where "get = server_get E D h ?sv key"
  have verified: "\<exists>p'. fst r = with_protocol sv p' \<and> keeps_node D h U S H K s p p' \<and>
      (\<forall>v. snd r = Some v \<longrightarrow> record_ok D h ?k v \<and> hash_input D ?k v \<in> S)"
    if q: "keeps_node D h U S H K s p q" and w: "hash_input D ?k w \<in> S"
      and r: "r = (let (sv1, ok) = verify_value E D h (with_protocol sv q) key w in (sv1, if ok then Some w else None))"
    for q w r
  proof -
    obtain p' where p': "fst (verify_value E D h (with_protocol sv q) key w) = with_protocol sv p'" "evolves D h U S q p'"
      using verify_value_evolves(1) [OF w, of sv q] by (auto elim: server_evolvesE)
    have "snd (verify_value E D h (with_protocol sv q) key w) = record_ok D h ?k w"
      using verify_value_evolves(2) [OF w, of H K s q sv] q by (simp add: keeps_node_def)
    then show ?thesis using p' w keeps_node_trans [OF q p'(2)] by (auto simp: r case_prod_beta split: if_splits)
  qed
  have here: "keeps_node D h U S H K s p p" using inv by (rule keeps_node_refl)
  let ?q = "fst (proto_find_neighbors p (from_id ?k) None)" and ?ns = "snd (proto_find_neighbors p (from_id ?k) None)"
  let ?c = "crawl_new ?q (from_id ?k) ?ns (sv_ksize sv) (sv_alpha sv)"
  have q: "keeps_node D h U S H K s p ?q" by (rule keeps_node_trans [OF here find_neighbors_evolves])
  consider (local) w where "key \<noteq> STATUS_LIST_KEY" "registers p ?k = Some w"
    | (nobody) "key = STATUS_LIST_KEY \<or> registers p ?k = None" "?ns = []"
    | (first) "key \<noteq> STATUS_LIST_KEY" "registers p ?k = None" "?ns \<noteq> []"
    | (quorum) "key = STATUS_LIST_KEY" "?ns \<noteq> []"
    by blast
  then have "\<exists>p'. fst get = with_protocol sv p' \<and> keeps_node D h U S H K s p p' \<and>
      (\<forall>v. snd get = Some v \<longrightarrow> record_ok D h ?k v \<and> hash_input D ?k v \<in> S)"
  proof cases
    case local
    have "hash_input D ?k w \<in> S" using register_S [OF inv local(2)] ..
    from verified [OF here this refl] show ?thesis
      using local by (simp add: get_def server_get_def registers_def)
  next
    case nobody
    then have "get = (with_protocol sv ?q, None)"
      by (auto simp: get_def server_get_def registers_def case_prod_beta Let_def split: option.split)
    then show ?thesis using q by auto
  next
    case first
    let ?r = "find_first_valid (kad_spider E call_find_value) (accept_valid E D h ?k) ?c"
    have g: "get = (with_protocol sv (cr_protocol (fst ?r)), snd ?r)"
      using first by (simp add: get_def server_get_def registers_def case_prod_beta Let_def)
    note f = find_first_valid_step [where n = "from_id ?k" and p = ?q and ns = ?ns and k = "sv_ksize sv" and a = "sv_alpha sv",
        unfolded nid_from_id]
    have "node_inv D h S H K s ?q" using q by (simp add: keeps_node_def)
    note f2 = f(2) [OF this]
    show ?thesis unfolding g using keeps_node_trans [OF q f(1)] f2 by auto
  next
    case quorum
    let ?vs = "case registers p ?k of None \<Rightarrow> [] | Some v \<Rightarrow> [v]"
    let ?r = "find_quorum (kad_spider E call_find_value) ?c ?vs (read_quorum (sv_alpha sv)) (max (sv_alpha sv) 1)"
    have "\<forall>v \<in> set ?vs. hash_input D (nid (from_id ?k)) v \<in> S"
      using register_S [OF inv] by (auto split: option.split)
    note f = find_quorum_step [OF this, of ?q ?ns "sv_ksize sv" "sv_alpha sv" "read_quorum (sv_alpha sv)" "max (sv_alpha sv) 1"]
    have q2: "keeps_node D h U S H K s p (cr_protocol (fst ?r))" by (rule keeps_node_trans [OF q f(1)])
    have g: "get = (case snd ?r of None \<Rightarrow> (with_protocol sv (cr_protocol (fst ?r)), None)
        | Some v \<Rightarrow> (let (sv1, ok) = verify_value E D h (with_protocol sv (cr_protocol (fst ?r))) key v
            in (sv1, if ok then Some v else None)))"
      using quorum by (simp add: get_def server_get_def registers_def case_prod_beta Let_def split: option.split)
    show ?thesis
    proof (cases "snd ?r")
      case None
      then show ?thesis using g q2 by auto
    next
      case (Some v)
      then have "hash_input D ?k v \<in> S" using f(2) by simp
      from verified [OF q2 this refl] show ?thesis using g Some by simp
    qed
  qed
  then show ?thesis by (simp add: get_def)
qed

lemma discover_evolves: "server_evolves D h U S (with_protocol sv p) (fst (discover_publish_nodes E (with_protocol sv p) dkey))"
  by (auto simp: discover_publish_nodes_def case_prod_beta Let_def
      intro!: server_evolvesI find_neighbors_evolves evolves_trans [OF find_neighbors_evolves lookup_nodes_evolves])

lemma check_publish_evolves:
  "server_evolves D h U S (with_protocol sv p) (fst (check_publish_state E D h (with_protocol sv p) key v))"
proof -
  let ?k = "digest D key"
  let ?q = "fst (proto_find_neighbors p (from_id ?k) None)" and ?ns = "snd (proto_find_neighbors p (from_id ?k) None)"
  let ?r = "value_find (kad_spider E call_find_value) (value_crawl_new ?q (from_id ?k) ?ns (sv_ksize sv) (sv_alpha sv))"
  let ?sv1 = "with_protocol sv (cr_protocol (vc_base (fst ?r)))"
  have q: "evolves D h U S p ?q" by (rule find_neighbors_evolves)
  have "evolves D h U S ?q (cr_protocol (vc_base (fst ?r)))"
    using by_value.value_find_R [of "value_crawl_new ?q (from_id ?k) ?ns (sv_ksize sv) (sv_alpha sv)"] by simp
  then have 1: "server_evolves D h U S (with_protocol sv p) ?sv1" by (intro server_evolvesI evolves_trans [OF q])
  have 2: "server_evolves D h U S (with_protocol sv p) (fst (verify_value E D h ?sv1 key w))"
    "server_evolves D h U S (with_protocol sv p) (fst (discover_publish_nodes E (fst (verify_value E D h ?sv1 key w)) ?k))"
    if "fst (snd ?r) = Some w" for w
  proof -
    have "hash_input D ?k w \<in> S" using by_value.value_find_values [OF that] by simp
    from server_evolves_trans [OF 1 verify_value_evolves(1) [OF this]]
    show v: "server_evolves D h U S (with_protocol sv p) (fst (verify_value E D h ?sv1 key w))" .
    then obtain p' where p': "fst (verify_value E D h ?sv1 key w) = with_protocol sv p'" by (auto elim: server_evolvesE)
    show "server_evolves D h U S (with_protocol sv p) (fst (discover_publish_nodes E (fst (verify_value E D h ?sv1 key w)) ?k))"
      using server_evolves_trans [OF v] discover_evolves unfolding p' by blast
  qed
  show ?thesis using server_evolvesI [OF q] 1 2 server_evolvesI [OF evolves_refl]
    by (auto simp: check_publish_state_def Let_def case_prod_beta split: option.split)
qed

lemma set_digest_evolves:
  assumes "record_ok D h dkey v" "hash_input D dkey v \<in> S"
  shows "server_evolves D h U S (with_protocol sv p) (fst (set_digest_detailed E (with_protocol sv p) dkey v lookup))"
proof -
  have "evolves D h U S q (fst (join_all r (\<lambda>p n. call_store_rpc E p n dkey v) q ns))" for q r ns
    by (rule join_all_evolves) (rule call_store_rpc_evolves)
  from this evolves_trans [OF insert_evolves [OF assms] this] show ?thesis
    by (auto simp: set_digest_detailed_def Let_def case_prod_beta intro!: server_evolvesI)
qed

lemma set_detailed_ok:
  assumes inv: "node_inv D h S H K s p" and v: "hash_input D (digest D key) v \<in> S"
  shows "\<exists>p'. fst (set_detailed E D h (with_protocol sv p) key v) = with_protocol sv p' \<and> keeps_node D h U S H K s p p'"
proof -
  let ?k = "digest D key" and ?vv = "verify_value E D h (with_protocol sv p) key v"
  obtain p1 where p1: "fst ?vv = with_protocol sv p1" "evolves D h U S p p1"
    using verify_value_evolves(1) [OF v, of sv p] by (auto elim: server_evolvesE)
  have ok: "snd ?vv = record_ok D h ?k v" by (rule verify_value_evolves(2) [OF v inv])
  let ?c = "check_publish_state E D h (with_protocol sv p1) key v"
  obtain p2 where p2: "fst ?c = with_protocol sv p2" "evolves D h U S p1 p2"
    by (rule server_evolvesE [OF check_publish_evolves])
  obtain p3 where p3: "fst (discover_publish_nodes E (with_protocol sv p2) ?k) = with_protocol sv p3" "evolves D h U S p2 p3"
    by (rule server_evolvesE [OF discover_evolves])
  have 2: "evolves D h U S p p2" by (rule evolves_trans [OF p1(2) p2(2)])
  have final: "server_evolves D h U S (with_protocol sv p) (fst (set_detailed E D h (with_protocol sv p) key v))"
  proof (cases "record_ok D h ?k v")
    case False
    then show ?thesis using ok p1 by (simp add: set_detailed_def case_prod_beta server_evolvesI)
  next
    case True
    note d = set_digest_evolves [OF True v]
    show ?thesis
    proof (cases "snd ?c")
      case (Missing l)
      have e: "?c = (with_protocol sv p2, Missing l)" using p2(1) Missing by (metis prod.collapse)
      show ?thesis using server_evolves_trans [OF server_evolvesI [OF 2] d] ok True p1 e
        by (simp add: set_detailed_def case_prod_beta Let_def)
    next
      case Identical
      have e: "?c = (with_protocol sv p2, Identical)" using p2(1) Identical by (metis prod.collapse)
      show ?thesis using server_evolves_trans [OF server_evolvesI [OF evolves_trans [OF 2 p3(2)]] d] ok True p1 e p3(1)
        by (simp add: set_detailed_def case_prod_beta Let_def)
    next
      case ConflictFound
      have e: "?c = (with_protocol sv p2, ConflictFound)" using p2(1) ConflictFound by (metis prod.collapse)
      show ?thesis using server_evolvesI [OF 2] ok True p1 e by (simp add: set_detailed_def case_prod_beta Let_def)
    qed
  qed
  then show ?thesis using keeps_node_trans [OF keeps_node_refl [OF inv]] by (auto elim!: server_evolvesE)
qed

lemma update_replica_evolves: "evolves D h U S p (fst (update_replica E st dkey v sig p n))"
proof -
  obtain p1 r where c: "call_update_rpc_answer E p n dkey v sig = (p1, r)" by fastforce
  then have 1: "evolves D h U S p p1" using call_update_rpc_answer_evolves [of p n dkey v sig] by simp
  show ?thesis
    using 1 evolves_trans [OF 1 call_store_rpc_evolves] call_status_list_update_rpc_evolves
    by (simp add: update_replica_def c Let_def case_prod_beta split: option.split bool.split)
qed

lemma own_write_evolves:
  assumes "(key, v) \<in> U" "record_ok D h key old" "authorised D h key old v" "record_ok D h key v" "hash_input D key v \<in> S"
  shows "evolves D h U S p (p\<lparr>pr_storage := fst (st_set (pnow p) (id_bytes key) v (pr_storage p))\<rparr>)"
proof -
  have "guarantee D h U p (p\<lparr>pr_storage := fst (st_set (pnow p) (id_bytes key) v (pr_storage p))\<rparr>)"
    using assms(1-3) by (intro overwrite_guarantee reg_step.own guarantee_same) simp_all
  then show ?thesis using set_inv [OF _ assms(4,5)] by (simp add: evolves_def)
qed

lemma update_digest_evolves:
  assumes "(dkey, v) \<in> U" "record_ok D h dkey old" "authorised D h dkey old v" "record_ok D h dkey v" "hash_input D dkey v \<in> S"
  shows "server_evolves D h U S (with_protocol sv p) (fst (update_digest E (with_protocol sv p) key dkey v auth))"
proof -
  have "evolves D h U S q (fst (join_all r (update_replica E st dkey v sig) q ns))" for q r st sig ns
    by (rule join_all_evolves) (rule update_replica_evolves)
  note 1 = evolves_trans [OF evolves_trans [OF find_neighbors_evolves node_find_evolves] this]
  from 1 evolves_trans [OF 1 own_write_evolves [OF assms]] show ?thesis
    by (auto simp: update_digest_def Let_def case_prod_beta find_neighbors_evolves intro!: server_evolvesI
        split: option.split bool.split)
qed

lemma update_authorises:
  assumes "status_key_apart D h key" "record_ok D h (digest D key) old"
    and "key \<noteq> STATUS_LIST_KEY \<and> old = v \<or> key = STATUS_LIST_KEY \<and> verify_issuer_signed h v \<or>
      verify_rotation h (digest D key) v old auth"
  shows "authorised D h (digest D key) old v \<and> record_ok D h (digest D key) v"
proof (cases "key = STATUS_LIST_KEY")
  case True
  then have "verify_issuer_signed h v" using assms(1,3) by (auto simp: verify_rotation_def status_key_apart_def)
  then show ?thesis using True
    by (auto simp: authorised_def record_ok_def verify_record_def check_signature_def is_bound_to_key_def
        verify_issuer_signed_def Let_def)
next
  case False
  then have "digest D key \<noteq> digest D STATUS_LIST_KEY" using assms(1) by (auto simp: status_key_apart_def)
  then show ?thesis using assms(2,3) False rotation_result_valid by (auto simp: authorised_def record_ok_def)
qed

lemma server_update_ok:
  assumes inv: "node_inv D h S H K s p" and "hash_input D (digest D key) v \<in> S" "(digest D key, v) \<in> U" "status_key_apart D h key"
  shows "\<exists>p'. fst (server_update E D h (with_protocol sv p) key v auth) = with_protocol sv p' \<and> keeps_node D h U S H K s p p'"
proof -
  let ?up = "server_update E D h (with_protocol sv p) key v auth" and ?k = "digest D key"
  obtain p1 r where get: "server_get E D h (with_protocol sv p) key = (with_protocol sv p1, r)" "keeps_node D h U S H K s p p1"
    "\<And>old. r = Some old \<Longrightarrow> record_ok D h ?k old"
    using server_get_ok [OF inv, of sv key] by (metis prod.collapse)
  have "server_evolves D h U S (with_protocol sv p1) (fst ?up)"
  proof (cases r)
    case None
    then show ?thesis using get(1) by (simp add: server_update_def server_evolvesI)
  next
    case (Some old)
    let ?applied = "key \<noteq> STATUS_LIST_KEY \<and> old = v"
    let ?q = "if ?applied then p1 else en_yield E p1"
    let ?ok = "?applied \<or> (if key = STATUS_LIST_KEY \<and> auth = None then verify_issuer_signed h v
        else verify_rotation h ?k v old (case auth of None \<Rightarrow> [] | Some s \<Rightarrow> s))"
    have q: "evolves D h U S p1 ?q" using yield_evolves by simp
    have up: "fst ?up = (if ?ok then fst (update_digest E (with_protocol sv ?q) key ?k v auth) else with_protocol sv ?q)"
      using Some get(1) by (simp add: server_update_def server_yield_def Let_def case_prod_beta)
    have "server_evolves D h U S (with_protocol sv ?q) (fst (update_digest E (with_protocol sv ?q) key ?k v auth))" if ?ok
      using that get(3) [OF Some] update_authorises [OF assms(4), of old v]
      by (intro update_digest_evolves [OF assms(3) _ _ _ assms(2)]) (auto split: if_splits)
    then show ?thesis unfolding up using server_evolvesI [OF q] server_evolves_trans [OF server_evolvesI [OF q]] by simp
  qed
  then show ?thesis using keeps_node_trans [OF get(2)] by (auto elim!: server_evolvesE)
qed

lemma bootstrap_evolves: "server_evolves D h U S (with_protocol sv p) (fst (bootstrap E (with_protocol sv p) addrs))"
proof -
  have seeds: "evolves D h U S q (remember_seeds q addrs)" for q
    unfolding remember_seeds_def by (rule evolves_foldl) (auto intro: evolves_core simp: core_def table_ok_def)
  have "evolves D h U S q (fst (join_all r (bootstrap_node E) q addrs))" for q r
    by (rule join_all_evolves) (simp add: bootstrap_node_def Let_def case_prod_beta call_ping_addr_evolves)
  from evolves_trans [OF evolves_trans [OF seeds this] node_find_evolves] show ?thesis
    by (auto simp: bootstrap_def Let_def case_prod_beta intro!: server_evolvesI)
qed

subsection \<open>Background work\<close>

lemma lookup_from_evolves: "evolves D h U S p (fst (lookup_from E k a p t))"
  using node_find_evolves by (simp add: lookup_from_def Let_def case_prod_beta)

lemma maintenance_turn_evolves: "evolves D h U S p (fst (maintenance_turn E k a n (p, mt)))"
proof -
  have 1: "evolves D h U S p (probe_failing_contacts E p a)" by (rule probe_evolves)
  have "evolves D h U S q (fst (join_all r (call_ping_addr E) q sds))" for q r sds
    by (rule join_all_evolves) (rule call_ping_addr_evolves)
  from evolves_trans [OF 1 this] evolves_trans [OF 1 evolves_trans [OF find_neighbors_evolves node_find_evolves]] 1
  show ?thesis by (simp add: maintenance_turn_def Let_def case_prod_beta)
qed

lemma refresh_targets_evolves: "evolves D h U S p (fst (refresh_targets p rids))"
proof (induction rids arbitrary: p)
  case (Cons r rids)
  from evolves_trans [OF find_neighbors_evolves Cons.IH] show ?case by (simp add: Let_def case_prod_beta)
qed simp

lemma republish_evolves: "evolves D h U S p (republish_entry E k a p e)"
proof -
  have "evolves D h U S q (fst (join_all r (\<lambda>p n. call_store_rpc E p n dkey v) q ns))" for q r ns dkey v
    by (rule join_all_evolves) (rule call_store_rpc_evolves)
  from evolves_trans [OF find_neighbors_evolves evolves_trans [OF lookup_from_evolves this]] find_neighbors_evolves
  show ?thesis by (auto simp: republish_entry_def Let_def case_prod_beta)
qed

lemma refresh_turn_evolves: "evolves D h U S p (refresh_turn E rnd k a p)"
proof -
  have "evolves D h U S q (fst (join_all r (lookup_from E k a) q ts))" for q r ts
    by (rule join_all_evolves) (rule lookup_from_evolves)
  note 1 = evolves_trans [OF refresh_targets_evolves this]
  have "evolves D h U S q (foldl (republish_entry E k a) q es)" for q es
    by (rule evolves_foldl) (rule republish_evolves)
  from evolves_trans [OF 1 this] show ?thesis by (simp add: refresh_turn_def Let_def case_prod_beta)
qed

end

end
