(* ===== verification/NodeRuns.thy ===== *)
theory NodeRuns
  imports ServerSteps
begin

text \<open>
  The runs of a node. A run is made of what the node does: it receives a datagram, runs one of its
  tasks, a turn of one of its loops or an operation of its user, and time passes. Whatever a step
  awaits, the other tasks run meanwhile: the environment of a step is itself made of runs, and a
  call takes turns with them (\<open>call_runs\<close>). All runs keep the invariant of the node, and its
  storage implements the authenticated registers of \<open>NodeInv\<close>.
\<close>

inductive node_runs :: "world \<Rightarrow> 'j deps \<Rightarrow> handler \<Rightarrow> seen \<Rightarrow> bytes set \<Rightarrow> proto \<Rightarrow> proto \<Rightarrow> bool" for W D h U S where
  stay: "node_runs W D h U S p p"
| seq: "node_runs W D h U S p q \<Longrightarrow> node_runs W D h U S q r \<Longrightarrow> node_runs W D h U S p r"
| tick: "pnow p \<le> ck_now ck \<Longrightarrow> node_runs W D h U S p (advance ck p)"
| datagram: "env_ok W (node_runs W D h U S) E \<Longrightarrow> answers_ok D S E \<Longrightarrow> datagram_ok W D S p data peer \<Longrightarrow>
    node_runs W D h U S p (handle_datagram W E D h p data peer)"
| task: "env_ok W (node_runs W D h U S) E \<Longrightarrow> answers_ok D S E \<Longrightarrow> node_runs W D h U S p (run_next W E D h p i)"
| call: "call_runs W (node_runs W D h U S) (call_start W p a m) (p', r) \<Longrightarrow> node_runs W D h U S p p'"
| stats_log: "node_runs W D h U S p (stats_log_turn p)"
| maintenance: "env_ok W (node_runs W D h U S) E \<Longrightarrow> answers_ok D S E \<Longrightarrow>
    node_runs W D h U S p (fst (maintenance_turn E k al n (p, mt)))"
| refresh: "env_ok W (node_runs W D h U S) E \<Longrightarrow> answers_ok D S E \<Longrightarrow>
    node_runs W D h U S p (refresh_turn E rnd k al p)"
| bootstrapping: "env_ok W (node_runs W D h U S) E \<Longrightarrow> answers_ok D S E \<Longrightarrow>
    fst (bootstrap E (with_protocol sv p) addrs) = with_protocol sv p' \<Longrightarrow> node_runs W D h U S p p'"
| getting: "env_ok W (node_runs W D h U S) E \<Longrightarrow> answers_ok D S E \<Longrightarrow>
    fst (server_get E D h (with_protocol sv p) key) = with_protocol sv p' \<Longrightarrow> node_runs W D h U S p p'"
| setting: "env_ok W (node_runs W D h U S) E \<Longrightarrow> answers_ok D S E \<Longrightarrow> hash_input D (digest D key) v \<in> S \<Longrightarrow>
    fst (set_detailed E D h (with_protocol sv p) key v) = with_protocol sv p' \<Longrightarrow> node_runs W D h U S p p'"
| updating: "env_ok W (node_runs W D h U S) E \<Longrightarrow> answers_ok D S E \<Longrightarrow> hash_input D (digest D key) v \<in> S \<Longrightarrow>
    (digest D key, v) \<in> U \<Longrightarrow> status_key_apart D h key \<Longrightarrow>
    fst (server_update E D h (with_protocol sv p) key v auth) = with_protocol sv p' \<Longrightarrow> node_runs W D h U S p p'"
| leaving: "node_runs W D h U S p (call_leave_rpc W v6 p n)"
| stopping: "node_runs W D h U S p (shutdown_tasks p)"
  monos env_ok_mono call_runs_mono

lemma with_protocol_inj: "with_protocol sv p = with_protocol sv q \<longleftrightarrow> p = q"
  by (metis option.inject with_protocol_simps(1))

lemma call_runs_evolves:
  assumes "call_runs W (evolves D h U S) (call_start W p a m) (p', r)"
  shows "evolves D h U S p p'"
  unfolding evolves_def
proof (intro allI impI)
  fix H K s assume "node_inv D h S H K s p"
  note 1 = call_start_ok [OF this, of W a m]
  from call_runs_ok [OF assms conjunct1 [OF 1]] 1 guarantee_trans
  show "node_inv D h S H K s p' \<and> guarantee D h U p p'" by (metis fst_conv)
qed

text \<open>Every run evolves.\<close>

lemma node_runs_evolves:
  assumes rule: "record_rule h" and inj: "inj_on (sha256 D) S"
  shows "node_runs W D h U S p p' \<Longrightarrow> evolves D h U S p p'"
proof (induction rule: node_runs.induct)
  have env: "rpc_env D h E S U"
    if "env_ok W (\<lambda>p q. node_runs W D h U S p q \<and> evolves D h U S p q) E" "answers_ok D S E" for E
    using env_ok_mono [of "\<lambda>p q. node_runs W D h U S p q \<and> evolves D h U S p q" "evolves D h U S" W E] that
    by (intro rpc_envI [OF rule inj, of E W]) auto
  {
    case (seq p q r)
    then show ?case by (blast intro: evolves_trans)
  next
    case (datagram E p data peer)
    then show ?case by (intro rpc_env.handle_datagram_evolves [OF env])
  next
    case (task E p i)
    then show ?case by (intro rpc_env.run_next_evolves [OF env])
  next
    case (call p a m p' r)
    have "call_runs W (evolves D h U S) (call_start W p a m) (p', r)"
      by (rule call_runs_mono [THEN mp, OF _ call]) auto
    then show ?case by (rule call_runs_evolves)
  next
    case (maintenance E p k al n mt)
    then show ?case by (intro rpc_env.maintenance_turn_evolves [OF env])
  next
    case (refresh E p rnd k al)
    then show ?case by (intro rpc_env.refresh_turn_evolves [OF env])
  next
    case (bootstrapping E sv p addrs p')
    from rpc_env.bootstrap_evolves [OF env [OF bootstrapping(1,2)], of sv p addrs] show ?case
      unfolding bootstrapping(3) by (auto simp: with_protocol_inj elim!: server_evolvesE)
  next
    case (getting E sv p key p')
    show ?case unfolding evolves_def
    proof (intro allI impI)
      fix H K s assume "node_inv D h S H K s p"
      from rpc_env.server_get_ok [OF env [OF getting(1,2)] this, of sv key]
      show "node_inv D h S H K s p' \<and> guarantee D h U p p'"
        unfolding getting(3) by (auto simp: with_protocol_inj keeps_node_def)
    qed
  next
    case (setting E key v sv p p')
    show ?case unfolding evolves_def
    proof (intro allI impI)
      fix H K s assume "node_inv D h S H K s p"
      from rpc_env.set_detailed_ok [OF env [OF setting(1,2)] this setting(3), of sv]
      show "node_inv D h S H K s p' \<and> guarantee D h U p p'"
        unfolding setting(4) by (auto simp: with_protocol_inj keeps_node_def)
    qed
  next
    case (updating E key v sv p auth p')
    show ?case unfolding evolves_def
    proof (intro allI impI)
      fix H K s assume "node_inv D h S H K s p"
      from rpc_env.server_update_ok [OF env [OF updating(1,2)] this updating(3-5), of sv auth]
      show "node_inv D h S H K s p' \<and> guarantee D h U p p'"
        unfolding updating(6) by (auto simp: with_protocol_inj keeps_node_def)
    qed
  }
qed (simp_all add: advance_evolves stats_log_turn_def prune_evolves leave_evolves shutdown_evolves)

subsection \<open>A node from its start\<close>

text \<open>The default storage, or an empty one with its own limit, below the range of \<open>usize\<close>.\<close>

definition empty_storage :: "storage option \<Rightarrow> bool" where
  "empty_storage st \<longleftrightarrow> (\<forall>s. st = Some s \<longrightarrow> (\<exists>ttl mb. s = with_max_storage_bytes ttl mb \<and> mb < usize_size))"

definition node_start ::
    "bool \<Rightarrow> 'j deps \<Rightarrow> clock \<Rightarrow> bytes \<Rightarrow> nat \<Rightarrow> nat \<Rightarrow> node_id option \<Rightarrow> storage option \<Rightarrow> bool \<Rightarrow> proto" where
  "node_start feature D ck rnd ksize alpha i st use_cache =
     listen_protocol feature (server_new D ck rnd ksize alpha i st use_cache)"

lemma node_start_fields:
  "pr_pending (node_start f D ck rnd k a i st c) = []" "pr_replies (node_start f D ck rnd k a i st c) = []"
  "pr_reassembly (node_start f D ck rnd k a i st c) = []" "pr_tasks (node_start f D ck rnd k a i st c) = Some []"
  "pr_round_trips (node_start f D ck rnd k a i st c) = round_trips_default" "pr_store_lookups (node_start f D ck rnd k a i st c) = 0"
  "pr_welcome_in_flight (node_start f D ck rnd k a i st c) = {}" "pr_oldest_pings_in_flight (node_start f D ck rnd k a i st c) = {}"
  "pr_requests_in_progress (node_start f D ck rnd k a i st c) = {}"
  "pr_sig_cache (node_start f D ck rnd k a i st c) = (if c then Some Map.empty else None)"
  by (simp_all add: node_start_def listen_protocol_def server_new_def protocol_new_def Let_def)

lemma node_start_storage:
  assumes "empty_storage st"
  obtains ttl mb where "pr_storage (node_start f D ck rnd k a i st c) = with_max_storage_bytes ttl mb" "mb < usize_size"
proof (cases st)
  case None
  show ?thesis
    by (rule that [of DEFAULT_TTL DEFAULT_MAX_STORAGE_BYTES])
      (simp_all add: None node_start_def listen_protocol_def server_new_def protocol_new_def Let_def storage_new_def
        DEFAULT_MAX_STORAGE_BYTES_def usize_size_def)
next
  case (Some s)
  then show ?thesis using assms that
    by (auto simp: empty_storage_def node_start_def listen_protocol_def server_new_def protocol_new_def Let_def)
qed

lemma node_start_inv:
  assumes "empty_storage st"
  shows "node_inv D h S [] [] 0 (node_start f D ck rnd k a i st c)"
proof -
  let ?p = "node_start f D ck rnd k a i st c"
  obtain ttl mb where st: "pr_storage ?p = with_max_storage_bytes ttl mb" "mb < usize_size"
    by (rule node_start_storage [OF assms])
  have "rt_inv (set_min_lookup_contacts (rt_new t n ks) q)" for t n ks q
    using rt_new_inv [of t n ks] by (simp add: rt_inv_def set_min_lookup_contacts_def)
  then have "table_ok ?p"
    by (simp add: table_ok_def node_start_def listen_protocol_def server_new_def protocol_new_def Let_def
        set_min_lookup_contacts_def rt_new_def)
  moreover have "st_inv 0 (with_max_storage_bytes ttl mb)" by (rule storage_new_inv [OF st(2)])
  moreover have "rts_inv 0 round_trips_default"
    by (simp add: rts_inv_def round_trips_default_def round_trips_with_capacity_def)
  moreover have "reass_inv []" by (simp add: reass_inv_def peer_entries_def)
  ultimately show ?thesis
    by (auto simp: node_inv_def st(1) node_start_fields records_ok_def with_max_storage_bytes_def bounds_ok_def chans_ok_def
        cached_ok_def cache_ok_def tasks_of_def books_def book_of_def)
qed

lemma node_start_empty:
  assumes "empty_storage st"
  shows "registers (node_start f D ck rnd k a i st c) = Map.empty"
proof -
  obtain ttl mb where "pr_storage (node_start f D ck rnd k a i st c) = with_max_storage_bytes ttl mb"
    by (rule node_start_storage [OF assms])
  then show ?thesis by (simp add: fun_eq_iff registers_def get_default_None with_max_storage_bytes_def)
qed

lemma held_empty: "held Map.empty = {}"
  by (simp add: held_def)

text \<open>
  The reachable states of a node that verifies DID Documents. \<open>S\<close> are the inputs of SHA-256 for the
  records it meets.
\<close>

definition reached :: "world \<Rightarrow> 'j deps \<Rightarrow> bytes option \<Rightarrow> bytes set \<Rightarrow> proto \<Rightarrow> bool" where
  "reached W D issuer S p \<longleftrightarrow>
     (\<exists>U feature ck rnd k a i st c. empty_storage st \<and>
        node_runs W D (did_handler D issuer) U S (node_start feature D ck rnd k a i st c) p)"

lemma reached_inv:
  assumes "reached W D issuer S p" "inj_on (sha256 D) S"
  shows "node_inv D (did_handler D issuer) S [] [] 0 p"
  using assms node_runs_evolves [OF did.record_rule_axioms assms(2)] node_start_inv
  unfolding reached_def evolves_def by blast


text \<open>
  Property C4. In every reachable state the routing table and the storage keep their invariants,
  every stored record is valid for its key, at most 256 STOREs wait for a lookup and at most 256
  nodes for their records, and while the node runs each mark belongs to exactly one task: the ping
  of a contact, the replication to a node, a request being handled.
\<close>

theorem node_invariant:
  assumes "reached W D issuer S p" "inj_on (sha256 D) S"
  shows "rt_inv (pr_router p) \<and> st_inv 0 (pr_storage p) \<and> reass_inv (pr_reassembly p) \<and>
    (\<forall>key v. registers p key = Some v \<longrightarrow> record_ok D (did_handler D issuer) key v) \<and>
    card (pr_welcome_in_flight p) \<le> 256 \<and> pr_store_lookups p \<le> 256 \<and>
    (\<forall>ts. pr_tasks p = Some ts \<longrightarrow>
       distinct (pings ts) \<and> set (pings ts) = pr_oldest_pings_in_flight p \<and>
       distinct (welcomes ts) \<and> set (welcomes ts) = pr_welcome_in_flight p \<and>
       distinct (store_keys ts) \<and> set (store_keys ts) = pr_requests_in_progress p \<and>
       pr_store_lookups p = length (store_keys ts))"
proof -
  note inv = reached_inv [OF assms]
  have "\<forall>key v. registers p key = Some v \<longrightarrow> record_ok D (did_handler D issuer) key v"
    using register_S [OF inv] by blast
  then show ?thesis
    using inv by (simp add: node_inv_def table_ok_def bounds_ok_def books_def book_of_def
        MAX_WELCOME_QUEUE_def MAX_STORE_LOOKUPS_def)
qed

text \<open>
  Property C6. GET returns only a record valid for the key: bound to it and signed by the key it
  contains, or for the Status List by the issuer, also when the signature cache answers and
  whatever the peers return, with one issuer key throughout.
\<close>

theorem get_returns_valid_records:
  assumes "reached W D issuer S p" "inj_on (sha256 D) S"
    and "env_ok W (node_runs W D (did_handler D issuer) U S) E" "answers_ok D S E"
    and "snd (server_get E D (did_handler D issuer) (with_protocol sv p) key) = Some v"
  shows "record_ok D (did_handler D issuer) (digest D key) v"
proof -
  let ?h = "did_handler D issuer"
  have "env_ok W (evolves D ?h U S) E"
    by (rule env_ok_mono [THEN mp, OF _ assms(3)])
      (use node_runs_evolves [OF did.record_rule_axioms assms(2)] in auto)
  from rpc_envI [OF did.record_rule_axioms assms(2,4) this]
  have "rpc_env D ?h E S U" .
  from rpc_env.server_get_ok [OF this reached_inv [OF assms(1,2)], of sv key] assms(5) show ?thesis by auto
qed

text \<open>
  Property C20. A call returns only an answer of the kind its request asks for, whatever datagrams
  arrive and whatever the node does while the call waits.
\<close>

theorem call_returns_accepted_answer:
  assumes "reached W D issuer S p" "inj_on (sha256 D) S"
    and "call_runs W (node_runs W D (did_handler D issuer) U S) (call_start W p addr m) (p', Some r)"
  shows "accepts (for_request m) r"
proof -
  let ?h = "did_handler D issuer"
  have run: "call_runs W (evolves D ?h U S) (call_start W p addr m) (p', Some r)"
    by (rule call_runs_mono [THEN mp, OF _ assms(3)])
      (use node_runs_evolves [OF did.record_rule_axioms assms(2)] in auto)
  note 1 = call_start_ok [OF reached_inv [OF assms(1,2)], of W addr m]
  from call_runs_ok [OF run conjunct1 [OF 1], of addr m] 1 show ?thesis by simp
qed

subsection \<open>Witnesses\<close>

text \<open>A node whose messages cannot be encoded: its calls end at once, and it keeps what it publishes.\<close>

definition wworld :: world where
  "wworld = \<lparr>w_serialize = (\<lambda>_. None), w_deserialize = (\<lambda>_. None), w_send_to = (\<lambda>_ _ _. True)\<rparr>"

text \<open>An environment in which nobody answers: a call ends at its deadline.\<close>

definition silent_call :: "world \<Rightarrow> proto \<Rightarrow> sock_addr \<Rightarrow> rpc_message \<Rightarrow> proto \<times> rpc_message option" where
  "silent_call W p a m =
     (case call_start W p a m of
        (p1, Ended r) \<Rightarrow> (p1, r)
      | (p1, Waiting cs) \<Rightarrow>
          (end_call (advance ((pr_clock p1)\<lparr>ck_now := max (pnow p1) (cl_deadline cs)\<rparr>) p1) (cl_msg_id cs), None))"

definition silent_env :: "world \<Rightarrow> env" where
  "silent_env W = \<lparr>en_rpc = silent_call W, en_yield = (\<lambda>p. p), en_done = (\<lambda>p i. i),
     en_cut = (\<lambda>p. None), en_deadline_passed = (\<lambda>p. False), en_hash_order = (\<lambda>p i. 0), en_ipv6 = (\<lambda>_. None)\<rparr>"

abbreviation wenv :: env where
  "wenv \<equiv> silent_env wworld"

definition wclock :: clock where
  "wclock = \<lparr>ck_now = 0, ck_secs = 0, ck_jit = (\<lambda>d. 0)\<rparr>"

abbreviation whandler :: handler where
  "whandler \<equiv> did_handler wdeps None"

abbreviation wset :: "bytes set" where
  "wset \<equiv> {hash_input wdeps wkey wrecord}"

definition wstart :: proto where
  "wstart = node_start False wdeps wclock [] 2 1 (Some (wid 1)) (Some (with_max_storage_bytes (- 1) 200)) True"

definition wserver :: server where
  "wserver = with_protocol (server_new wdeps wclock [] 2 1 (Some (wid 1)) None True) wstart"

definition wstored :: proto where
  "wstored = the (sv_protocol (fst (set_detailed wenv wdeps whandler wserver wdoc wrecord)))"

lemma silent_call_runs: "call_runs W (node_runs W D h U S) (call_start W p a m) (silent_call W p a m)"
proof (cases "snd (call_start W p a m)")
  case (Ended r)
  then show ?thesis using call_runs.ended [of W "node_runs W D h U S" "fst (call_start W p a m)" r]
    by (simp add: silent_call_def case_prod_beta) (metis prod.collapse)
next
  case (Waiting cs)
  let ?p1 = "fst (call_start W p a m)"
  let ?q = "advance ((pr_clock ?p1)\<lparr>ck_now := max (pnow ?p1) (cl_deadline cs)\<rparr>) ?p1"
  have step: "call_step W ?q cs TimerBranch = (end_call ?q (cl_msg_id cs), Ended None)"
    by (auto simp: call_step_def advance_def)
  have "node_runs W D h U S ?p1 ?q" by (rule node_runs.tick) simp
  from call_runs.turn [where W = W and R = "node_runs W D h U S" and b = TimerBranch and cs = cs, OF this, unfolded step, OF call_runs.ended]
  show ?thesis using Waiting by (simp add: silent_call_def case_prod_beta) (metis prod.collapse)
qed

lemma call_start_no_answer: "snd (call_start W p a m) \<noteq> Ended (Some r)"
  by (simp add: call_start_def Let_def case_prod_beta split: option.split)

lemma silent_call_no_answer: "snd (silent_call W p a m) = None"
proof (cases "snd (call_start W p a m)")
  case (Ended r)
  with call_start_no_answer [of W p a m] have "r = None" by (cases r) auto
  with Ended show ?thesis by (simp add: silent_call_def case_prod_beta)
qed (simp add: silent_call_def case_prod_beta)

lemma silent_env_ok: "env_ok W (node_runs W D h U S) (silent_env W)" "answers_ok D S (silent_env W)"
  by (simp_all add: env_ok_def answers_ok_def silent_env_def silent_call_runs silent_call_no_answer node_runs.stay)

text \<open>A node none of whose calls is answered, over any cryptography: an environment of \<open>rpc_env\<close>.\<close>

interpretation quiet: rpc_env D "did_handler D issuer" "silent_env W" "{x}" U for D :: "'j deps" and issuer W x U
proof -
  have "env_ok W (evolves D (did_handler D issuer) U {x}) (silent_env W)"
    by (rule env_ok_mono [THEN mp, OF predicate2I silent_env_ok(1) [where D = D and h = "did_handler D issuer" and S = "{x}"]])
      (rule node_runs_evolves [OF did.record_rule_axioms], simp_all)
  then show "rpc_env D (did_handler D issuer) (silent_env W) {x} U"
    by (intro rpc_envI [OF did.record_rule_axioms _ silent_env_ok(2)]) simp_all
qed

lemma wstart_empty_storage: "empty_storage (Some (with_max_storage_bytes (- 1) 200))"
  unfolding empty_storage_def
  by (intro allI impI exI [of _ "- 1"] exI [of _ 200]) (simp add: usize_size_def)

lemma wverify: "fst (verify_record wdeps whandler (Some Map.empty) wkey wrecord)"
  by code_simp

lemma wlonely:
  "snd (find_neighbors 0 (pr_router wstart) (from_id wkey) None) = []"
  "\<not> has_contacts (fst (find_neighbors 0 (pr_router wstart) (from_id wkey) None))"
  "select_responsible_nodes (from_id (wid 1)) (from_id wkey) [] 2 = (True, [])"
  by code_simp+

lemma wrecord_length: "length (id_bytes wkey) + length wrecord \<le> 200"
  by code_simp

lemma wstored_eq:
  "\<exists>cache rt. fst (set_detailed wenv wdeps whandler wserver wdoc wrecord) = with_protocol wserver
     (wstart\<lparr>pr_sig_cache := cache, pr_router := rt,
       pr_storage := fst (insert_if_absent 0 (id_bytes wkey) wrecord (with_max_storage_bytes (- 1) 200))\<rparr>)"
proof -
  have st: "pr_storage wstart = with_max_storage_bytes (- 1) 200" "pr_clock wstart = wclock" "pr_seeds wstart = []"
    "pr_sig_cache wstart = Some Map.empty" "sv_node wserver = from_id (wid 1)" "sv_ksize wserver = 2"
    "sv_protocol wserver = Some wstart"
    by (simp_all add: wserver_def wstart_def node_start_def listen_protocol_def server_new_def protocol_new_def Let_def)
  have key: "digest wdeps wdoc = wkey" by (simp add: digest_def digest_bytes_def wkey_def)
  have none: "st_get 0 (id_bytes wkey) (with_max_storage_bytes (- 1) 200) = None"
    by (simp add: get_default_None with_max_storage_bytes_def)
  obtain rt where rt: "find_neighbors 0 (pr_router wstart) (from_id wkey) None = (rt, [])" "\<not> has_contacts rt"
    using wlonely(1,2) by (metis prod.collapse)
  obtain cache where v: "verify_record wdeps whandler (Some Map.empty) wkey wrecord = (True, cache)"
    using wverify by (metis prod.collapse)
  have "set_detailed wenv wdeps whandler wserver wdoc wrecord =
      set_digest_detailed wenv (with_protocol wserver (wstart\<lparr>pr_sig_cache := cache, pr_router := rt\<rparr>)) wkey wrecord empty_lookup"
    using v rt none
    by (simp add: set_detailed_def verify_value_def verify_for_key_def check_publish_state_def st key silent_env_def
        wclock_def proto_find_neighbors_def)
  then show ?thesis
    using wlonely(3) rt(2)
    by (auto simp: set_digest_detailed_def st wclock_def empty_lookup_def seeds_def Let_def case_prod_beta join_all_def run_ranked_def)
qed

lemma wstored_registers: "registers wstored wkey = Some wrecord"
proof -
  let ?s0 = "with_max_storage_bytes (- 1) 200"
  have none: "st_get 0 (id_bytes wkey) ?s0 = None" by (simp add: get_default_None with_max_storage_bytes_def)
  have "fits (id_bytes wkey) wrecord ?s0"
    using wrecord_length by (simp add: fits_def extra_bytes_def with_max_storage_bytes_def)
  moreover have "st_inv 0 ?s0" by (rule storage_new_inv) (simp add: usize_size_def)
  ultimately have "snd (insert_if_absent 0 (id_bytes wkey) wrecord ?s0) \<noteq> CapacityExceeded"
    using insert_if_absent_fits none by blast
  then have "st_get 0 (id_bytes wkey) (fst (insert_if_absent 0 (id_bytes wkey) wrecord ?s0)) = Some wrecord"
    using fs.absent_vacant [OF none, of wrecord] by auto
  then show ?thesis
    using wstored_eq by (auto simp: wstored_def registers_def wstart_def node_start_def listen_protocol_def server_new_def
        protocol_new_def Let_def wclock_def)
qed

lemma wstored_runs: "node_runs wworld wdeps whandler U wset wstart wstored"
proof (rule node_runs.setting [OF silent_env_ok, where key = wdoc and v = wrecord and sv = wserver])
  show "hash_input wdeps (digest wdeps wdoc) wrecord \<in> wset"
    by (simp add: digest_def digest_bytes_def wkey_def)
  have "with_protocol wserver wstart = wserver" by (simp add: wserver_def)
  then show "fst (set_detailed wenv wdeps whandler (with_protocol wserver wstart) wdoc wrecord) = with_protocol wserver wstored"
    using wstored_eq by (auto simp: wstored_def)
qed

lemma wstored_reached: "reached wworld wdeps None wset wstored"
  using wstored_runs wstart_empty_storage unfolding reached_def wstart_def by blast


theorem node_invariant_witness:
  "registers wstored wkey = Some wrecord \<and> rt_inv (pr_router wstored) \<and> st_inv 0 (pr_storage wstored) \<and>
   record_ok wdeps whandler wkey wrecord"
  using node_invariant [OF wstored_reached] wstored_registers by simp

theorem get_returns_valid_records_witness:
  "snd (server_get wenv wdeps whandler (with_protocol wserver wstored) wdoc) = Some wrecord \<and>
   record_ok wdeps whandler (digest wdeps wdoc) wrecord"
proof -
  note inv = reached_inv [OF wstored_reached]
  have key: "digest wdeps wdoc = wkey" "wdoc \<noteq> STATUS_LIST_KEY"
    using wrecord_facts(1) by (auto simp: digest_def digest_bytes_def wkey_def)
  have ok: "record_ok wdeps whandler wkey wrecord" using register_S [OF inv wstored_registers] by simp
  have "snd (verify_value wenv wdeps whandler (with_protocol wserver wstored) wdoc wrecord)"
    using quiet.verify_value_evolves(2) [where D = wdeps and W = wworld and key = wdoc and v = wrecord] inv ok key by simp
  then have get: "snd (server_get wenv wdeps whandler (with_protocol wserver wstored) wdoc) = Some wrecord"
    using wstored_registers key by (simp add: server_get_def registers_def case_prod_beta)
  from get_returns_valid_records [OF wstored_reached _ silent_env_ok this] get show ?thesis by simp
qed

text \<open>A call to a peer that answers a FIND_NODE at once.\<close>

definition wpeer :: sock_addr where
  "wpeer = ([49, 46, 49, 46, 49, 46, 49], 7)"

definition wworld2 :: world where
  "wworld2 = \<lparr>w_serialize = (\<lambda>_. Some [0]),
     w_deserialize = (\<lambda>_. Some \<lparr>fr_msg_id = 0, fr_is_request = False, fr_message = FindNodeResult []\<rparr>),
     w_send_to = (\<lambda>_ _ _. True)\<rparr>"

lemma wanswer_parses: "parse_fragment (hd (encode_fragments 0 [0])) = Some (\<lparr>fh_frag_id = 0, fh_index = 0, fh_total = 1\<rparr>, [0])"
  by code_simp

lemma wcalled:
  assumes "call_start wworld2 wstart wpeer (FindNode i t) = (p, res)"
  obtains cs where "res = Waiting cs" "cl_chan cs = 0" "pr_replies p = []"
    "map_of (pr_pending p) 0 = Some \<lparr>pc_peer = wpeer, pc_expected = for_request (FindNode i t), pc_chan = 0\<rparr>"
  using assms
  by (auto simp: call_start_def next_id_def next_frag_id_val_def encode_frame_def wworld2_def MAX_MESSAGE_SIZE_def
      encode_fragments_def wstart_def node_start_def listen_protocol_def server_new_def protocol_new_def Let_def
      chunks.simps [of _ "[0]"] div_ceil_def FRAG_CHUNK_SIZE_def)

lemma wanswered:
  "\<exists>p'. call_runs wworld2 (node_runs wworld2 wdeps whandler U wset) (call_start wworld2 wstart wpeer (FindNode i t))
     (p', Some (FindNodeResult []))"
proof -
  obtain p res where start: "call_start wworld2 wstart wpeer (FindNode i t) = (p, res)" by fastforce
  then obtain cs where cs: "res = Waiting cs" "cl_chan cs = 0" "pr_replies p = []"
    "map_of (pr_pending p) 0 = Some \<lparr>pc_peer = wpeer, pc_expected = for_request (FindNode i t), pc_chan = 0\<rparr>"
    by (rule wcalled)
  let ?d = "hd (encode_fragments 0 [0])"
  let ?q = "handle_datagram wworld2 (silent_env wworld2) wdeps whandler p ?d wpeer"
  have "datagram_ok wworld2 wdeps wset p ?d wpeer"
    by (simp add: datagram_ok_def receive_payload_def wanswer_parses wworld2_def msg_ok_def)
  then have turn: "node_runs wworld2 wdeps whandler U wset p ?q"
    by (intro node_runs.datagram silent_env_ok)
  have "map_of (pr_replies ?q) 0 = Some (FindNodeResult [])"
    by (simp add: handle_datagram_def receive_payload_def wanswer_parses wworld2_def handle_response_def cs for_request_def accepts_def)
  then have "\<exists>p'. call_step wworld2 ?q cs AnswerBranch = (p', Ended (Some (FindNodeResult [])))"
    by (simp add: call_step_def cs)
  with call_runs.turn [where R = "node_runs wworld2 wdeps whandler U wset", OF turn, of wworld2 cs AnswerBranch] call_runs.ended show ?thesis
    unfolding start cs(1) by metis
qed

theorem call_returns_accepted_answer_witness:
  "(\<exists>p'. call_runs wworld2 (node_runs wworld2 wdeps whandler {} wset) (call_start wworld2 wstart wpeer (FindNode (wid 1) (wid 2)))
        (p', Some (FindNodeResult []))) \<and>
     accepts (for_request (FindNode (wid 1) (wid 2))) (FindNodeResult [])"
proof -
  have "reached wworld2 wdeps None wset wstart"
    unfolding reached_def wstart_def using wstart_empty_storage by (metis node_runs.stay)
  from call_returns_accepted_answer [OF this] wanswered [of "{}" "wid 1" "wid 2"] show ?thesis by fastforce
qed

end
