(* ===== verification/TransportProps.thy ===== *)
theory TransportProps
  imports NodeRuns
begin

text \<open>
  Properties of single requests: a call ends in time and sends a bounded number of datagrams, the
  largest messages a sender accepts are never delivered, peers whose address is IPv6 cannot be
  called, and an UPDATE may overwrite a record that was stored while its signature was checked.
\<close>

subsection \<open>A call ends\<close>

text \<open>
  A call along a script: at each turn the rest of the node acts, then the call takes a branch. The
  trace lists the time and the branch of each turn, and the number of datagrams the call sent again.
\<close>

fun run_call ::
    "world \<Rightarrow> proto \<times> call_result \<Rightarrow> (proto \<Rightarrow> proto \<times> branch) list \<Rightarrow>
     (proto \<times> call_result) \<times> (instant \<times> branch) list \<times> nat" where
  "run_call W (p, Waiting cs) (t # ts) =
     (let (q, b) = t p;
          (p1, r) = call_step W q cs b;
          (res, turns, resent) = run_call W (p1, r) ts
      in (res, (pnow q, b) # turns, length (pr_sent p1) - length (pr_sent q) + resent))"
| "run_call W s _ = (s, [], 0)"

lemma send_datagrams_grows:
  "length (pr_sent (fst (send_datagrams W p addr kind dgs))) \<le> length (pr_sent p) + length dgs"
  "snd (send_datagrams W p addr kind dgs) \<Longrightarrow>
   length (pr_sent (fst (send_datagrams W p addr kind dgs))) = length (pr_sent p) + length dgs"
  by (induction W p addr kind dgs rule: send_datagrams.induct) (auto split: if_splits)

lemma call_step_sends:
  assumes "cl_resends cs \<le> MAX_RESENDS"
  shows "case call_step W q cs b of
     (p1, Ended _) \<Rightarrow> length (pr_sent p1) - length (pr_sent q) \<le> (MAX_RESENDS - cl_resends cs) * length (cl_datagrams cs)
   | (p1, Waiting cs') \<Rightarrow>
       length (pr_sent p1) - length (pr_sent q) \<le> (cl_resends cs' - cl_resends cs) * length (cl_datagrams cs) \<and>
       cl_resends cs \<le> cl_resends cs' \<and> cl_resends cs' \<le> MAX_RESENDS \<and>
       cl_datagrams cs' = cl_datagrams cs \<and> cl_deadline cs' = cl_deadline cs \<and>
       (b = TimerBranch \<longrightarrow> pnow q < cl_deadline cs)"
proof (cases b)
  case AnswerBranch
  then show ?thesis using assms
    by (simp add: call_step_def end_call_def record_trip_def Let_def split: option.split)
next
  case ReceiptBranch
  then show ?thesis using assms by (simp add: call_step_def record_trip_def Let_def)
next
  case TimerBranch
  define p0 where "p0 = q\<lparr>pr_counters := counters_resent (pr_counters q) (cl_measured cs)\<rparr>"
  obtain p1 ok where s: "send_datagrams W p0 (cl_addr cs) (cl_kind cs) (cl_datagrams cs) = (p1, ok)" by fastforce
  have 1: "length (pr_sent p1) - length (pr_sent q) \<le> length (cl_datagrams cs)"
    using send_datagrams_grows(1) [of W p0 "cl_addr cs" "cl_kind cs" "cl_datagrams cs"] s by (simp add: p0_def)
  show ?thesis
  proof (cases "pnow q < min (cl_next_send cs) (cl_deadline cs) \<or> pnow q \<ge> cl_deadline cs \<or> cl_resends cs = MAX_RESENDS")
    case True
    then show ?thesis using assms TimerBranch by (auto simp: call_step_def end_call_def)
  next
    case False
    then have "1 \<le> MAX_RESENDS - cl_resends cs" using assms by auto
    then have 2: "length (cl_datagrams cs) \<le> (MAX_RESENDS - cl_resends cs) * length (cl_datagrams cs)"
      using mult_le_mono1 [of 1] by fastforce
    have "call_step W q cs b =
      (if ok then (p1, Waiting (cs\<lparr>cl_resends := cl_resends cs + 1, cl_wait := cl_wait cs * 2,
                                     cl_next_send := pnow p1 + cl_wait cs * 2\<rparr>))
       else (end_call p1 (cl_msg_id cs), Ended None))"
      using False s TimerBranch by (auto simp: call_step_def p0_def)
    moreover have "length (pr_sent p1) - length (pr_sent q) \<le> (MAX_RESENDS - cl_resends cs) * length (cl_datagrams cs)"
      using 1 2 by (rule order_trans)
    ultimately show ?thesis using 1 False assms by (simp add: end_call_def)
  qed
qed

lemma run_call_bounds:
  assumes "run_call W (p, Waiting cs) ts = ((q, res), turns, resent)" "cl_resends cs \<le> MAX_RESENDS"
  shows "resent \<le> (MAX_RESENDS - cl_resends cs) * length (cl_datagrams cs) \<and>
    ((t, TimerBranch) \<in> set turns \<and> cl_deadline cs \<le> t \<longrightarrow> (\<exists>r. res = Ended r))"
  using assms
proof (induction ts arbitrary: p cs turns resent)
  case (Cons a ts)
  obtain q1 b where a: "a p = (q1, b)" by fastforce
  obtain p1 r where st: "call_step W q1 cs b = (p1, r)" by fastforce
  obtain turns' resent' where rest: "run_call W (p1, r) ts = ((q, res), turns', resent')"
    and eq: "turns = (pnow q1, b) # turns'" "resent = length (pr_sent p1) - length (pr_sent q1) + resent'"
    using Cons.prems(1) a st by (auto split: prod.splits)
  note step = call_step_sends [OF Cons.prems(2), where W = W and q = q1 and b = b, unfolded st]
  show ?case
  proof (cases r)
    case (Ended r')
    then show ?thesis using step rest eq by auto
  next
    case (Waiting cs')
    let ?l = "length (cl_datagrams cs)"
    have s: "length (pr_sent p1) - length (pr_sent q1) \<le> (cl_resends cs' - cl_resends cs) * ?l"
      "cl_resends cs \<le> cl_resends cs'" "cl_resends cs' \<le> MAX_RESENDS" "cl_datagrams cs' = cl_datagrams cs"
      "cl_deadline cs' = cl_deadline cs" "b = TimerBranch \<longrightarrow> pnow q1 < cl_deadline cs"
      using step Waiting by auto
    have ih: "resent' \<le> (MAX_RESENDS - cl_resends cs') * ?l"
      "(t, TimerBranch) \<in> set turns' \<and> cl_deadline cs \<le> t \<longrightarrow> (\<exists>r. res = Ended r)"
      using Cons.IH [of p1 cs' turns' resent'] rest s Waiting by auto
    have "resent \<le> (cl_resends cs' - cl_resends cs) * ?l + (MAX_RESENDS - cl_resends cs') * ?l"
      using eq(2) s(1) ih(1) by linarith
    also have "\<dots> = (MAX_RESENDS - cl_resends cs) * ?l"
      using s(2,3) by (metis add.commute add_mult_distrib diff_add_assoc2 le_add_diff_inverse2)
    finally show ?thesis using ih(2) eq(1) s(6) by auto
  qed
qed simp

lemma call_start_sends:
  assumes "call_start W p addr m = (p1, Waiting cs)"
  shows "length (pr_sent p1) = length (pr_sent p) + length (cl_datagrams cs)" "cl_resends cs = 0"
    "cl_deadline cs = pnow p + RPC_TIMEOUT"
proof -
  obtain p2 dgs where e: "encode_frame W (fst (next_id p)) \<lparr>fr_msg_id = snd (next_id p), fr_is_request = True, fr_message = m\<rparr> = (p2, Some dgs)"
    using assms by (cases "encode_frame W (fst (next_id p)) \<lparr>fr_msg_id = snd (next_id p), fr_is_request = True, fr_message = m\<rparr>")
      (auto simp: call_start_def Let_def case_prod_beta split: option.splits)
  then have f: "pr_sent p2 = pr_sent p" "pnow p2 = pnow p"
    by (auto simp: encode_frame_def next_id_def next_frag_id_val_def Let_def split: option.splits if_splits)
  show "length (pr_sent p1) = length (pr_sent p) + length (cl_datagrams cs)" "cl_resends cs = 0"
    "cl_deadline cs = pnow p + RPC_TIMEOUT"
    using assms e f by (auto simp: call_start_def Let_def case_prod_beta send_datagrams_grows(2) split: if_splits)
qed

text \<open>
  Property C10. Whatever datagrams arrive and whatever the rest of the node does, a call is over
  once its timer has fired at or after its deadline, 2.5 seconds after the first transmission, and
  it never sends more than two further copies of its request.
\<close>

theorem call_ends_in_time:
  assumes "run_call W (call_start W p addr m) ts = ((q, res), turns, resent)"
  shows "resent \<le> MAX_RESENDS * (length (pr_sent (fst (call_start W p addr m))) - length (pr_sent p)) \<and>
    ((t, TimerBranch) \<in> set turns \<and> pnow p + RPC_TIMEOUT \<le> t \<longrightarrow> (\<exists>r. res = Ended r))"
proof -
  obtain p1 r where st: "call_start W p addr m = (p1, r)" by fastforce
  show ?thesis
  proof (cases r)
    case (Ended x)
    then show ?thesis using assms st by auto
  next
    case (Waiting cs)
    note s = call_start_sends [OF st [unfolded Waiting]]
    from run_call_bounds [of W p1 cs ts q res turns resent t] assms st Waiting s show ?thesis by simp
  qed
qed

text \<open>A peer that stays silent: the timer fires after 2.5 seconds, and the call is over.\<close>

lemma run_call_Nil [simp]: "run_call W s [] = (s, [], 0)"
  by (cases s; cases "snd s") auto

theorem call_ends_in_time_witness:
  "\<exists>q r resent.
     run_call wworld2 (call_start wworld2 wstart wpeer (FindNode (wid 1) (wid 2)))
       [\<lambda>p. (advance ((pr_clock p)\<lparr>ck_now := pnow wstart + RPC_TIMEOUT\<rparr>) p, TimerBranch)] =
       ((q, Ended r), [(pnow wstart + RPC_TIMEOUT, TimerBranch)], resent) \<and>
     resent \<le> 2 * (length (pr_sent (fst (call_start wworld2 wstart wpeer (FindNode (wid 1) (wid 2))))) -
                    length (pr_sent wstart))"
proof -
  let ?m = "FindNode (wid 1) (wid 2)"
  let ?ts = "[\<lambda>p. (advance ((pr_clock p)\<lparr>ck_now := pnow wstart + RPC_TIMEOUT\<rparr>) p, TimerBranch)]"
  obtain p1 res where st: "call_start wworld2 wstart wpeer ?m = (p1, res)" by fastforce
  then obtain cs where cs: "res = Waiting cs" by (rule wcalled)
  obtain q r resent where run: "run_call wworld2 (call_start wworld2 wstart wpeer ?m) ?ts =
      ((q, r), [(pnow wstart + RPC_TIMEOUT, TimerBranch)], resent)"
    by (simp add: st cs case_prod_beta advance_def del: split_paired_Ex) (metis prod.collapse)
  from call_ends_in_time [OF run, of "pnow wstart + RPC_TIMEOUT"] run show ?thesis
    by (auto simp: MAX_RESENDS_def)
qed

subsection \<open>The largest messages\<close>

text \<open>
  Property C35. A message of more than 187 chunks is within the limit the sender enforces, but every
  one of its datagrams is discarded on arrival: such a message is sent and never delivered.
\<close>

theorem largest_messages_never_delivered:
  assumes "w_serialize W fr = Some payload" "187 * FRAG_CHUNK_SIZE < length payload" "length payload \<le> MAX_MESSAGE_SIZE"
  shows "case encode_frame W p fr of
    (_, Some dgs) \<Rightarrow> length dgs = 188 \<and> list_all (\<lambda>dg. receive_payload q dg peer = (q, None)) dgs
  | (_, None) \<Rightarrow> False"
proof -
  have len: "261800 < length payload" "length payload \<le> 262144"
    using assms(2,3) by (simp_all add: FRAG_CHUNK_SIZE_def MAX_MESSAGE_SIZE_def)
  then have "payload \<noteq> []" "(1399 + length payload) div 1400 = 188" by (auto simp: div_nat_eqI)
  then have tot: "frag_total payload = 188"
    by (simp add: frag_total_div_ceil div_ceil_eq FRAG_CHUNK_SIZE_def)
  have "receive_payload q (encode_fragments f payload ! i) peer = (q, None)" if "i < 188" for f i
    using parse_encoded [of payload i f] that tot len
    by (simp add: receive_payload_def frag_head_def FRAG_CHUNK_SIZE_def MAX_MESSAGE_SIZE_def)
  then have "list_all (\<lambda>dg. receive_payload q dg peer = (q, None)) (encode_fragments f payload)" for f
    by (simp add: list_all_length encode_fragments_nth(1) tot)
  then show ?thesis using assms(1,3)
    by (simp add: encode_frame_def next_frag_id_val_def encode_fragments_nth(1) tot)
qed

theorem largest_messages_never_delivered_witness:
  "case encode_frame (wworld2\<lparr>w_serialize := \<lambda>_. Some (replicate 262144 0)\<rparr>) wstart
      \<lparr>fr_msg_id = 0, fr_is_request = False, fr_message = Received\<rparr> of
    (_, Some dgs) \<Rightarrow> length dgs = 188 \<and> list_all (\<lambda>dg. receive_payload wstart dg wpeer = (wstart, None)) dgs
  | (_, None) \<Rightarrow> False"
  by (rule largest_messages_never_delivered [where payload = "replicate 262144 0"])
    (simp_all add: FRAG_CHUNK_SIZE_def MAX_MESSAGE_SIZE_def)

subsection \<open>Peers with an IPv6 address\<close>

lemma split_on_covers: "x \<in> set bs \<Longrightarrow> x \<noteq> c \<Longrightarrow> \<exists>part \<in> set (split_on c bs). x \<in> set part"
  by (induction bs) (auto split: list.splits)

text \<open>The text of an IPv6 address has a colon and, as \<open>IpAddr\<close> prints it, no bracket.\<close>

lemma ipv6_text_refused:
  assumes "58 \<in> set ip" "hd ip \<noteq> 91"
  shows "socket_addr v6 (ip, port) = None"
proof -
  obtain part where part: "part \<in> set (split_on 46 ip)" "58 \<in> set part" using split_on_covers [OF assms(1), of 46] by auto
  have "\<not> is_digit 58" by (simp add: is_digit_def)
  then have "\<not> is_octet part" using part(2) by (auto simp: is_octet_def list_all_iff)
  then have "\<not> is_ipv4 ip" using part(1) by (auto simp: is_ipv4_def list_all_iff Let_def)
  then show ?thesis using assms by (simp add: socket_addr_def)
qed

text \<open>
  Property C39. A peer known by an IPv6 address is never sent anything: every request of the node to
  it ends at once without an answer and leaves the node as it was. The colon is byte 58 and the
  opening bracket byte 91.
\<close>

theorem ipv6_peer_never_called:
  assumes "58 \<in> set ip" "hd ip \<noteq> 91"
  shows "let n = sender i (ip, port) in
    call_ping_addr E p (ip, port) = (p, False, []) \<and> call_find_node E p n t = (p, no_response) \<and>
    call_find_value E p n t = (p, no_response) \<and> call_find_hash E p n t = (p, no_response) \<and>
    call_store_rpc E p n key v = (p, None) \<and> call_update_rpc_answer E p n key v auth = (p, None) \<and>
    call_status_list_update_rpc E p n key v = (p, False) \<and> call_leave_rpc W v6 p n = p"
  using ipv6_text_refused [OF assms]
  by (simp add: call_ping_addr_def call_find_node_def call_find_value_def call_find_hash_def call_find_def
      call_store_rpc_def call_update_rpc_answer_def call_status_list_update_rpc_def call_leave_rpc_def
      socket_addr_of_def sender_def node_new_def address_def)

theorem ipv6_peer_never_called_witness:
  "call_ping_addr wenv wstart ([58, 58, 49], 4000) = (wstart, False, [])"
  using ipv6_peer_never_called [of "[58, 58, 49]"] by (simp add: Let_def)

subsection \<open>Two updates at once\<close>

lemma welcome_storage [simp]:
  "pr_storage (spawn_task p t) = pr_storage p" "pr_clock (spawn_task p t) = pr_clock p"
  "pr_storage (fst (note_alive p n)) = pr_storage p" "pr_clock (fst (note_alive p n)) = pr_clock p"
  "pr_storage (proto_add_contact p n) = pr_storage p" "pr_clock (proto_add_contact p n) = pr_clock p"
  "pr_storage (schedule_welcome_if_new p n) = pr_storage p" "pr_clock (schedule_welcome_if_new p n) = pr_clock p"
proof -
  show task: "pr_storage (spawn_task p t) = pr_storage p" "pr_clock (spawn_task p t) = pr_clock p" for p t
    by (simp_all add: spawn_task_def drop_task_def slot_drop_def split: option.split task.split)
  show alive: "pr_storage (fst (note_alive p n)) = pr_storage p" "pr_clock (fst (note_alive p n)) = pr_clock p" for p
    by (simp_all add: note_alive_def Let_def case_prod_beta)
  show contact: "pr_storage (proto_add_contact p n) = pr_storage p" "pr_clock (proto_add_contact p n) = pr_clock p" for p
    by (simp_all add: proto_add_contact_def task Let_def split: option.split)
  show "pr_storage (schedule_welcome_if_new p n) = pr_storage p" "pr_clock (schedule_welcome_if_new p n) = pr_clock p"
    by (simp_all add: schedule_welcome_if_new_def task alive contact Let_def case_prod_beta)
qed

lemma st_set_stored:
  assumes "st_inv r s" "fits k v s"
  shows "st_get now k (fst (st_set now k v s)) = Some v" "snd (st_set now k v s) \<noteq> CapacityExceeded"
proof -
  show 2: "snd (st_set now k v s) \<noteq> CapacityExceeded" using st_set_fits [OF assms(1)] assms(2) by simp
  show "st_get now k (fst (st_set now k v s)) = Some v"
    using st_set_cases [of now k v s] 2 by (auto simp: get_default_None AList.update_conv)
qed

text \<open>
  Property C36. An UPDATE is checked against the record read before its signature is verified. If
  another record is stored while the verification runs, it is overwritten all the same, although it
  does not authorise the new record: a key that was already replaced can undo its replacement.
\<close>

theorem update_overwrites_newer_record:
  assumes "key \<noteq> digest D STATUS_LIST_KEY"
    and "registers p key = Some old" "old \<noteq> v" "verify_rotation h key v old auth"
    and "registers (en_yield E p) key = Some newer" "\<not> verify_rotation h key v newer auth"
    and "st_inv r (pr_storage (en_yield E p))" "fits (id_bytes key) v (pr_storage (en_yield E p))"
  shows "case rpc_update E D h p i a key v auth of (p', ok) \<Rightarrow> ok \<and> registers p' key = Some v"
proof -
  note w = st_set_stored [OF assms(7,8), where now = "pnow (en_yield E p)"]
  show ?thesis using assms(1-4) w
    by (simp add: rpc_update_def registers_def Let_def case_prod_beta)
qed

text \<open>
  The owner rotates from key 1 to key 2 while a second rotation, from key 1 to key 3, is being
  verified. Signatures are modelled by the last byte of the key that made them.
\<close>

definition wdeps3 :: "bytes deps" where
  "wdeps3 = wdeps\<lparr>ed_verify := \<lambda>pk m s. last pk = hd s\<rparr>"

definition wrotated :: "u8 \<Rightarrow> bytes" where
  "wrotated i = record_bytes (lit ''Ed25519'') (replicate 64 i) (replicate 31 7 @ [i])"

definition wheld :: proto where
  "wheld = wstart\<lparr>pr_storage := fst (st_set (pnow wstart) (id_bytes wkey) (wrotated 1) (pr_storage wstart))\<rparr>"

definition wother :: env where
  "wother = wenv\<lparr>en_yield := \<lambda>p. fst (rpc_update wenv wdeps3 (did_handler wdeps3 None) p (wid 9) wpeer wkey (wrotated 2) (replicate 64 1))\<rparr>"

lemma wrotations:
  "wkey \<noteq> digest wdeps3 STATUS_LIST_KEY"
  "verify_rotation (did_handler wdeps3 None) wkey (wrotated 3) (wrotated 1) (replicate 64 1)"
  "verify_rotation (did_handler wdeps3 None) wkey (wrotated 2) (wrotated 1) (replicate 64 1)"
  "\<not> verify_rotation (did_handler wdeps3 None) wkey (wrotated 3) (wrotated 2) (replicate 64 1)"
  "wrotated 1 \<noteq> wrotated 2" "wrotated 1 \<noteq> wrotated 3" "length (wrotated 1) = 108" "length (wrotated 2) = 108" "length (wrotated 3) = 108"
  by code_simp+

lemma wheld_storage:
  "st_inv 0 (pr_storage wheld)" "map_of (st_data (pr_storage wheld)) (id_bytes wkey) = Some (wrotated 1, pnow wheld)"
  "st_current_storage_bytes (pr_storage wheld) = 128" "st_max_storage_bytes (pr_storage wheld) = 200"
  "registers wheld wkey = Some (wrotated 1)"
proof -
  have start: "pr_storage wstart = with_max_storage_bytes (- 1) 200"
    by (simp add: wstart_def node_start_def listen_protocol_def server_new_def protocol_new_def Let_def)
  have inv: "st_inv 0 (pr_storage wstart)" unfolding start by (rule storage_new_inv) (simp add: usize_size_def)
  then show "st_inv 0 (pr_storage wheld)" unfolding wheld_def by (simp add: st_set_inv)
  have "st_set t (id_bytes wkey) (wrotated 1) (pr_storage wstart) =
      (\<lparr>st_data = [(id_bytes wkey, wrotated 1, t)], st_ttl = - 1, st_current_storage_bytes = 128, st_max_storage_bytes = 200\<rparr>, Stored)" for t
    by (simp add: start st_set_def insert_vacant_def with_max_storage_bytes_def reserve_bytes_def checked_add_def
        put_slot_def usize_size_def wrotations)
  then show "map_of (st_data (pr_storage wheld)) (id_bytes wkey) = Some (wrotated 1, pnow wheld)"
    "st_current_storage_bytes (pr_storage wheld) = 128" "st_max_storage_bytes (pr_storage wheld) = 200"
    "registers wheld wkey = Some (wrotated 1)"
    by (simp_all add: wheld_def registers_def get_default_None)
qed

lemma wother_storage:
  "st_inv 0 (pr_storage (en_yield wother wheld))" "registers (en_yield wother wheld) wkey = Some (wrotated 2)"
  "fits (id_bytes wkey) (wrotated 3) (pr_storage (en_yield wother wheld))"
proof -
  let ?st = "st_set (pnow wheld) (id_bytes wkey) (wrotated 2) (pr_storage wheld)"
  have "fits (id_bytes wkey) (wrotated 2) (pr_storage wheld)"
    by (simp add: fits_def extra_bytes_def wheld_storage wrotations)
  note stored = st_set_stored [OF wheld_storage(1) this]
  have p: "pr_storage (en_yield wother wheld) = fst ?st" "pnow (en_yield wother wheld) = pnow wheld"
    using wheld_storage(5) wrotations
    by (simp_all add: wother_def rpc_update_def registers_def silent_env_def Let_def case_prod_beta)
  show "st_inv 0 (pr_storage (en_yield wother wheld))" using p wheld_storage(1) by (simp add: st_set_inv)
  show "registers (en_yield wother wheld) wkey = Some (wrotated 2)" using p stored(1) by (simp add: registers_def)
  have "?st = (put_slot (id_bytes wkey) (wrotated 2) (pnow wheld) (pr_storage wheld), Stored)"
    using wrotations wheld_storage by (simp add: st_set_def replace_value_def Let_def reserve_bytes_def checked_add_def)
  then show "fits (id_bytes wkey) (wrotated 3) (pr_storage (en_yield wother wheld))"
    using p wheld_storage by (simp add: fits_def extra_bytes_def put_slot_def wrotations AList.update_conv)
qed

theorem update_overwrites_newer_record_witness:
  "registers (en_yield wother wheld) wkey = Some (wrotated 2) \<and>
   (case rpc_update wother wdeps3 (did_handler wdeps3 None) wheld (wid 8) wpeer wkey (wrotated 3) (replicate 64 1) of
      (p', ok) \<Rightarrow> ok \<and> registers p' wkey = Some (wrotated 3))"
  using update_overwrites_newer_record [OF wrotations(1) wheld_storage(5) wrotations(6,2) wother_storage(2) wrotations(4)
      wother_storage(1,3)] wother_storage(2) by simp

end
