(* ===== verification/PublishProps.thy ===== *)
theory PublishProps
  imports TransportProps
begin

text \<open>
  Properties of a publication: the replicas it chooses, how their answers add up to its outcome,
  and how long a record lives that is published again and again.
\<close>

subsection \<open>The responsible nodes\<close>

lemma dedup_by_id_sorted:
  assumes "sorted (map d ns)" "\<And>a b. d a = d b \<longleftrightarrow> nid a = nid b"
  shows "sorted_wrt (\<lambda>a b. d a < d b) (dedup_by_id ns)" "nid ` set (dedup_by_id ns) = nid ` set ns"
    "set (dedup_by_id ns) \<subseteq> set ns"
  using assms(1)
proof (induction ns rule: dedup_by_id.induct)
  case (3 n m ns)
  {
    case 1
    show ?case
    proof (cases "nid n = nid m")
      case False
      have "d n < d x" if "x \<in> set (dedup_by_id (m # ns))" for x
      proof -
        have "x \<in> set (m # ns)" using "3.IH"(6) [OF False] that 1 by auto
        then have "d n \<le> d m" "d m \<le> d x" "d n \<noteq> d m" using 1 assms(2) False by auto
        then show ?thesis by order
      qed
      then show ?thesis using "3.IH"(4) [OF False] 1 False by simp
    qed (use "3.IH"(1) 1 in simp)
  next
    case 2
    then show ?case using "3.IH"(2,5) by (cases "nid n = nid m") auto
  next
    case 3
    then show ?case using "3.IH"(3,6) by (cases "nid n = nid m") auto
  }
qed auto

lemma take_is_closest:
  assumes "sorted_wrt (\<lambda>a b. d a < d b) cs" "x \<in> set (take k cs)" "y \<in> set cs" "y \<notin> set (take k cs)"
  shows "d x < d y"
proof -
  have "y \<in> set (drop k cs)" using assms(3,4) by (metis Un_iff append_take_drop_id set_append)
  moreover have "sorted_wrt (\<lambda>a b. d a < d b) (take k cs @ drop k cs)" using assms(1) by simp
  ultimately show ?thesis using assms(2) unfolding sorted_wrt_append by blast
qed

text \<open>
  Property C15. A publication chooses the \<open>k\<close> nodes closest to the key among the node itself and
  those the lookup found, each once and in order of distance: they are \<open>min k\<close> of the number of
  candidates, and every candidate left out is farther away than every chosen one.
\<close>

theorem responsible_nodes_are_closest:
  fixes l t :: node
  defines "d \<equiv> \<lambda>n. distance_to n t"
  assumes "select_responsible_nodes l t remote k = (store_local, chosen)"
    and "picked = (if store_local then insert (nid l) (nid ` set chosen) else nid ` set chosen)"
  shows "set chosen \<subseteq> set remote \<and> distinct (map nid chosen) \<and> nid l \<notin> nid ` set chosen \<and> sorted (map d chosen) \<and>
    card picked = min k (card (insert (nid l) (nid ` set remote))) \<and>
    length chosen + (if store_local then 1 else 0) = card picked \<and>
    (\<forall>a \<in> insert l (set remote). \<forall>b \<in> insert l (set remote). nid a \<in> picked \<longrightarrow> nid b \<notin> picked \<longrightarrow> d a < d b)"
proof -
  define cs where "cs = dedup_by_id (sort_key d (remote @ [l]))"
  have d: "d a = d b \<longleftrightarrow> nid a = nid b" for a b
    using distance_to_eq_iff [of t a b] by (simp add: d_def distance_to_def xor.commute)
  have cs: "sorted_wrt (\<lambda>a b. d a < d b) cs" "nid ` set cs = insert (nid l) (nid ` set remote)" "set cs \<subseteq> insert l (set remote)"
    unfolding cs_def using dedup_by_id_sorted [of d "sort_key d (remote @ [l])"] d by auto
  define top where "top = take k cs"
  have sel: "store_local = list_ex (\<lambda>n. nid n = nid l) top" "chosen = filter (\<lambda>n. nid n \<noteq> nid l) top"
    using assms(2) by (simp_all add: select_responsible_nodes_def Let_def top_def cs_def d_def)
  have dist: "distinct (map nid cs)"
    using cs(1) d by (induction cs) (auto, metis less_irrefl)
  then have dist': "distinct (map nid top)" unfolding top_def by (metis distinct_take take_map)
  have picked: "picked = nid ` set top"
    using assms(3) sel by (auto simp: list_ex_iff image_iff; metis)
  have "card (insert (nid l) (nid ` set remote)) = length cs"
    using dist cs(2) by (metis distinct_card length_map set_map)
  moreover have "card picked = length top" using dist' picked by (metis distinct_card length_map set_map)
  ultimately have card: "card picked = min k (card (insert (nid l) (nid ` set remote)))"
    by (simp add: top_def)
  have chosen: "distinct (map nid chosen)" "nid l \<notin> nid ` set chosen" "set chosen \<subseteq> set remote" "sorted (map d chosen)"
  proof -
    show "distinct (map nid chosen)" "nid l \<notin> nid ` set chosen" using dist' sel by (auto simp: distinct_map_filter)
    show "set chosen \<subseteq> set remote" using sel cs(3) set_take_subset [of k cs] by (auto simp: top_def)
    have "sorted_wrt (\<lambda>a b. d a < d b) chosen"
      using cs(1) by (simp add: sel top_def sorted_wrt_filter sorted_wrt_take)
    then show "sorted (map d chosen)" by (simp add: sorted_map sorted_wrt_mono_rel [of _ "\<lambda>a b. d a < d b"])
  qed
  have "length chosen = card (nid ` set chosen)" using chosen(1) by (metis distinct_card length_map set_map)
  then have len: "length chosen + (if store_local then 1 else 0) = card picked" using assms(3) chosen(2) by simp
  have "d a < d b" if ab: "a \<in> insert l (set remote)" "b \<in> insert l (set remote)" "nid a \<in> picked" "nid b \<notin> picked" for a b
  proof -
    obtain a' where a': "a' \<in> set (take k cs)" "d a' = d a" using ab(3) picked d by (auto simp: top_def)
    have "nid b \<in> nid ` set cs" using cs(2) ab(2) by auto
    then obtain b' where b': "b' \<in> set cs" "nid b' = nid b" by auto
    then have "b' \<notin> set (take k cs)" "d b' = d b" using ab(4) picked d by (force simp: top_def)+
    with take_is_closest [OF cs(1) a'(1) b'(1)] a'(2) show ?thesis by simp
  qed
  then show ?thesis using chosen card len by blast
qed

theorem responsible_nodes_are_closest_witness:
  "select_responsible_nodes (wnode 2) (wnode 0) [wnode 9, wnode 1, wnode 9] 2 = (True, [wnode 1]) \<and>
   distance_to (wnode 2) (wnode 0) < distance_to (wnode 9) (wnode 0)"
proof -
  have "select_responsible_nodes (wnode 2) (wnode 0) [wnode 9, wnode 1, wnode 9] 2 = (True, [wnode 1])" by code_simp
  moreover have "nid (wnode 9) \<noteq> nid (wnode 1)" "nid (wnode 9) \<noteq> nid (wnode 2)" by code_simp+
  ultimately show ?thesis
    using responsible_nodes_are_closest [of "wnode 2" "wnode 0" "[wnode 9, wnode 1, wnode 9]" 2 True "[wnode 1]"
        "{nid (wnode 2), nid (wnode 1)}"] by auto
qed

subsection \<open>The outcome of a publication\<close>

definition answers_counted :: "set_report \<Rightarrow> nat" where
  "answers_counted r = acknowledged_replicas r + sr_capacity_rejections r + sr_conflict_rejections r +
     sr_invalid_rejections r + sr_unavailable_nodes r"

lemma record_status_counts:
  "answers_counted (record_status r s) = answers_counted r + 1"
  "sr_expected_replicas (record_status r s) = sr_expected_replicas r"
  "sr_unavailable_nodes r \<le> sr_unavailable_nodes (record_status r s)"
  by (simp_all add: record_status_def answers_counted_def acknowledged_replicas_def split: option.split store_status.split)

lemma record_statuses_count:
  "answers_counted (foldl record_status r ss) = answers_counted r + length ss \<and>
   sr_expected_replicas (foldl record_status r ss) = sr_expected_replicas r \<and>
   sr_unavailable_nodes r \<le> sr_unavailable_nodes (foldl record_status r ss)"
proof (induction ss arbitrary: r)
  case (Cons s ss)
  show ?case using record_status_counts [of r s] Cons.IH [of "record_status r s"] by (auto intro: le_trans)
qed simp

lemma classify_outcome: "outcome_report (classify_set_report r) = r"
  by (simp add: classify_set_report_def outcome_report_def Let_def)

text \<open>
  Property C17. The report of a publication counts every replica once: acknowledgements, refusals
  and silences add up to the chosen replicas, besides the nodes the lookup already knew to be
  silent. The outcome is Complete exactly when all chosen replicas acknowledged, there is at least
  one and the node is not cut off; a conflict or an invalid record is always a rejection; and a
  Degraded outcome means that some replica but not all acknowledged.
\<close>

theorem publication_outcome_exact:
  fixes p :: proto
  defines "known \<equiv> has_contacts (pr_router p) \<or> seeds p \<noteq> []"
  assumes "sv_protocol sv = Some p"
    and "select_responsible_nodes (sv_node sv) (from_id dkey) (lk_nodes lookup) (sv_ksize sv) = (store_local, remote)"
    and "n = length remote + (if store_local then 1 else 0)" "off = (if remote = [] \<and> known then 1 else 0)"
    and "set_digest_detailed E sv dkey record lookup = (sv', oc)" "r = outcome_report oc"
  shows "sr_expected_replicas r = n + off \<and> answers_counted r = n + max (lk_unresponsive lookup) off \<and>
    (oc = Complete r \<longleftrightarrow> acknowledged_replicas r = n \<and> 0 < n \<and> off = 0) \<and>
    (oc = Degraded r \<longleftrightarrow> 0 < acknowledged_replicas r \<and> acknowledged_replicas r < n + off \<and>
       sr_conflict_rejections r = 0 \<and> sr_invalid_rejections r = 0) \<and>
    (oc = Rejected ReplicaConflict r \<longleftrightarrow> 0 < sr_conflict_rejections r)"
proof -
  define base where "base = set_report_default\<lparr>sr_expected_replicas := n + off, sr_unavailable_nodes := max (lk_unresponsive lookup) off\<rparr>"
  obtain ss where oc: "oc = classify_set_report (foldl record_status base ss)" and len: "length ss = n"
  proof (cases store_local)
    case True
    let ?ins = "insert_if_absent (pnow p) (id_bytes dkey) record (pr_storage p)"
    let ?p1 = "p\<lparr>pr_storage := fst ?ins\<rparr>"
    let ?ss = "Some (from_write_status (snd ?ins)) #
      snd (join_all (en_done E ?p1) (\<lambda>p n. call_store_rpc E p n dkey record) ?p1 remote)"
    show ?thesis
      by (rule that [of ?ss])
        (use assms True in \<open>simp_all add: set_digest_detailed_def base_def Let_def case_prod_beta join_all_results ac_simps cong: if_cong\<close>)
  next
    case False
    let ?ss = "snd (join_all (en_done E p) (\<lambda>p n. call_store_rpc E p n dkey record) p remote)"
    show ?thesis
      by (rule that [of ?ss])
        (use assms False in \<open>simp_all add: set_digest_detailed_def base_def Let_def case_prod_beta join_all_results cong: if_cong\<close>)
  qed
  then have r: "r = foldl record_status base ss" using assms(7) by (simp add: classify_outcome)
  have total: "sr_expected_replicas r = n + off" "answers_counted r = n + max (lk_unresponsive lookup) off"
    "max (lk_unresponsive lookup) off \<le> sr_unavailable_nodes r"
    using record_statuses_count [of base ss] len
    by (simp_all add: r base_def answers_counted_def acknowledged_replicas_def set_report_default_def)
  then have most: "acknowledged_replicas r + sr_capacity_rejections r + sr_conflict_rejections r + sr_invalid_rejections r \<le> n"
    unfolding answers_counted_def by linarith
  have "oc = classify_set_report r" using oc r by simp
  with total(1,2) most show ?thesis by (auto simp: classify_set_report_def Let_def)
qed

text \<open>A node alone in its network publishes on itself: the outcome is complete with one replica.\<close>

theorem publication_outcome_exact_witness:
  "\<exists>sv' r. set_digest_detailed wenv wserver wkey wrecord empty_lookup = (sv', Complete r) \<and>
     sr_expected_replicas r = 1 \<and> answers_counted r = 1"
proof -
  have st: "pr_storage wstart = with_max_storage_bytes (- 1) 200" "pr_clock wstart = wclock" "pr_seeds wstart = []"
    "sv_node wserver = from_id (wid 1)" "sv_ksize wserver = 2" "sv_protocol wserver = Some wstart"
    by (simp_all add: wserver_def wstart_def node_start_def listen_protocol_def server_new_def protocol_new_def Let_def)
  have alone: "\<not> has_contacts (pr_router wstart)" by code_simp
  have "snd (insert_if_absent 0 (id_bytes wkey) wrecord (with_max_storage_bytes (- 1) 200)) = Stored"
    using wrecord_length
    by (simp add: insert_if_absent_def insert_vacant_def with_max_storage_bytes_def reserve_bytes_def checked_add_def usize_size_def)
  then have ack: "acknowledged_replicas (outcome_report (snd (set_digest_detailed wenv wserver wkey wrecord empty_lookup))) = 1"
    using wlonely(3) alone
    by (simp add: set_digest_detailed_def st wclock_def empty_lookup_def seeds_def Let_def case_prod_beta join_all_def
        run_ranked_def classify_outcome from_write_status_def record_status_def acknowledged_replicas_def set_report_default_def)
  obtain sv' oc where run: "set_digest_detailed wenv wserver wkey wrecord empty_lookup = (sv', oc)" by fastforce
  from publication_outcome_exact [OF st(6) _ _ _ run, of True "[]" 1 0] ack run wlonely(3) alone show ?thesis
    by (auto simp: st empty_lookup_def seeds_def)
qed

subsection \<open>Publishing again\<close>

text \<open>The same value stored at the times \<open>ts\<close>, after the expired records were pruned each time.\<close>

definition stored_again :: "bytes \<Rightarrow> bytes \<Rightarrow> instant list \<Rightarrow> storage \<Rightarrow> storage" where
  "stored_again k v ts s = foldl (\<lambda>s t. fst (insert_if_absent t k v (fst (prune_expired t s)))) s ts"

lemma stored_once_more:
  assumes "st_inv 0 s" "map_of (st_data s) k = Some (v, i)" "\<not> is_expired t s i"
  defines "s' \<equiv> fst (insert_if_absent t k v (fst (prune_expired t s)))"
  shows "st_inv 0 s'" "map_of (st_data s') k = Some (v, t)" "st_ttl s' = st_ttl s"
proof -
  obtain s1 c n where ret: "prune_retain t s = (s1, c, n)" by (metis prod_cases3)
  have p: "fst (prune_expired t s) = release_bytes n s1" by (simp add: prune_expired_def ret)
  have inv: "st_inv 0 (release_bytes n s1)" using release_inv [OF prune_retain_inv [OF assms(1) ret], of n] by simp
  then show "st_inv 0 s'" unfolding s'_def p by (rule insert_if_absent_inv)
  have data: "st_data s1 = filter (\<lambda>(k, v, i). \<not> is_expired t s i) (st_data s)" "st_ttl s1 = st_ttl s"
    using ret by (auto simp: prune_retain_def Let_def is_expired_def split: if_splits)
  have "map_of (st_data (release_bytes n s1)) k = Some (v, i)" "\<not> is_expired t (release_bytes n s1) i"
    using assms(1-3) data is_expired_cong [of "release_bytes n s1" s]
    by (simp_all add: st_inv_def map_of_filter_snd)
  then have "s' = put_slot k v t (release_bytes n s1)" unfolding s'_def p by (simp add: insert_if_absent_def)
  then show "map_of (st_data s') k = Some (v, t)" "st_ttl s' = st_ttl s" using data by (simp_all add: AList.update_conv)
qed

lemma stored_again_renews:
  assumes "st_inv 0 s" "map_of (st_data s) k = Some (v, t0)" "st_ttl s = n" "n \<noteq> - 1"
    and "list_all (\<lambda>(a, b). b - a \<le> secs (nat (n mod 2 ^ 64))) (zip (t0 # ts) ts)"
  shows "map_of (st_data (stored_again k v ts s)) k = Some (v, last (t0 # ts)) \<and> st_ttl (stored_again k v ts s) = n"
  using assms
proof (induction ts arbitrary: s t0)
  case (Cons t ts)
  have "\<not> is_expired t s t0" using Cons.prems(3-5) by (simp add: is_expired_def)
  note again = stored_once_more [OF Cons.prems(1,2) this]
  from Cons.IH [OF again(1,2)] again(3) Cons.prems(3-5) show ?case by (simp add: stored_again_def)
qed (simp add: stored_again_def)

text \<open>
  Property C30. A record that is stored again before it expires does not expire: an identical STORE,
  such as the hourly republication by another node, starts the life of the record anew. Whatever
  the number of times, the record is readable until the time to live has passed since the last one,
  and no longer.
\<close>

theorem republication_renews:
  fixes s :: storage
  defines "ttl \<equiv> secs (nat (st_ttl s mod 2 ^ 64))"
  assumes "st_inv 0 s" "map_of (st_data s) k = Some (v, t0)" "st_ttl s \<noteq> - 1"
    and "list_all (\<lambda>(a, b). b - a \<le> ttl) (zip (t0 # ts) ts)"
  shows "st_get now k (stored_again k v ts s) = (if now - last (t0 # ts) \<le> ttl then Some v else None)"
  using stored_again_renews [OF assms(2,3) _ assms(4), of ts] assms(4,5)
  unfolding get_default_None is_expired_def ttl_def by auto

theorem republication_renews_witness:
  "st_get (secs 150) [1] (stored_again [1] [2, 3] [secs 50, secs 100] wstore) = Some [2, 3]"
  using republication_renews [OF wstore_inv, of "[1]" "[2, 3]" 0 "[secs 50, secs 100]" "secs 150"]
  by (simp add: wstore_eq secs_def)

end
