(* ===== verification/Topology.thy ===== *)
theory Topology
  imports NodeRuns "HOL-Library.List_Lexorder"
begin

text \<open>
  The diagnostics of \<open>src/examples/topology_analysis.rs\<close>: replica counts, placement of the
  replicas, the structure of the routing tables and the exactness of local lookups, over the servers
  of a cluster. Printing, the wall clock and the two phases that fill the cluster are left out, as
  is the convergence heuristic, which compares floating point numbers; its verdict is an argument.
  \<open>hex\<close> is the function of the crate of that name.
\<close>

subsection \<open>Reports\<close>

datatype check_status = Check_Pass | Check_Warn | Check_Fail

record replication_report =
  rp_records :: nat
  rp_zero_copies :: nat
  rp_under_replicated :: nat
  rp_exact_replicas :: nat
  rp_over_replicated :: nat
  rp_min_copies :: nat
  rp_max_copies :: nat

record placement_report =
  pl_records :: nat
  pl_full :: nat
  pl_partial :: nat
  pl_none :: nat
  pl_with_extras :: nat

record local_top_k_report =
  tk_queries :: nat
  tk_mismatches :: nat

record bucket_report =
  br_nodes :: nat
  br_buckets :: nat
  br_peers :: nat
  br_violations :: nat

type_synonym cluster = "(server \<times> u16) list"
type_synonym holders = "(bytes \<times> u16 list) list"

subsection \<open>Where the records are\<close>

definition holders_of :: "holders \<Rightarrow> bytes \<Rightarrow> u16 list" where
  "holders_of key_holders key = (case map_of key_holders key of None \<Rightarrow> [] | Some ports \<Rightarrow> ports)"

definition collect_storage_layout :: "(bytes \<Rightarrow> bytes) \<Rightarrow> cluster \<Rightarrow> holders" where
  "collect_storage_layout hex nodes =
     foldl (\<lambda>key_holders (sv, port).
         foldl (\<lambda>kh key. AList.update key (holders_of kh key @ [port]) kh) key_holders
           (sort (map (\<lambda>(k, _). hex k) (iter_all (server_now sv) (server_storage sv)))))
       [] nodes"

definition count_replicas :: "nat \<Rightarrow> replication_report \<Rightarrow> nat \<Rightarrow> replication_report" where
  "count_replicas ksize r copies =
     (let r1 = r\<lparr>rp_min_copies := min (rp_min_copies r) copies, rp_max_copies := max (rp_max_copies r) copies\<rparr> in
      if copies < ksize then
        (let r2 = r1\<lparr>rp_under_replicated := rp_under_replicated r1 + 1\<rparr>
         in if copies = 0 then r2\<lparr>rp_zero_copies := rp_zero_copies r2 + 1\<rparr> else r2)
      else if copies = ksize then r1\<lparr>rp_exact_replicas := rp_exact_replicas r1 + 1\<rparr>
      else r1\<lparr>rp_over_replicated := rp_over_replicated r1 + 1\<rparr>)"

definition print_replication_summary :: "holders \<Rightarrow> bytes list \<Rightarrow> nat \<Rightarrow> replication_report" where
  "print_replication_summary key_holders expected_keys ksize =
     (let keys = sort expected_keys;
          r = foldl (\<lambda>r key. count_replicas ksize r (length (holders_of key_holders key)))
                \<lparr>rp_records = length keys, rp_zero_copies = 0, rp_under_replicated = 0, rp_exact_replicas = 0,
                 rp_over_replicated = 0, rp_min_copies = usize_size - 1, rp_max_copies = 0\<rparr> keys
      in if rp_records r = 0 then r\<lparr>rp_min_copies := 0\<rparr> else r)"

text \<open>The identifiers of the cluster differ, so the order among equal distances does not matter.\<close>

definition closest_ports :: "cluster \<Rightarrow> node_id \<Rightarrow> nat \<Rightarrow> u16 list" where
  "closest_ports nodes dkey ksize =
     (let by_distance = sort_key fst
            (map (\<lambda>(sv, port). (distance_to (from_id (nid (sv_node sv))) (from_id dkey), port)) nodes)
      in map snd (take ksize by_distance))"

definition place_record ::
    "(bytes \<Rightarrow> bytes) \<Rightarrow> 'j deps \<Rightarrow> cluster \<Rightarrow> holders \<Rightarrow> nat \<Rightarrow> placement_report \<Rightarrow> bytes \<Rightarrow> placement_report" where
  "place_record hex D nodes key_holders ksize r key =
     (let dkey = digest D key;
          holders = holders_of key_holders (hex (id_bytes dkey));
          closest = closest_ports nodes dkey ksize;
          holding = filter (\<lambda>port. port \<in> set holders) closest;
          missing = filter (\<lambda>port. port \<notin> set holders) closest;
          extras = filter (\<lambda>port. port \<notin> set closest) holders;
          r1 = (if missing = [] then r\<lparr>pl_full := pl_full r + 1\<rparr>
                else if holding = [] then r\<lparr>pl_none := pl_none r + 1\<rparr>
                else r\<lparr>pl_partial := pl_partial r + 1\<rparr>)
      in if extras \<noteq> [] then r1\<lparr>pl_with_extras := pl_with_extras r1 + 1\<rparr> else r1)"

definition verify_global_replica_placement ::
    "(bytes \<Rightarrow> bytes) \<Rightarrow> 'j deps \<Rightarrow> cluster \<Rightarrow> bytes list \<Rightarrow> holders \<Rightarrow> nat \<Rightarrow> placement_report" where
  "verify_global_replica_placement hex D nodes published key_holders ksize =
     foldl (place_record hex D nodes key_holders ksize)
       \<lparr>pl_records = length published, pl_full = 0, pl_partial = 0, pl_none = 0, pl_with_extras = 0\<rparr> published"

subsection \<open>Routing tables\<close>

definition inspect_peer :: "routing_table \<Rightarrow> kbucket \<Rightarrow> nat \<times> node_id set \<Rightarrow> node \<Rightarrow> nat \<times> node_id set" where
  "inspect_peer rt b = (\<lambda>(violations, seen) peer.
     let v1 = (if \<not> kbucket_covers b (long_id peer) then violations + 1 else violations);
         v2 = (if nid peer = nid (rt_node rt) then v1 + 1 else v1);
         v3 = (if nid peer \<in> seen then v2 + 1 else v2)
     in (v3, insert (nid peer) seen))"

definition inspect_bucket ::
    "nat \<Rightarrow> routing_table \<Rightarrow> nat \<times> node_id set \<times> u256 \<Rightarrow> kbucket \<Rightarrow> nat \<times> node_id set \<times> u256" where
  "inspect_bucket ksize rt = (\<lambda>(violations, seen, expected_start) b.
     let (lo, hi) = bk_range b;
         v1 = (if lo \<noteq> expected_start then violations + 1 else violations);
         v2 = (if hi < lo then v1 + 1 else v1);
         v3 = (if length (bk_nodes b) > ksize then v2 + 1 else v2);
         (v4, seen') = foldl (inspect_peer rt b) (v3, seen) (bk_nodes b)
     in (v4, seen', if hi < snd full_keyspace then hi + 1 else expected_start))"

definition inspect_node :: "nat \<Rightarrow> bucket_report \<Rightarrow> server \<times> u16 \<Rightarrow> bucket_report" where
  "inspect_node ksize r = (\<lambda>(sv, port).
     case sv_protocol sv of
       None \<Rightarrow> r\<lparr>br_violations := br_violations r + 1\<rparr>
     | Some p \<Rightarrow>
         (let rt = pr_router p;
              buckets = rt_buckets rt;
              r1 = r\<lparr>br_nodes := br_nodes r + 1, br_buckets := br_buckets r + length buckets,
                     br_peers := br_peers r + sum_list (map (\<lambda>b. length (bk_nodes b)) buckets)\<rparr>
          in if buckets = [] then r1\<lparr>br_violations := br_violations r1 + 1\<rparr>
             else
               (let (v, _, _) = foldl (inspect_bucket ksize rt) (br_violations r1, {}, 0) buckets
                in r1\<lparr>br_violations := (if snd (bk_range (last buckets)) \<noteq> snd full_keyspace then v + 1 else v)\<rparr>)))"

definition inspect_bucket_structure :: "cluster \<Rightarrow> nat \<Rightarrow> bucket_report" where
  "inspect_bucket_structure nodes ksize =
     foldl (inspect_node ksize) \<lparr>br_nodes = 0, br_buckets = 0, br_peers = 0, br_violations = 0\<rparr> nodes"

subsection \<open>Local lookups\<close>

definition expected_top_k :: "routing_table \<Rightarrow> node \<Rightarrow> nat \<Rightarrow> node list" where
  "expected_top_k rt target ksize =
     take ksize (sort_key (\<lambda>peer. distance_to peer target)
       (filter (\<lambda>peer. nid peer \<noteq> nid target) (concat (map bk_nodes (rt_buckets rt)))))"

definition check_top_k ::
    "nat \<Rightarrow> nat \<Rightarrow> routing_table \<times> local_top_k_report \<Rightarrow> node \<Rightarrow> routing_table \<times> local_top_k_report" where
  "check_top_k now_s ksize = (\<lambda>(rt, r) target.
     let expected = expected_top_k rt target ksize;
         (rt1, actual) = find_neighbors now_s rt target None;
         r1 = r\<lparr>tk_queries := tk_queries r + 1\<rparr>
     in (rt1, if map nid actual \<noteq> map nid expected then r1\<lparr>tk_mismatches := tk_mismatches r1 + 1\<rparr> else r1))"

definition check_node_top_k :: "nat \<Rightarrow> node list \<Rightarrow> local_top_k_report \<Rightarrow> server \<times> u16 \<Rightarrow> local_top_k_report" where
  "check_node_top_k ksize targets r = (\<lambda>(sv, port).
     case sv_protocol sv of
       None \<Rightarrow> r
     | Some p \<Rightarrow> snd (foldl (check_top_k (ck_secs (pr_clock p)) ksize) (pr_router p, r) targets))"

definition verify_local_top_k :: "'j deps \<Rightarrow> cluster \<Rightarrow> bytes list \<Rightarrow> nat \<Rightarrow> local_top_k_report" where
  "verify_local_top_k D nodes published ksize =
     foldl (check_node_top_k ksize (map (\<lambda>key. from_id (digest D key)) published))
       \<lparr>tk_queries = 0, tk_mismatches = 0\<rparr> nodes"

subsection \<open>The verdict\<close>

definition set_status :: "nat \<Rightarrow> check_status" where
  "set_status set_fail = (if set_fail = 0 then Check_Pass else Check_Fail)"

definition get_status :: "nat \<Rightarrow> nat \<Rightarrow> nat \<Rightarrow> nat \<Rightarrow> check_status" where
  "get_status get_fail get_corrupt get_ok set_ok =
     (if get_fail = 0 \<and> get_corrupt = 0 \<and> get_ok = set_ok then Check_Pass else Check_Fail)"

definition replication_status :: "replication_report \<Rightarrow> check_status" where
  "replication_status r =
     (if rp_zero_copies r > 0 then Check_Fail
      else if rp_under_replicated r > 0 \<or> rp_over_replicated r > 0 then Check_Warn else Check_Pass)"

definition placement_status :: "placement_report \<Rightarrow> check_status" where
  "placement_status r =
     (if pl_none r > 0 then Check_Fail
      else if pl_partial r > 0 \<or> pl_with_extras r > 0 then Check_Warn else Check_Pass)"

definition bucket_status :: "bucket_report \<Rightarrow> check_status" where
  "bucket_status r = (if br_violations r = 0 then Check_Pass else Check_Fail)"

definition local_top_k_status :: "local_top_k_report \<Rightarrow> check_status" where
  "local_top_k_status r = (if tk_mismatches r = 0 then Check_Pass else Check_Fail)"

datatype overall = Failed | Passed_With_Warnings | Passed

definition overall_result :: "check_status list \<Rightarrow> overall" where
  "overall_result statuses =
     (if Check_Fail \<in> set statuses then Failed
      else if Check_Warn \<in> set statuses then Passed_With_Warnings else Passed)"

subsection \<open>The routing tables of a node pass\<close>

lemma inspect_peers_ok:
  assumes "list_all (\<lambda>n. kbucket_covers b (long_id n) \<and> nid n \<noteq> nid (rt_node rt)) ns"
    and "distinct (map nid ns)" "known \<inter> nid ` set ns = {}"
  shows "foldl (inspect_peer rt b) (v, known) ns = (v, known \<union> nid ` set ns)"
  using assms by (induction ns arbitrary: known) (auto simp: inspect_peer_def)

lemma inspect_buckets_ok:
  assumes "tiles lo (map bk_range bs) (snd full_keyspace)"
    and "\<And>b n. b \<in> set bs \<Longrightarrow> length (bk_nodes b) \<le> k \<and>
      list_all (\<lambda>n. kbucket_covers b (long_id n) \<and> nid n \<noteq> nid (rt_node rt)) (bk_nodes b)"
    and "distinct (map nid (concat (map bk_nodes bs)))" "known \<inter> nid ` set (concat (map bk_nodes bs)) = {}"
  shows "fst (foldl (inspect_bucket k rt) (v, known, lo) bs) = v"
  using assms
proof (induction bs arbitrary: lo known)
  case (Cons b bs)
  obtain lo' hi where r: "bk_range b = (lo', hi)" by fastforce
  have peers: "foldl (inspect_peer rt b) (v, known) (bk_nodes b) = (v, known \<union> nid ` set (bk_nodes b))"
    using Cons.prems(2) [of b] Cons.prems(3,4) by (intro inspect_peers_ok) auto
  have range_ok: "lo' = lo" "\<not> hi < lo'" using Cons.prems(1) r by (cases bs; simp add: not_less)+
  have len: "\<not> length (bk_nodes b) > k" using Cons.prems(2) [of b] by simp
  show ?case
  proof (cases "bs = []")
    case True
    then show ?thesis using peers range_ok len r by (simp add: inspect_bucket_def)
  next
    case False
    then have t: "hi < snd full_keyspace" "tiles (hi + 1) (map bk_range bs) (snd full_keyspace)"
      using Cons.prems(1) r by (cases bs; simp)+
    have "inspect_bucket k rt (v, known, lo) b = (v, known \<union> nid ` set (bk_nodes b), hi + 1)"
      using peers range_ok len r t(1) by (simp add: inspect_bucket_def)
    moreover have "distinct (map nid (concat (map bk_nodes bs)))" using Cons.prems(3) by simp
    moreover have "(known \<union> nid ` set (bk_nodes b)) \<inter> nid ` set (concat (map bk_nodes bs)) = {}"
      using Cons.prems(3,4) by (simp add: Int_Un_distrib Int_Un_distrib2 image_Un)
    ultimately show ?thesis using Cons.IH [OF t(2) Cons.prems(2)] by simp
  qed
qed simp

lemma tiles_last: "tiles lo rs hi \<Longrightarrow> snd (last rs) = hi"
  by (induction lo rs hi rule: tiles.induct) auto

lemma inspect_node_ok:
  assumes "sv_protocol sv = Some p" "rt_inv (pr_router p)" "rt_ksize (pr_router p) = k"
  shows "br_violations (inspect_node k r (sv, port)) = br_violations r" "br_nodes (inspect_node k r (sv, port)) = br_nodes r + 1"
proof -
  let ?rt = "pr_router p"
  have max: "snd full_keyspace = 2 ^ 160 - 1" by (simp add: full_keyspace_eq)
  have t: "tiles 0 (map bk_range (rt_buckets ?rt)) (snd full_keyspace)" using rt_invD(1) [OF assms(2)] unfolding max .
  then have ne: "rt_buckets ?rt \<noteq> []" by auto
  then have last: "snd (bk_range (last (rt_buckets ?rt))) = snd full_keyspace"
    using tiles_last [OF t] by (simp add: last_map)
  have b: "length (bk_nodes b) \<le> k \<and> list_all (\<lambda>n. kbucket_covers b (long_id n) \<and> nid n \<noteq> nid (rt_node ?rt)) (bk_nodes b)"
    if "b \<in> set (rt_buckets ?rt)" for b
  proof -
    have "nid n \<noteq> nid (rt_node ?rt)" if "n \<in> set (bk_nodes b)" for n
      using that rt_invD(3) [OF assms(2) \<open>b \<in> _\<close>] by (metis UnI1 bucket_ids_def image_eqI)
    then show ?thesis using bucket_invD(3,8) [OF rt_invD(2) [OF assms(2) that]] assms(3) by (auto simp: list_all_iff)
  qed
  have "distinct (map nid (concat (map bk_nodes (rt_buckets ?rt))))"
    using primaries_distinct [OF assms(2)] by (simp add: primaries_def)
  then have "fst (foldl (inspect_bucket k ?rt) (v, {}, 0) (rt_buckets ?rt)) = v" for v
    by (intro inspect_buckets_ok [OF t b]) auto
  then show "br_violations (inspect_node k r (sv, port)) = br_violations r" "br_nodes (inspect_node k r (sv, port)) = br_nodes r + 1"
    using assms(1) ne last by (simp_all add: inspect_node_def Let_def case_prod_beta)
qed

text \<open>The servers of a cluster, all with the same \<open>k\<close> and in a state a run reaches.\<close>

definition running :: "world \<Rightarrow> 'j deps \<Rightarrow> bytes option \<Rightarrow> bytes set \<Rightarrow> nat \<Rightarrow> server \<Rightarrow> bool" where
  "running W D issuer S k sv \<longleftrightarrow> (\<exists>p. sv_protocol sv = Some p \<and> reached W D issuer S p \<and> pr_ksize p = k)"

lemma running_table:
  assumes "running W D issuer S k sv" "inj_on (sha256 D) S"
  obtains p where "sv_protocol sv = Some p" "rt_inv (pr_router p)" "rt_ksize (pr_router p) = k"
  using assms reached_inv [of W D issuer S] unfolding running_def node_inv_def table_ok_def by metis

text \<open>
  Property C25. The diagnostic of the bucket structure never raises an alarm on a running cluster:
  whatever the nodes received and did before, it inspects every node and finds no gap or overlap in
  the key space, no misplaced, duplicate or own contact and no bucket above \<open>k\<close>.
\<close>

theorem bucket_structure_always_passes:
  assumes "inj_on (sha256 D) S" "list_all (\<lambda>(sv, _). running W D issuer S ksize sv) nodes"
  shows "br_violations (inspect_bucket_structure nodes ksize) = 0 \<and>
    br_nodes (inspect_bucket_structure nodes ksize) = length nodes \<and>
    bucket_status (inspect_bucket_structure nodes ksize) = Check_Pass"
proof -
  have "br_violations (foldl (inspect_node ksize) r nodes) = br_violations r \<and>
    br_nodes (foldl (inspect_node ksize) r nodes) = br_nodes r + length nodes" for r
    using assms(2)
  proof (induction nodes arbitrary: r)
    case (Cons n nodes)
    obtain sv port where n: "n = (sv, port)" by fastforce
    then have "running W D issuer S ksize sv" using Cons.prems by simp
    then obtain p where "sv_protocol sv = Some p" "rt_inv (pr_router p)" "rt_ksize (pr_router p) = ksize"
      using assms(1) by (rule running_table)
    from inspect_node_ok [OF this] show ?case using Cons n by simp
  qed simp
  then show ?thesis by (simp add: inspect_bucket_structure_def bucket_status_def)
qed

subsection \<open>Local lookups are exact while no contact is failing\<close>

lemma find_neighbors_health [simp]: "rt_health (fst (find_neighbors t rt target ex)) = rt_health rt"
  by (simp add: find_neighbors_def closest_def case_prod_beta Let_def)

definition no_failing :: "routing_table \<Rightarrow> bool" where
  "no_failing rt \<longleftrightarrow> list_all (\<lambda>n. \<not> has_failures rt (nid n)) (primaries rt)"

lemma find_neighbors_all:
  assumes "rt_inv rt" "no_failing rt"
  shows "snd (find_neighbors t rt target None) = expected_top_k rt target (rt_ksize rt)"
proof -
  have "eligible rt target None (lookup_tier rt target None) = eligible rt target None (\<lambda>_. True)"
    using assms(2) by (auto simp: eligible_def lookup_tier_def no_failing_def list_all_iff is_stale_def has_failures_def
        intro!: filter_cong split: option.splits)
  moreover have "(\<lambda>peer. distance_to peer target) = distance_to target"
    by (simp add: fun_eq_iff distance_to_def xor.commute)
  ultimately show ?thesis
    using find_neighbors_tier(1) [OF assms(1)] by (simp add: expected_top_k_def eligible_def primaries_def)
qed

lemma check_top_k_ok:
  assumes "rt_inv rt" "no_failing rt" "rt_ksize rt = k"
  shows "snd (foldl (check_top_k t k) (rt, r) targets) = r\<lparr>tk_queries := tk_queries r + length targets\<rparr>"
  using assms
proof (induction targets arbitrary: rt r)
  case (Cons target targets)
  let ?rt = "fst (find_neighbors t rt target None)"
  have "rt_inv ?rt" "primaries ?rt = primaries rt" using find_neighbors_tier(2,3) [OF Cons.prems(1)] by auto
  moreover from this(2) have "no_failing ?rt" using Cons.prems(2) by (simp add: no_failing_def has_failures_def)
  ultimately show ?case
    using Cons.IH [of ?rt] find_neighbors_all [OF Cons.prems(1,2)] Cons.prems(3)
    by (simp add: check_top_k_def Let_def case_prod_beta)
qed simp

text \<open>
  On a running cluster in which no contact is failing, the exhaustive comparison of
  the local lookups finds no mismatch, whatever the published keys.
\<close>

theorem local_top_k_passes:
  assumes "inj_on (sha256 D) S"
    and "list_all (\<lambda>(sv, _). running W D issuer S ksize sv \<and> no_failing (pr_router (the (sv_protocol sv)))) nodes"
  shows "verify_local_top_k D nodes published ksize = \<lparr>tk_queries = length nodes * length published, tk_mismatches = 0\<rparr>"
proof -
  let ?ts = "map (\<lambda>key. from_id (digest D key)) published"
  have "foldl (check_node_top_k ksize ?ts) r nodes = r\<lparr>tk_queries := tk_queries r + length nodes * length published\<rparr>" for r
    using assms(2)
  proof (induction nodes arbitrary: r)
    case (Cons n nodes)
    obtain sv port where n: "n = (sv, port)" by fastforce
    then have "running W D issuer S ksize sv" using Cons.prems by simp
    then obtain p where p: "sv_protocol sv = Some p" "rt_inv (pr_router p)" "rt_ksize (pr_router p) = ksize"
      using assms(1) by (rule running_table)
    then have "no_failing (pr_router p)" using Cons.prems n by simp
    from check_top_k_ok [OF p(2) this p(3)] show ?case using Cons n p(1) by (simp add: check_node_top_k_def)
  qed simp
  then show ?thesis by (simp add: verify_local_top_k_def)
qed

text \<open>
  With a failing contact it reports a mismatch although the lookup is right: the failing contact
  is closest, so it is expected, and the lookup leaves it out.
\<close>

definition wfailing :: routing_table where
  "wfailing = (set_min_lookup_contacts (rt_new 0 (wnode 0) 2) 1)
     \<lparr>rt_buckets := [(kbucket_new 0 full_keyspace 2)\<lparr>bk_nodes := [wnode 128, wnode 129]\<rparr>],
      rt_health := [nid (wnode 129) \<mapsto> \<lparr>ch_failures = 1, ch_first_failure = 0, ch_retry_after = 5\<rparr>]\<rparr>"

lemma failing_contact_reported:
  "snd (find_neighbors 0 wfailing (wnode 131) None) = [wnode 128]"
  "tk_mismatches (snd (check_top_k 0 2 (wfailing, \<lparr>tk_queries = 0, tk_mismatches = 0\<rparr>) (wnode 131))) = 1"
  by code_simp+

subsection \<open>A cluster of one node\<close>

lemma wserver_running: "running wworld wdeps None wset 2 wserver"
proof -
  have "reached wworld wdeps None wset wstart"
    unfolding reached_def wstart_def using wstart_empty_storage by (metis node_runs.stay)
  then show ?thesis
    by (simp add: running_def wserver_def wstart_def node_start_def listen_protocol_def server_new_def protocol_new_def Let_def)
qed

theorem bucket_structure_always_passes_witness:
  "br_violations (inspect_bucket_structure [(wserver, 4000)] 2) = 0 \<and>
   br_nodes (inspect_bucket_structure [(wserver, 4000)] 2) = 1"
  using bucket_structure_always_passes [of wdeps wset wworld None 2 "[(wserver, 4000)]"] wserver_running by simp

theorem local_top_k_passes_witness:
  "verify_local_top_k wdeps [(wserver, 4000)] [wdoc] 2 = \<lparr>tk_queries = 1, tk_mismatches = 0\<rparr>"
proof -
  have "sv_protocol wserver = Some wstart" "no_failing (pr_router wstart)"
    by (simp_all add: wserver_def wstart_def node_start_def listen_protocol_def server_new_def protocol_new_def Let_def
        no_failing_def set_min_lookup_contacts_def rt_new_def has_failures_def primaries_def kbucket_new_def)
  then show ?thesis
    using local_top_k_passes [of wdeps wset wworld None 2 "[(wserver, 4000)]" "[wdoc]"] wserver_running by simp
qed

end
