(* ===== verification/KeyManager.thy ===== *)
theory KeyManager
  imports Auth
begin

text \<open>
  Key managers (\<open>src/src/crypto/key_manager.rs\<close>): key pairs are generated by the cryptographic
  crates, kept in files and read back. The generators are arguments. Files are a map from the text
  of their path; the operating system may refuse to open a file for reading or for writing. A write
  that fails half way is not modelled.
\<close>

subsection \<open>Files\<close>

type_synonym path = bytes

record file_system =
  fs_files :: "path \<rightharpoonup> bytes"
  fs_unreadable :: "path \<Rightarrow> bool"
  fs_unwritable :: "path \<Rightarrow> bool"

text \<open>\<open>PathBuf::join\<close>: an absolute path replaces the base.\<close>

definition path_join :: "path \<Rightarrow> path \<Rightarrow> path" where
  "path_join base p =
     (if p \<noteq> [] \<and> hd p = 47 then p
      else if base = [] \<or> last base = 47 then base @ p
      else base @ 47 # p)"

datatype key_manager_error =
  NotFound bytes | AlreadyExists bytes | InvalidSecurityLevel nat | CryptoError verifier_error | Io

definition write_key :: "file_system \<Rightarrow> path \<Rightarrow> bytes \<Rightarrow> key_manager_error + file_system" where
  "write_key fs path data =
     (if fs_unwritable fs path then Inl Io else Inr (fs\<lparr>fs_files := (fs_files fs)(path \<mapsto> data)\<rparr>))"

definition read_key :: "file_system \<Rightarrow> path \<Rightarrow> bytes \<Rightarrow> key_manager_error + bytes" where
  "read_key fs path key_name =
     (case (if fs_unreadable fs path then None else fs_files fs path) of
        None \<Rightarrow> Inl (NotFound key_name)
      | Some data \<Rightarrow> Inr data)"

text \<open>The decimal text of a security level.\<close>

fun decimal_text :: "nat \<Rightarrow> bytes" where
  "decimal_text n = (if n < 10 then [word_of_nat (48 + n)] else decimal_text (n div 10) @ [word_of_nat (48 + n mod 10)])"

declare decimal_text.simps [simp del]

definition of_crypto :: "verifier_error + 'a \<Rightarrow> key_manager_error + 'a" where
  "of_crypto r = (case r of Inl e \<Rightarrow> Inl (CryptoError e) | Inr x \<Rightarrow> Inr x)"

subsection \<open>Dilithium\<close>

record dilithium_key_manager =
  dk_keys_dir :: path
  dk_security_level :: nat

definition dilithium_km_new :: "path \<Rightarrow> nat \<Rightarrow> dilithium_key_manager" where
  "dilithium_km_new keys_dir security_level = \<lparr>dk_keys_dir = keys_dir, dk_security_level = security_level\<rparr>"

definition dilithium_km_sign :: "'j deps \<Rightarrow> bytes \<Rightarrow> bytes \<Rightarrow> key_manager_error + bytes" where
  "dilithium_km_sign D private_key message = of_crypto (dilithium_sign D private_key message)"

definition dilithium_km_verify_signature :: "'j deps \<Rightarrow> bytes \<Rightarrow> bytes \<Rightarrow> bytes \<Rightarrow> key_manager_error + bool" where
  "dilithium_km_verify_signature D public_key message signature =
     of_crypto (dilithium_verify D public_key signature message)"

text \<open>\<open>keypair level\<close> is the pair the module of that level of \<open>pqcrypto\<close> generates.\<close>

definition dilithium_generate_keypair ::
    "(nat \<Rightarrow> bytes \<times> bytes) \<Rightarrow> dilithium_key_manager \<Rightarrow> key_manager_error + bytes \<times> bytes" where
  "dilithium_generate_keypair keypair m =
     (if dk_security_level m \<in> {2, 3, 5} then Inr (keypair (dk_security_level m))
      else Inl (InvalidSecurityLevel (dk_security_level m)))"

definition dilithium_store_public_key ::
    "dilithium_key_manager \<Rightarrow> file_system \<Rightarrow> bytes \<Rightarrow> bytes \<Rightarrow> key_manager_error + file_system" where
  "dilithium_store_public_key m fs key_name public_key =
     write_key fs (path_join (dk_keys_dir m) (key_name @ lit ''.public'')) public_key"

definition dilithium_store_private_key ::
    "dilithium_key_manager \<Rightarrow> file_system \<Rightarrow> bytes \<Rightarrow> bytes \<Rightarrow> key_manager_error + file_system" where
  "dilithium_store_private_key m fs key_name private_key =
     write_key fs (path_join (dk_keys_dir m) (key_name @ lit ''.private'')) private_key"

definition dilithium_get_public_key ::
    "dilithium_key_manager \<Rightarrow> file_system \<Rightarrow> bytes \<Rightarrow> key_manager_error + bytes" where
  "dilithium_get_public_key m fs key_name =
     read_key fs (path_join (dk_keys_dir m) (key_name @ lit ''.public'')) key_name"

definition dilithium_get_private_key ::
    "dilithium_key_manager \<Rightarrow> file_system \<Rightarrow> bytes \<Rightarrow> key_manager_error + bytes" where
  "dilithium_get_private_key m fs key_name =
     read_key fs (path_join (dk_keys_dir m) (key_name @ lit ''.private'')) key_name"

text \<open>\<open>b64\<close> is the encoder of the base64 crate.\<close>

definition dilithium_get_jose_format ::
    "(bytes \<Rightarrow> bytes) \<Rightarrow> dilithium_key_manager \<Rightarrow> bytes \<Rightarrow> (bytes \<times> bytes) list" where
  "dilithium_get_jose_format b64 m public_key =
     [(lit ''kty'', lit ''MLWE''), (lit ''alg'', lit ''CRYDI'' @ decimal_text (dk_security_level m)),
      (lit ''x'', b64 public_key)]"

subsection \<open>Kyber\<close>

record kyber_key_manager =
  ky_keys_dir :: path
  ky_security_level :: nat

definition kyber_km_new :: "path \<Rightarrow> nat \<Rightarrow> kyber_key_manager" where
  "kyber_km_new keys_dir security_level = \<lparr>ky_keys_dir = keys_dir, ky_security_level = security_level\<rparr>"

definition kyber_generate_keypair ::
    "(nat \<Rightarrow> bytes \<times> bytes) \<Rightarrow> kyber_key_manager \<Rightarrow> key_manager_error + bytes \<times> bytes" where
  "kyber_generate_keypair keypair m =
     (if ky_security_level m \<in> {512, 768, 1024} then Inr (keypair (ky_security_level m))
      else Inl (InvalidSecurityLevel (ky_security_level m)))"

definition kyber_store_public_key ::
    "kyber_key_manager \<Rightarrow> file_system \<Rightarrow> bytes \<Rightarrow> bytes \<Rightarrow> key_manager_error + file_system" where
  "kyber_store_public_key m fs key_name public_key =
     write_key fs (path_join (ky_keys_dir m) (key_name @ lit ''.public'')) public_key"

definition kyber_store_private_key ::
    "kyber_key_manager \<Rightarrow> file_system \<Rightarrow> bytes \<Rightarrow> bytes \<Rightarrow> key_manager_error + file_system" where
  "kyber_store_private_key m fs key_name private_key =
     write_key fs (path_join (ky_keys_dir m) (key_name @ lit ''.private'')) private_key"

definition kyber_get_public_key ::
    "kyber_key_manager \<Rightarrow> file_system \<Rightarrow> bytes \<Rightarrow> key_manager_error + bytes" where
  "kyber_get_public_key m fs key_name =
     read_key fs (path_join (ky_keys_dir m) (key_name @ lit ''.public'')) key_name"

definition kyber_get_private_key ::
    "kyber_key_manager \<Rightarrow> file_system \<Rightarrow> bytes \<Rightarrow> key_manager_error + bytes" where
  "kyber_get_private_key m fs key_name =
     read_key fs (path_join (ky_keys_dir m) (key_name @ lit ''.private'')) key_name"

definition kyber_get_jose_format ::
    "(bytes \<Rightarrow> bytes) \<Rightarrow> kyber_key_manager \<Rightarrow> bytes \<Rightarrow> (bytes \<times> bytes) list" where
  "kyber_get_jose_format b64 m public_key =
     [(lit ''kty'', lit ''KEM''), (lit ''alg'', lit ''KYBER'' @ decimal_text (ky_security_level m)),
      (lit ''x'', b64 public_key)]"

subsection \<open>Ed25519\<close>

record ed25519_key_manager =
  ed_keys_dir :: path

definition ed25519_km_new :: "path \<Rightarrow> ed25519_key_manager" where
  "ed25519_km_new keys_dir = \<lparr>ed_keys_dir = keys_dir\<rparr>"

definition ed25519_km_sign :: "'j deps \<Rightarrow> bytes \<Rightarrow> bytes \<Rightarrow> key_manager_error + bytes" where
  "ed25519_km_sign D private_key message = of_crypto (ed25519_sign D private_key message)"

definition ed25519_km_verify_signature :: "'j deps \<Rightarrow> bytes \<Rightarrow> bytes \<Rightarrow> bytes \<Rightarrow> key_manager_error + bool" where
  "ed25519_km_verify_signature D public_key message signature =
     of_crypto (ed25519_verify D public_key signature message)"

text \<open>\<open>public_of seed\<close> is the verifying key of \<open>SigningKey::from_bytes\<close>; the private key is the random seed.\<close>

definition ed25519_generate_keypair :: "(bytes \<Rightarrow> bytes) \<Rightarrow> bytes \<Rightarrow> key_manager_error + bytes \<times> bytes" where
  "ed25519_generate_keypair public_of seed = Inr (public_of seed, seed)"

definition ed25519_store_public_key ::
    "ed25519_key_manager \<Rightarrow> file_system \<Rightarrow> bytes \<Rightarrow> bytes \<Rightarrow> key_manager_error + file_system" where
  "ed25519_store_public_key m fs key_name public_key =
     write_key fs (path_join (ed_keys_dir m) (key_name @ lit ''.public'')) public_key"

definition ed25519_store_private_key ::
    "ed25519_key_manager \<Rightarrow> file_system \<Rightarrow> bytes \<Rightarrow> bytes \<Rightarrow> key_manager_error + file_system" where
  "ed25519_store_private_key m fs key_name private_key =
     write_key fs (path_join (ed_keys_dir m) (key_name @ lit ''.private'')) private_key"

definition ed25519_get_public_key ::
    "ed25519_key_manager \<Rightarrow> file_system \<Rightarrow> bytes \<Rightarrow> key_manager_error + bytes" where
  "ed25519_get_public_key m fs key_name =
     read_key fs (path_join (ed_keys_dir m) (key_name @ lit ''.public'')) key_name"

definition ed25519_get_private_key ::
    "ed25519_key_manager \<Rightarrow> file_system \<Rightarrow> bytes \<Rightarrow> key_manager_error + bytes" where
  "ed25519_get_private_key m fs key_name =
     read_key fs (path_join (ed_keys_dir m) (key_name @ lit ''.private'')) key_name"

definition ed25519_get_jose_format :: "(bytes \<Rightarrow> bytes) \<Rightarrow> bytes \<Rightarrow> (bytes \<times> bytes) list" where
  "ed25519_get_jose_format b64 public_key =
     [(lit ''kty'', lit ''OKP''), (lit ''crv'', lit ''Ed25519''), (lit ''x'', b64 public_key)]"

subsection \<open>The contract of \<open>KeyManager\<close>\<close>

text \<open>A name without a slash: two such names are two files.\<close>

definition plain :: "bytes \<Rightarrow> bool" where
  "plain name \<longleftrightarrow> 47 \<notin> set name"

definition readable :: "file_system \<Rightarrow> bool" where
  "readable fs \<longleftrightarrow> (\<forall>path. \<not> fs_unreadable fs path)"

locale key_manager =
  fixes store_public store_private :: "file_system \<Rightarrow> bytes \<Rightarrow> bytes \<Rightarrow> key_manager_error + file_system"
    and get_public get_private :: "file_system \<Rightarrow> bytes \<Rightarrow> key_manager_error + bytes"
  assumes public_get: "store_public fs n k = Inr fs' \<Longrightarrow> readable fs \<Longrightarrow> readable fs' \<and> get_public fs' n = Inr k"
    and private_get: "store_private fs n k = Inr fs' \<Longrightarrow> readable fs \<Longrightarrow> readable fs' \<and> get_private fs' n = Inr k"
    and public_keeps_private: "store_public fs n k = Inr fs' \<Longrightarrow> get_private fs' n' = get_private fs n'"
    and private_keeps_public: "store_private fs n k = Inr fs' \<Longrightarrow> get_public fs' n' = get_public fs n'"
    and public_other: "store_public fs n k = Inr fs' \<Longrightarrow> plain n \<Longrightarrow> plain n' \<Longrightarrow> n \<noteq> n' \<Longrightarrow> get_public fs' n' = get_public fs n'"
    and private_other: "store_private fs n k = Inr fs' \<Longrightarrow> plain n \<Longrightarrow> plain n' \<Longrightarrow> n \<noteq> n' \<Longrightarrow> get_private fs' n' = get_private fs n'"
begin

text \<open>A pair that is stored is read back, and the pairs of other names are untouched.\<close>

lemma stored_pair:
  assumes "store_public fs n pk = Inr fs1" "store_private fs1 n sk = Inr fs2" "readable fs"
  shows "get_public fs2 n = Inr pk" "get_private fs2 n = Inr sk"
    "plain n \<Longrightarrow> plain n' \<Longrightarrow> n \<noteq> n' \<Longrightarrow> get_public fs2 n' = get_public fs n'"
    "plain n \<Longrightarrow> plain n' \<Longrightarrow> n \<noteq> n' \<Longrightarrow> get_private fs2 n' = get_private fs n'"
  using public_get [OF assms(1,3)] private_get [OF assms(2)] private_keeps_public [OF assms(2)]
    public_keeps_private [OF assms(1)] public_other [OF assms(1)] private_other [OF assms(2)] by auto

end

subsection \<open>The managers keep it\<close>

lemma path_join_last: "p \<noteq> [] \<Longrightarrow> last (path_join base p) = last p"
  by (simp add: path_join_def)

lemma path_join_plain:
  assumes "path_join base (n @ s) = path_join base (n' @ s)" "plain n" "plain n'" "s \<noteq> []" "hd s \<noteq> 47"
  shows "n = n'"
proof -
  have "hd (n @ s) \<noteq> 47" "hd (n' @ s) \<noteq> 47"
    using assms(2-5) unfolding plain_def by (metis hd_append hd_in_set)+
  then show ?thesis using assms(1,4) by (auto simp: path_join_def split: if_splits)
qed

lemma suffixes:
  "lit ''.public'' \<noteq> []" "lit ''.private'' \<noteq> []" "hd (lit ''.public'') \<noteq> 47" "hd (lit ''.private'') \<noteq> 47"
  "last (lit ''.public'') \<noteq> last (lit ''.private'')"
  by code_simp+

lemma path_join_kinds: "path_join base (n @ lit ''.public'') \<noteq> path_join base (n' @ lit ''.private'')"
  using path_join_last [of "n @ lit ''.public''" base] path_join_last [of "n' @ lit ''.private''" base] suffixes
  by (metis append_is_Nil_conv last_appendR)

lemma read_written:
  assumes "write_key fs path k = Inr fs'"
  shows "readable fs \<Longrightarrow> readable fs'" "readable fs \<Longrightarrow> read_key fs' path n = Inr k"
    "path' \<noteq> path \<Longrightarrow> read_key fs' path' n = read_key fs path' n"
  using assms by (auto simp: write_key_def read_key_def readable_def split: if_splits)

lemma path_join_names:
  assumes "plain n" "plain n'" "n \<noteq> n'"
  shows "path_join base (n' @ lit ''.public'') \<noteq> path_join base (n @ lit ''.public'')"
    "path_join base (n' @ lit ''.private'') \<noteq> path_join base (n @ lit ''.private'')"
  using path_join_plain [of base n' _ n] assms suffixes by metis+

lemmas key_files = read_written path_join_kinds path_join_kinds [symmetric] path_join_names

interpretation dil: key_manager "dilithium_store_public_key m" "dilithium_store_private_key m"
  "dilithium_get_public_key m" "dilithium_get_private_key m" for m
  by unfold_locales (simp_all add: dilithium_store_public_key_def dilithium_store_private_key_def
      dilithium_get_public_key_def dilithium_get_private_key_def key_files)

interpretation kyb: key_manager "kyber_store_public_key m" "kyber_store_private_key m"
  "kyber_get_public_key m" "kyber_get_private_key m" for m
  by unfold_locales (simp_all add: kyber_store_public_key_def kyber_store_private_key_def
      kyber_get_public_key_def kyber_get_private_key_def key_files)

interpretation edk: key_manager "ed25519_store_public_key m" "ed25519_store_private_key m"
  "ed25519_get_public_key m" "ed25519_get_private_key m" for m
  by unfold_locales (simp_all add: ed25519_store_public_key_def ed25519_store_private_key_def
      ed25519_get_public_key_def ed25519_get_private_key_def key_files)

subsection \<open>A Dilithium key pair that was stored\<close>

text \<open>
  What \<open>pqcrypto\<close> documents of its modules \<open>dilithium2\<close>, \<open>dilithium3\<close> and \<open>dilithium5\<close>: the sizes of the
  keys they generate, that \<open>from_bytes\<close> accepts exactly the byte strings of that size, and that a
  signature is accepted by \<open>from_bytes\<close> and verifies under the public key of the pair that made it.
\<close>

definition dilithium_module_ok :: "'j deps \<Rightarrow> nat \<Rightarrow> nat \<Rightarrow> nat \<Rightarrow> bytes \<times> bytes \<Rightarrow> bool" where
  "dilithium_module_ok D level pk_len sk_len = (\<lambda>(pk, sk).
     length pk = pk_len \<and> length sk = sk_len \<and>
     (\<forall>b. dil_pk_ok D level b \<longleftrightarrow> length b = pk_len) \<and> (\<forall>b. dil_sk_ok D level b \<longleftrightarrow> length b = sk_len) \<and>
     (\<forall>m. dil_sig_ok D level (dil_sign D level m sk) \<and> dil_verify D level (dil_sign D level m sk) m pk))"

definition pqcrypto_ok :: "'j deps \<Rightarrow> (nat \<Rightarrow> bytes \<times> bytes) \<Rightarrow> bool" where
  "pqcrypto_ok D keypair \<longleftrightarrow>
     dilithium_module_ok D 2 1312 2560 (keypair 2) \<and> dilithium_module_ok D 3 1952 4032 (keypair 3) \<and>
     dilithium_module_ok D 5 2592 4896 (keypair 5)"

text \<open>The length of a generated key selects the module that generated it, for signing and verifying.\<close>

lemma generated_pair_signs:
  assumes "pqcrypto_ok D keypair" "level \<in> {2, 3, 5}" "keypair level = (pk, sk)"
  shows "dilithium_sign D sk msg = Inr (dil_sign D level msg sk)"
    "dilithium_verify D pk (dil_sign D level msg sk) msg = Inr True"
proof -
  obtain npk nsk where m: "dilithium_module_ok D level npk nsk (pk, sk)"
    and sizes: "(level, npk, nsk) \<in> {(2, 1312, 2560), (3, 1952, 4032), (5, 2592, 4896)}"
    using assms unfolding pqcrypto_ok_def by (metis insert_iff singletonD)
  have "dilithium_level_from_pubkey_len npk = Some level" "dilithium_level_from_privkey_len nsk = Some level"
    using sizes by (auto simp: dilithium_level_from_pubkey_len_def dilithium_level_from_privkey_len_def)
  then show "dilithium_sign D sk msg = Inr (dil_sign D level msg sk)"
    "dilithium_verify D pk (dil_sign D level msg sk) msg = Inr True"
    using m by (simp_all add: dilithium_module_ok_def dilithium_sign_def dilithium_verify_def sign_d_def verify_d_def)
qed

text \<open>
  Property C26. A Dilithium key pair that a manager generates and stores is read back as it was, by
  any manager of the same directory. Whatever level that manager is set to, the private key read back
  signs every message at the level it was generated for, and the public key read back verifies the
  signature. The pairs stored under other names are not touched.
\<close>

theorem stored_dilithium_pair_signs:
  assumes "pqcrypto_ok D keypair" "readable fs"
    and "dilithium_generate_keypair keypair m = Inr (pk, sk)"
    and "dilithium_store_public_key m fs name pk = Inr fs1" "dilithium_store_private_key m fs1 name sk = Inr fs2"
    and "dk_keys_dir m' = dk_keys_dir m" "plain name" "plain other" "other \<noteq> name"
  shows "\<exists>pk' sk'. dilithium_get_public_key m' fs2 name = Inr pk' \<and> dilithium_get_private_key m' fs2 name = Inr sk' \<and>
    pk' = pk \<and> sk' = sk \<and>
    dilithium_km_sign D sk' msg = Inr (dil_sign D (dk_security_level m) msg sk) \<and>
    dilithium_km_verify_signature D pk' msg (dil_sign D (dk_security_level m) msg sk) = Inr True \<and>
    dilithium_get_public_key m' fs2 other = dilithium_get_public_key m fs other \<and>
    dilithium_get_private_key m' fs2 other = dilithium_get_private_key m fs other"
proof -
  have same: "dilithium_get_public_key m' = dilithium_get_public_key m" "dilithium_get_private_key m' = dilithium_get_private_key m"
    using assms(6) by (simp_all add: fun_eq_iff dilithium_get_public_key_def dilithium_get_private_key_def)
  have "dk_security_level m \<in> {2, 3, 5}" "keypair (dk_security_level m) = (pk, sk)"
    using assms(3) by (auto simp: dilithium_generate_keypair_def split: if_splits)
  note signs = generated_pair_signs [OF assms(1) this, of msg]
  show ?thesis
    using dil.stored_pair [OF assms(4,5,2)] assms(7-9) same signs
    by (simp add: dilithium_km_sign_def dilithium_km_verify_signature_def of_crypto_def)
qed

definition wkeypair :: "nat \<Rightarrow> bytes \<times> bytes" where
  "wkeypair level =
     (if level = 2 then (replicate 1312 0, replicate 2560 0)
      else if level = 3 then (replicate 1952 0, replicate 4032 0) else (replicate 2592 0, replicate 4896 0))"

definition wpqcrypto :: "bytes deps" where
  "wpqcrypto = wdeps
     \<lparr>dil_pk_ok := \<lambda>level b. length b = length (fst (wkeypair level)), dil_sk_ok := \<lambda>level b. length b = length (snd (wkeypair level))\<rparr>"

definition wfiles :: file_system where
  "wfiles = \<lparr>fs_files = Map.empty, fs_unreadable = (\<lambda>_. False), fs_unwritable = (\<lambda>_. False)\<rparr>"

text \<open>A pair of level 3 that a manager of level 2 reads, next to a name that was never stored.\<close>

theorem stored_dilithium_pair_signs_witness:
  "\<exists>fs1 fs2 sk.
     dilithium_store_public_key (dilithium_km_new (lit ''keys'') 3) wfiles (lit ''a'') (fst (wkeypair 3)) = Inr fs1 \<and>
     dilithium_store_private_key (dilithium_km_new (lit ''keys'') 3) fs1 (lit ''a'') (snd (wkeypair 3)) = Inr fs2 \<and>
     dilithium_get_private_key (dilithium_km_new (lit ''keys'') 2) fs2 (lit ''a'') = Inr sk \<and> sk = snd (wkeypair 3) \<and>
     dilithium_km_sign wpqcrypto sk [1] = Inr (dil_sign wpqcrypto 3 [1] sk) \<and>
     dilithium_get_private_key (dilithium_km_new (lit ''keys'') 2) fs2 (lit ''b'') = Inl (NotFound (lit ''b''))"
proof -
  let ?m = "dilithium_km_new (lit ''keys'') 3" and ?m' = "dilithium_km_new (lit ''keys'') 2"
  have ok: "pqcrypto_ok wpqcrypto wkeypair"
    by (simp add: pqcrypto_ok_def dilithium_module_ok_def wkeypair_def wpqcrypto_def wdeps_def)
  have gen: "dilithium_generate_keypair wkeypair ?m = Inr (fst (wkeypair 3), snd (wkeypair 3))"
    by (simp add: dilithium_generate_keypair_def dilithium_km_new_def)
  have names: "plain (lit ''a'')" "plain (lit ''b'')" "lit ''b'' \<noteq> lit ''a''" by code_simp+
  obtain fs1 fs2 where st: "dilithium_store_public_key ?m wfiles (lit ''a'') (fst (wkeypair 3)) = Inr fs1"
    "dilithium_store_private_key ?m fs1 (lit ''a'') (snd (wkeypair 3)) = Inr fs2"
    by (simp add: dilithium_store_public_key_def dilithium_store_private_key_def write_key_def wfiles_def)
  have r: "readable wfiles" and d: "dk_keys_dir ?m' = dk_keys_dir ?m" "dk_security_level ?m = 3"
    by (simp_all add: readable_def wfiles_def dilithium_km_new_def)
  have none: "dilithium_get_private_key ?m wfiles (lit ''b'') = Inl (NotFound (lit ''b''))"
    by (simp add: dilithium_get_private_key_def read_key_def wfiles_def)
  from stored_dilithium_pair_signs [OF ok r gen st d(1) names, of "[1]"] st none d(2) show ?thesis by metis
qed

end
