(* ===== verification/Testbed.thy ===== *)
theory Testbed
  imports NodeRuns
begin

text \<open>
  The testbed node (\<open>src/testbed/node.rs\<close>) and the DID records of the testbed
  (\<open>src/testbed/did.rs\<close>): a node with a DID of its own, whose commands publish it and rotate its
  keys. Random identifiers and key pairs are arguments (\<open>draws\<close>), and so is \<open>body\<close>, the JSON text
  of a DID document. \<open>hex\<close> is the function of the crate of that name. Times in the replies, the
  control socket and the command \<open>watch\<close> are left out.
\<close>

subsection \<open>Records\<close>

definition ALGORITHM :: bytes where
  "ALGORITHM = lit ''Dilithium-2''"

definition SIGNATURE_LEN :: nat where
  "SIGNATURE_LEN = 2420"

definition signed_record :: "'j deps \<Rightarrow> bytes \<Rightarrow> bytes \<Rightarrow> bytes" where
  "signed_record D body_text secret_key =
     (ALGORITHM @ drop (length ALGORITHM) (replicate 12 0)) @ dil_sign D 2 body_text secret_key @ body_text"

definition short_hash :: "(bytes \<Rightarrow> bytes) \<Rightarrow> 'j deps \<Rightarrow> bytes \<Rightarrow> bytes" where
  "short_hash hex D bs = hex (take 6 (sha256 D bs))"

text \<open>\<open>record.get(12 + SIGNATURE_LEN..)\<close>, parsed.\<close>

definition document_of :: "'j deps \<Rightarrow> bytes \<Rightarrow> 'j option" where
  "document_of D record =
     (if length record < 12 + SIGNATURE_LEN then None else json_from_slice D (drop (12 + SIGNATURE_LEN) record))"

datatype 'j described = NotDidRecord nat | Described 'j "bytes option" "bytes option" nat

definition key_hash :: "(bytes \<Rightarrow> bytes) \<Rightarrow> 'j deps \<Rightarrow> 'j \<Rightarrow> nat \<Rightarrow> bytes option" where
  "key_hash hex D document index =
     map_option (short_hash hex D)
       (Option.bind
         (json_as_str D (json_field D (json_field D (json_elem D
            (json_field D document (lit ''verificationMethod'')) index) (lit ''publicKeyJwk'')) (lit ''x'')))
         (b64url_decode D))"

definition describe :: "(bytes \<Rightarrow> bytes) \<Rightarrow> 'j deps \<Rightarrow> bytes \<Rightarrow> 'j described" where
  "describe hex D record =
     (case document_of D record of
        None \<Rightarrow> NotDidRecord (length record)
      | Some document \<Rightarrow>
          Described (json_field D document (lit ''id'')) (key_hash hex D document 0) (key_hash hex D document 1)
            (length record))"

definition signing_key_of :: "(bytes \<Rightarrow> bytes) \<Rightarrow> 'j deps \<Rightarrow> bytes \<Rightarrow> bytes" where
  "signing_key_of hex D record =
     (case describe hex D record of Described _ (Some k) _ _ \<Rightarrow> k | _ \<Rightarrow> lit ''?'')"

definition did_of :: "'j deps \<Rightarrow> bytes \<Rightarrow> bytes option" where
  "did_of D record =
     Option.bind (document_of D record) (\<lambda>document. json_as_str D (json_field D document (lit ''id'')))"

record version =
  vs_secret_key :: bytes
  vs_record :: bytes

record draws =
  dr_uuid :: bytes
  dr_signing :: "bytes \<times> bytes"
  dr_agreement :: bytes

definition version_generate :: "'j deps \<Rightarrow> (bytes \<Rightarrow> bytes \<Rightarrow> bytes \<Rightarrow> bytes) \<Rightarrow> draws \<Rightarrow> bytes \<Rightarrow> version" where
  "version_generate D body dr did =
     (let (signing, secret_key) = dr_signing dr
      in \<lparr>vs_secret_key = secret_key, vs_record = signed_record D (body did signing (dr_agreement dr)) secret_key\<rparr>)"

subsection \<open>The node and its DID\<close>

record rotation =
  rn_next :: version
  rn_auth_signature :: bytes

record identity =
  id_uuid :: bytes
  id_did :: bytes
  id_current :: version
  id_pending :: "rotation option"

record testbed_node =
  tn_name :: bytes
  tn_address :: bytes
  tn_server :: server
  tn_identity :: "identity option"

datatype 'j reply =
  Reply_Error bytes
| Reply_Info bytes bytes node_id "bytes option" "bytes option" "bytes option"
| Reply_New bytes
| Reply_Publish bytes bool set_outcome "'j described" bool
| Reply_Update bytes bytes bytes bool "bool option" bool
| Reply_Discard "bytes option"
| Reply_Forget "bytes option"
| Reply_Get bytes bool bool "'j described option"
| Reply_Stats bytes node_id nat nat nat nat
| Reply_Counters bytes "counter_snapshot option"
| Reply_Storage bytes "(bytes \<times> 'j described) list"
| Reply_Routing bytes "(bytes \<times> u16) list"

definition fresh_identity :: "'j deps \<Rightarrow> (bytes \<Rightarrow> bytes \<Rightarrow> bytes \<Rightarrow> bytes) \<Rightarrow> draws \<Rightarrow> identity" where
  "fresh_identity D body dr =
     (let did = lit ''did:iiot:'' @ dr_uuid dr
      in \<lparr>id_uuid = dr_uuid dr, id_did = did, id_current = version_generate D body dr did, id_pending = None\<rparr>)"

subsection \<open>Commands\<close>

definition tb_info :: "(bytes \<Rightarrow> bytes) \<Rightarrow> 'j deps \<Rightarrow> testbed_node \<Rightarrow> 'j reply" where
  "tb_info hex D n =
     Reply_Info (tn_name n) (tn_address n) (nid (sv_node (tn_server n)))
       (map_option id_did (tn_identity n))
       (map_option (\<lambda>i. signing_key_of hex D (vs_record (id_current i))) (tn_identity n))
       (Option.bind (tn_identity n) (\<lambda>i. map_option (\<lambda>r. signing_key_of hex D (vs_record (rn_next r))) (id_pending i)))"

definition tb_new ::
    "'j deps \<Rightarrow> (bytes \<Rightarrow> bytes \<Rightarrow> bytes \<Rightarrow> bytes) \<Rightarrow> draws \<Rightarrow> testbed_node \<Rightarrow> testbed_node \<times> 'j reply" where
  "tb_new D body dr n =
     (let i = fresh_identity D body dr in (n\<lparr>tn_identity := Some i\<rparr>, Reply_New (id_did i)))"

definition tb_publish ::
    "env \<Rightarrow> (bytes \<Rightarrow> bytes) \<Rightarrow> 'j deps \<Rightarrow> handler \<Rightarrow> (bytes \<Rightarrow> bytes \<Rightarrow> bytes \<Rightarrow> bytes) \<Rightarrow> draws \<Rightarrow> testbed_node \<Rightarrow>
     testbed_node \<times> 'j reply" where
  "tb_publish E hex D h body dr n =
     (let created = (tn_identity n = None);
          i = (case tn_identity n of Some i \<Rightarrow> i | None \<Rightarrow> fresh_identity D body dr);
          (sv, outcome) = set_detailed E D h (tn_server n) (id_uuid i) (vs_record (id_current i))
      in (n\<lparr>tn_identity := Some i, tn_server := sv\<rparr>,
          Reply_Publish (id_did i) created outcome (describe hex D (vs_record (id_current i))) (id_pending i \<noteq> None)))"

text \<open>The pending rotation, or a new one.\<close>

definition rotation_sent :: "'j deps \<Rightarrow> (bytes \<Rightarrow> bytes \<Rightarrow> bytes \<Rightarrow> bytes) \<Rightarrow> draws \<Rightarrow> identity \<Rightarrow> rotation" where
  "rotation_sent D body dr i =
     (case id_pending i of
        Some r \<Rightarrow> r
      | None \<Rightarrow>
          (let nxt = version_generate D body dr (id_did i)
           in \<lparr>rn_next = nxt, rn_auth_signature = dil_sign D 2 (vs_record nxt) (vs_secret_key (id_current i))\<rparr>))"

definition tb_update ::
    "env \<Rightarrow> (bytes \<Rightarrow> bytes) \<Rightarrow> 'j deps \<Rightarrow> handler \<Rightarrow> (bytes \<Rightarrow> bytes \<Rightarrow> bytes \<Rightarrow> bytes) \<Rightarrow> draws \<Rightarrow> testbed_node \<Rightarrow>
     testbed_node \<times> 'j reply" where
  "tb_update E hex D h body dr n =
     (case tn_identity n of
        None \<Rightarrow> (n, Reply_Error (lit ''this node has no DID yet: run publish first''))
      | Some i \<Rightarrow>
          (let retry = (id_pending i \<noteq> None);
               rot = rotation_sent D body dr i;
               record = vs_record (rn_next rot);
               from = signing_key_of hex D (vs_record (id_current i));
               (sv, result) = server_update E D h (tn_server n) (id_uuid i) record (Some (rn_auth_signature rot));
               i1 = i\<lparr>id_pending := Some rot\<rparr>;
               i2 = (if result = Some True then i1\<lparr>id_pending := None, id_current := rn_next rot\<rparr> else i1)
           in (n\<lparr>tn_identity := Some i2, tn_server := sv\<rparr>,
               Reply_Update (id_did i) from (signing_key_of hex D record) retry result (id_pending i2 \<noteq> None))))"

definition tb_discard :: "(bytes \<Rightarrow> bytes) \<Rightarrow> 'j deps \<Rightarrow> testbed_node \<Rightarrow> testbed_node \<times> 'j reply" where
  "tb_discard hex D n =
     (n\<lparr>tn_identity := map_option (\<lambda>i. i\<lparr>id_pending := None\<rparr>) (tn_identity n)\<rparr>,
      Reply_Discard (map_option (\<lambda>r. signing_key_of hex D (vs_record (rn_next r))) (Option.bind (tn_identity n) id_pending)))"

definition tb_forget :: "testbed_node \<Rightarrow> testbed_node \<times> 'j reply" where
  "tb_forget n = (n\<lparr>tn_identity := None\<rparr>, Reply_Forget (map_option id_did (tn_identity n)))"

definition did_uuid :: "bytes \<Rightarrow> bytes" where
  "did_uuid target = (case strip_prefix (lit ''did:iiot:'') target of Some u \<Rightarrow> u | None \<Rightarrow> target)"

definition tb_get ::
    "env \<Rightarrow> (bytes \<Rightarrow> bytes) \<Rightarrow> 'j deps \<Rightarrow> handler \<Rightarrow> testbed_node \<Rightarrow> bytes \<Rightarrow> testbed_node \<times> 'j reply" where
  "tb_get E hex D h n target =
     (let uuid = did_uuid target;
          sv0 = tn_server n;
          local_copy = (st_get (server_now sv0) (id_bytes (digest D uuid)) (server_storage sv0) \<noteq> None);
          (sv, found) = server_get E D h sv0 uuid
      in (n\<lparr>tn_server := sv\<rparr>,
          Reply_Get (lit ''did:iiot:'' @ uuid) (found \<noteq> None) local_copy (map_option (describe hex D) found)))"

definition tb_stats :: "(signature_cache \<Rightarrow> nat) \<Rightarrow> testbed_node \<Rightarrow> 'j reply" where
  "tb_stats entry_count n =
     (let s = stats entry_count (tn_server n)
      in Reply_Stats (tn_name n) (ss_node_id s) (ss_routing_nodes s) (ss_live_routing_nodes s)
           (ss_storage_records s) (ss_storage_bytes s))"

definition tb_counters :: "testbed_node \<Rightarrow> 'j reply" where
  "tb_counters n =
     Reply_Counters (tn_name n)
       (Option.bind (sv_protocol (tn_server n)) (\<lambda>p. counters_snapshot (pr_counters p)))"

definition tb_storage :: "(bytes \<Rightarrow> bytes) \<Rightarrow> 'j deps \<Rightarrow> testbed_node \<Rightarrow> 'j reply" where
  "tb_storage hex D n =
     (let sv = tn_server n
      in Reply_Storage (tn_name n)
           (map (\<lambda>(key, v). (hex (take (min (length key) 6) key), describe hex D v))
              (iter_all (server_now sv) (server_storage sv))))"

definition tb_routing :: "testbed_node \<Rightarrow> testbed_node \<times> 'j reply" where
  "tb_routing n =
     (let (sv, closest) = bootstrappable_neighbors (tn_server n)
      in (n\<lparr>tn_server := sv\<rparr>, Reply_Routing (tn_name n) closest))"

datatype command =
  Info | New | Publish | UpdateKeys | Discard | Forget | Get bytes | Stats | Counters | Records | Routing

text \<open>\<open>handle\<close>, once the words of the line are read.\<close>

definition tb_handle ::
    "env \<Rightarrow> (bytes \<Rightarrow> bytes) \<Rightarrow> (signature_cache \<Rightarrow> nat) \<Rightarrow> 'j deps \<Rightarrow> handler \<Rightarrow> (bytes \<Rightarrow> bytes \<Rightarrow> bytes \<Rightarrow> bytes) \<Rightarrow>
     draws \<Rightarrow> testbed_node \<Rightarrow> command \<Rightarrow> testbed_node \<times> 'j reply" where
  "tb_handle E hex entry_count D h body dr n cmd =
     (case cmd of
        Info \<Rightarrow> (n, tb_info hex D n)
      | New \<Rightarrow> tb_new D body dr n
      | Publish \<Rightarrow> tb_publish E hex D h body dr n
      | UpdateKeys \<Rightarrow> tb_update E hex D h body dr n
      | Discard \<Rightarrow> tb_discard hex D n
      | Forget \<Rightarrow> tb_forget n
      | Get target \<Rightarrow> tb_get E hex D h n target
      | Stats \<Rightarrow> (n, tb_stats entry_count n)
      | Counters \<Rightarrow> (n, tb_counters n)
      | Records \<Rightarrow> (n, tb_storage hex D n)
      | Routing \<Rightarrow> tb_routing n)"

subsection \<open>A rotation is retried as it is\<close>

text \<open>
  A session of commands. The lock of the identity is held for the whole of each command that uses it,
  so these run one after the other; \<open>between\<close> is what the node does with its server before a command
  starts, other commands included. The log has the node before and after each command, the network it
  met and its reply.
\<close>

type_synonym session = "((server \<Rightarrow> server) \<times> env \<times> draws \<times> command) list"
type_synonym 'j entry = "testbed_node \<times> env \<times> command \<times> 'j reply \<times> testbed_node"

fun run_session ::
    "(bytes \<Rightarrow> bytes) \<Rightarrow> (signature_cache \<Rightarrow> nat) \<Rightarrow> 'j deps \<Rightarrow> handler \<Rightarrow> (bytes \<Rightarrow> bytes \<Rightarrow> bytes \<Rightarrow> bytes) \<Rightarrow>
     session \<Rightarrow> testbed_node \<Rightarrow> 'j entry list" where
  "run_session hex ec D h body [] n = []"
| "run_session hex ec D h body ((between, E, dr, cmd) # cs) n =
     (let n0 = n\<lparr>tn_server := between (tn_server n)\<rparr>;
          (n1, reply) = tb_handle E hex ec D h body dr n0 cmd
      in (n0, E, cmd, reply, n1) # run_session hex ec D h body cs n1)"

definition confirmed :: "'j entry \<Rightarrow> bool" where
  "confirmed = (\<lambda>(n0, E, cmd, reply, n1). case reply of Reply_Update _ _ _ _ result _ \<Rightarrow> result = Some True | _ \<Rightarrow> False)"

definition drops_rotation :: "command \<Rightarrow> bool" where
  "drops_rotation cmd \<longleftrightarrow> cmd \<in> {New, Discard, Forget}"

text \<open>
  A command that retries \<open>rot\<close> for the identity \<open>i\<close>: an UPDATE is a call of \<open>Server::update\<close> with the record
  and the authorisation of \<open>rot\<close>, and the identity changes to the keys of \<open>rot\<close> if the call confirms it,
  and not at all otherwise.
\<close>

definition retries :: "'j deps \<Rightarrow> handler \<Rightarrow> identity \<Rightarrow> rotation \<Rightarrow> 'j entry \<Rightarrow> bool" where
  "retries D h i rot = (\<lambda>(n0, E, cmd, reply, n1).
     (cmd = UpdateKeys \<longrightarrow>
        (\<exists>from to result.
           server_update E D h (tn_server n0) (id_uuid i) (vs_record (rn_next rot)) (Some (rn_auth_signature rot)) =
             (tn_server n1, result) \<and>
           reply = Reply_Update (id_did i) from to True result (result \<noteq> Some True))) \<and>
     tn_identity n1 =
       Some (if confirmed (n0, E, cmd, reply, n1) then i\<lparr>id_pending := None, id_current := rn_next rot\<rparr> else i))"

lemma command_retries:
  assumes "tn_identity n = Some i" "id_pending i = Some rot" "\<not> drops_rotation cmd"
    and "tb_handle E hex ec D h body dr n cmd = (n1, reply)"
  shows "retries D h i rot (n, E, cmd, reply, n1)"
proof (cases "cmd = UpdateKeys")
  case True
  have "rotation_sent D body dr i = rot" "i\<lparr>id_pending := Some rot\<rparr> = i"
    using assms(2) by (simp_all add: rotation_sent_def)
  moreover obtain sv result where "server_update E D h (tn_server n) (id_uuid i) (vs_record (rn_next rot))
      (Some (rn_auth_signature rot)) = (sv, result)" by fastforce
  ultimately show ?thesis using assms(1,2,4) True
    by (auto simp: retries_def confirmed_def tb_handle_def tb_update_def Let_def)
next
  case False
  then have "tn_identity n1 = Some i" "\<not> confirmed (n, E, cmd, reply, n1)"
    using assms(1,3,4)
    by (auto simp: drops_rotation_def confirmed_def tb_handle_def tb_publish_def tb_get_def tb_routing_def tb_info_def tb_stats_def
        tb_counters_def tb_storage_def Let_def case_prod_beta split: command.splits)
  then show ?thesis using False by (simp add: retries_def)
qed

text \<open>
  Property C28. A rotation that was not confirmed is retried as it is. In a session without \<open>new\<close>,
  \<open>discard\<close> and \<open>forget\<close>, the commands that drop it, every UPDATE up to and including the first one that is
  confirmed calls \<open>Server::update\<close> with the record and the authorisation of the pending rotation,
  whatever the other commands, the network and the node do in between. The current keys stay in place
  until then, and the confirmation replaces them by those of the rotation and ends it.
\<close>

theorem rotation_retried_until_confirmed:
  assumes "tn_identity n = Some i" "id_pending i = Some rot"
    and "list_all (\<lambda>(_, _, _, cmd). \<not> drops_rotation cmd) cs"
    and "run_session hex ec D h body cs n = log @ e # log'" "\<not> list_ex confirmed log"
  shows "list_all (retries D h i rot) (log @ [e])"
  using assms
proof (induction cs arbitrary: n log)
  case (Cons c cs)
  obtain f E dr cmd where c: "c = (f, E, dr, cmd)" by (cases c)
  let ?n0 = "n\<lparr>tn_server := f (tn_server n)\<rparr>"
  obtain n1 reply where h: "tb_handle E hex ec D h body dr ?n0 cmd = (n1, reply)" by fastforce
  have first: "retries D h i rot (?n0, E, cmd, reply, n1)"
    using Cons.prems(1-3) h c by (intro command_retries [where hex = hex and ec = ec and body = body and dr = dr]) simp_all
  show ?case
  proof (cases log)
    case Nil
    then show ?thesis using first Cons.prems(4) c h by simp
  next
    case (Cons x xs)
    then have x: "x = (?n0, E, cmd, reply, n1)" "run_session hex ec D h body cs n1 = xs @ e # log'"
      using Cons.prems(4) c h by simp_all
    then have "tn_identity n1 = Some i" using first Cons.prems(5) \<open>log = x # xs\<close> by (simp add: retries_def)
    from Cons.IH [OF this Cons.prems(2) _ x(2)] show ?thesis
      using first x(1) Cons.prems(3,5) \<open>log = x # xs\<close> by simp
  qed
qed simp

text \<open>A session of a node that is not connected: a refused UPDATE, another command, and the retry.\<close>

definition wdraws :: draws where
  "wdraws = \<lparr>dr_uuid = [1], dr_signing = ([2], [3]), dr_agreement = [4]\<rparr>"

definition wrotation :: rotation where
  "wrotation = \<lparr>rn_next = \<lparr>vs_secret_key = [5], vs_record = [6]\<rparr>, rn_auth_signature = [7]\<rparr>"

definition widentity :: identity where
  "widentity = (fresh_identity wdeps (\<lambda>did signing agreement. did) wdraws)\<lparr>id_pending := Some wrotation\<rparr>"

definition wtestbed :: testbed_node where
  "wtestbed = \<lparr>tn_name = [], tn_address = [], tn_server = server_new wdeps wclock [] 2 1 (Some (wid 1)) None True,
     tn_identity = Some widentity\<rparr>"

lemma wtestbed_offline:
  "server_get E D h (tn_server wtestbed) key = (tn_server wtestbed, None)"
  "server_update E D h (tn_server wtestbed) key r a = (tn_server wtestbed, None)"
proof -
  have "st_get t k (server_storage (tn_server wtestbed)) = None" for t k
    by (simp add: wtestbed_def server_new_def server_storage_def storage_new_def st_get_def
      get_default_def with_max_storage_bytes_def)
  moreover have "sv_protocol (tn_server wtestbed) = None" by (simp add: wtestbed_def server_new_def)
  ultimately show "server_get E D h (tn_server wtestbed) key = (tn_server wtestbed, None)" for key
    by (simp add: server_get_def)
  then show "server_update E D h (tn_server wtestbed) key r a = (tn_server wtestbed, None)"
    by (simp add: server_update_def)
qed

lemma wtestbed_update:
  "\<exists>from to. tb_handle E hex ec wdeps h body dr wtestbed UpdateKeys =
     (wtestbed, Reply_Update (id_did widentity) from to True None True)"
proof -
  have "rotation_sent wdeps body dr widentity = wrotation" "widentity\<lparr>id_pending := Some wrotation\<rparr> = widentity"
    "wtestbed\<lparr>tn_identity := Some widentity, tn_server := tn_server wtestbed\<rparr> = wtestbed"
    by (simp_all add: rotation_sent_def widentity_def wtestbed_def)
  moreover have "tn_identity wtestbed = Some widentity" "id_pending widentity \<noteq> None"
    by (simp_all add: wtestbed_def widentity_def)
  ultimately show ?thesis by (simp add: tb_handle_def tb_update_def wtestbed_offline Let_def)
qed

theorem rotation_retried_until_confirmed_witness:
  "\<exists>e1 e2 reply n3.
     run_session (\<lambda>b. b) (\<lambda>_. 0) wdeps whandler (\<lambda>did signing agreement. did)
       [(\<lambda>sv. sv, wenv, wdraws, UpdateKeys), (\<lambda>sv. sv, wenv, wdraws, Info), (\<lambda>sv. sv, wenv, wdraws, UpdateKeys)] wtestbed =
       [e1, e2, (wtestbed, wenv, UpdateKeys, reply, n3)] \<and>
     retries wdeps whandler widentity wrotation (wtestbed, wenv, UpdateKeys, reply, n3)"
proof -
  let ?run = "run_session (\<lambda>b. b) (\<lambda>_. 0) wdeps whandler (\<lambda>did signing agreement. did)"
  let ?cs = "[(\<lambda>sv. sv, wenv, wdraws, UpdateKeys), (\<lambda>sv. sv, wenv, wdraws, Info), (\<lambda>sv. sv, wenv, wdraws, UpdateKeys)] :: session"
  have i: "tn_identity wtestbed = Some widentity" "id_pending widentity = Some wrotation"
    by (simp_all add: wtestbed_def widentity_def)
  obtain r1 where u: "tb_handle wenv (\<lambda>b. b) (\<lambda>_. 0) wdeps whandler (\<lambda>did signing agreement. did) wdraws wtestbed UpdateKeys = (wtestbed, r1)"
    "\<not> confirmed (wtestbed, wenv, UpdateKeys, r1, wtestbed)"
    using wtestbed_update [of wenv "\<lambda>b. b" "\<lambda>_. 0" whandler "\<lambda>did signing agreement. did" wdraws]
    by (auto simp: confirmed_def)
  have info: "tb_handle wenv (\<lambda>b. b) (\<lambda>_. 0) wdeps whandler (\<lambda>did signing agreement. did) wdraws wtestbed Info =
      (wtestbed, tb_info (\<lambda>b. b) wdeps wtestbed)" "\<not> confirmed (wtestbed, wenv, Info, tb_info (\<lambda>b. b) wdeps wtestbed, wtestbed)"
    by (simp_all add: tb_handle_def tb_info_def confirmed_def)
  have "wtestbed\<lparr>tn_server := tn_server wtestbed\<rparr> = wtestbed" by simp
  then have run: "?run ?cs wtestbed = [(wtestbed, wenv, UpdateKeys, r1, wtestbed),
      (wtestbed, wenv, Info, tb_info (\<lambda>b. b) wdeps wtestbed, wtestbed)] @ (wtestbed, wenv, UpdateKeys, r1, wtestbed) # []"
    using u(1) info(1) by simp
  have "list_all (retries wdeps whandler widentity wrotation) ([(wtestbed, wenv, UpdateKeys, r1, wtestbed),
      (wtestbed, wenv, Info, tb_info (\<lambda>b. b) wdeps wtestbed, wtestbed)] @ [(wtestbed, wenv, UpdateKeys, r1, wtestbed)])"
    by (rule rotation_retried_until_confirmed [OF i _ run]) (use u(2) info(2) in \<open>simp_all add: drops_rotation_def\<close>)
  then show ?thesis using run by auto
qed

end
