(* ===== verification/Reassembly.thy ===== *)
theory Reassembly
  imports TransportProps
begin

text \<open>
  What a node makes of the datagrams of one message, as \<open>handle_datagram\<close> of
  \<open>src/src/protocol/transport.rs\<close> receives them: the limit on the size of a message, the sweep of
  expired entries, and the map of \<open>src/src/fragmentation.rs\<close> with its limits. \<open>receive_payload\<close> looks at
  the clock and the map of the node only, so an arrival is a clock, a peer and a datagram.
\<close>

subsection \<open>One datagram of the message, and one of the rest of the traffic\<close>

lemma frag_total_small: "frag_total payload \<le> 187 \<Longrightarrow> length payload \<le> 65535 * FRAG_CHUNK_SIZE"
  using frag_total_bound [of payload] by simp

lemma receive_fragment:
  assumes "frag_total payload \<le> 187" "2 \<le> frag_total payload" "i < frag_total payload"
  shows "receive_payload q (encode_fragments f payload ! i) peer =
    (let (m, out) = accept_fragment (pnow q) (pr_reassembly (gc_reassembly q)) peer (frag_head f payload i) (frag_chunks payload ! i)
     in ((gc_reassembly q)\<lparr>pr_reassembly := m\<rparr>, out))"
proof -
  let ?h = "frag_head f payload i"
  have "unat (fh_total ?h) = frag_total payload" using assms(1) by (simp add: frag_head_def)
  then have "fh_total ?h \<noteq> 1" "unat (fh_total ?h) * FRAG_CHUNK_SIZE \<le> MAX_MESSAGE_SIZE"
    using assms(1,2) by (auto simp: FRAG_CHUNK_SIZE_def MAX_MESSAGE_SIZE_def)
  moreover have "pnow (gc_reassembly q) = pnow q" by (simp add: gc_reassembly_def)
  ultimately show ?thesis
    using parse_encoded [OF frag_total_small [OF assms(1)] assms(3), of f] by (simp add: receive_payload_def Let_def)
qed

lemma receive_single:
  assumes "frag_total payload = 1"
  shows "receive_payload q (encode_fragments f payload ! 0) peer = (q, Some payload)"
proof -
  obtain c where c: "frag_chunks payload = [c]" using assms by (auto simp: frag_total_def length_Suc_conv)
  then have "c = payload" using frag_chunks_facts(1) [of payload] by simp
  then show ?thesis
    using parse_encoded [OF frag_total_small, of payload 0 f] assms c by (simp add: receive_payload_def frag_head_def)
qed

lemma gc_map: "pr_reassembly (gc_reassembly q) = pr_reassembly q \<or>
    pr_reassembly (gc_reassembly q) = reassembly_retain (pnow q) (pr_reassembly q)"
  by (simp add: gc_reassembly_def)

lemma gc_inv: "reass_inv (pr_reassembly q) \<Longrightarrow> reass_inv (pr_reassembly (gc_reassembly q))"
  using gc_map [of q] reassembly_retain_inv by metis

lemma gc_none: "map_of (pr_reassembly q) k = None \<Longrightarrow> map_of (pr_reassembly (gc_reassembly q)) k = None"
  using gc_map [of q] by (auto simp: reassembly_retain_def map_of_eq_None_iff)

lemma gc_room:
  assumes "has_room peer (pr_reassembly q)"
  shows "has_room peer (pr_reassembly (gc_reassembly q))"
proof -
  have "peer_entries peer (filter P m) \<le> peer_entries peer m" for P m by (induction m) (auto simp: peer_entries_def)
  then have "has_room peer (filter P (pr_reassembly q))" for P
    using assms le_less_trans [OF length_filter_le] le_less_trans unfolding has_room_def by blast
  then show ?thesis using gc_map [of q] assms by (auto simp: reassembly_retain_def)
qed

text \<open>The sweep keeps the entry of the message if it is young.\<close>

lemma gc_holding:
  assumes "holding peer f payload t S (pr_reassembly q)" "pnow q - t < REASSEMBLY_TTL"
  shows "holding peer f payload t S (pr_reassembly (gc_reassembly q))"
proof -
  obtain e where e: "map_of (pr_reassembly q) (peer, f) = Some e" "re_created_at e = t" using assms(1) by (auto simp: holding_def)
  have "map_of (reassembly_retain (pnow q) (pr_reassembly q)) (peer, f) = Some e"
    unfolding reassembly_retain_def by (rule map_of_filter_Some [OF e(1)]) (use assms(2) e(2) in simp)
  then have "map_of (pr_reassembly (gc_reassembly q)) (peer, f) = map_of (pr_reassembly q) (peer, f)"
    using gc_map [of q] e(1) by metis
  then show ?thesis using assms(1) by (simp add: holding_def)
qed

text \<open>The map holds the fragments \<open>S\<close> of the message, or nothing.\<close>

definition slot_inv :: "sock_addr \<Rightarrow> u32 \<Rightarrow> bytes \<Rightarrow> nat set \<Rightarrow> proto \<Rightarrow> bool" where
  "slot_inv peer f payload S p \<longleftrightarrow>
     reass_inv (pr_reassembly p) \<and> S \<subseteq> {..<frag_total payload} \<and>
     (if map_of (pr_reassembly p) (peer, f) = None then S = {} else \<exists>t. holding peer f payload t S (pr_reassembly p))"

lemma slot_inv_clock [simp]: "slot_inv peer f payload S (p\<lparr>pr_clock := ck\<rparr>) = slot_inv peer f payload S p"
  by (simp add: slot_inv_def)

lemma gc_slot:
  assumes "slot_inv peer f payload S p"
  shows "\<exists>S' \<subseteq> S. slot_inv peer f payload S' (gc_reassembly p)"
proof -
  let ?m = "pr_reassembly p" and ?m' = "pr_reassembly (gc_reassembly p)"
  have inv: "reass_inv ?m" "reass_inv ?m'" using assms gc_inv by (auto simp: slot_inv_def)
  have "map_of ?m' (peer, f) = None \<or> map_of ?m' (peer, f) = map_of ?m (peer, f)"
  proof (cases "map_of ?m' (peer, f)")
    case (Some e)
    then have "((peer, f), e) \<in> set ?m" using gc_map [of p] by (auto simp: reassembly_retain_def dest!: map_of_SomeD)
    then show ?thesis using Some inv(1) by (simp add: reass_inv_def)
  qed simp
  then show ?thesis
  proof
    assume "map_of ?m' (peer, f) = None"
    then show ?thesis using inv(2) by (intro exI [of _ "{}"]) (simp add: slot_inv_def)
  next
    assume "map_of ?m' (peer, f) = map_of ?m (peer, f)"
    then show ?thesis using assms inv(2) by (intro exI [of _ S]) (auto simp: slot_inv_def holding_def)
  qed
qed

lemma receive_own_slot:
  assumes len: "frag_total payload \<le> 187" and two: "2 \<le> frag_total payload" and i: "i < frag_total payload"
    and inv: "slot_inv peer f payload S p" and run: "receive_payload p (encode_fragments f payload ! i) peer = (p', out)"
  shows "\<exists>S' \<subseteq> insert i S. slot_inv peer f payload S' p' \<and>
    (out = None \<or> out = Some payload \<and> S' = {} \<and> insert i S = {..<frag_total payload})"
proof -
  note long = frag_total_small [OF len]
  obtain S1 where S1: "S1 \<subseteq> S" "slot_inv peer f payload S1 (gc_reassembly p)" using gc_slot [OF inv] by blast
  let ?m = "pr_reassembly (gc_reassembly p)" and ?h = "frag_head f payload i" and ?c = "frag_chunks payload ! i"
  let ?m1 = "AList.update (peer, f) (entry_new (pnow p) (word_of_nat (frag_total payload))) ?m"
  have bound: "S1 \<subseteq> {..<frag_total payload}" "S \<subseteq> {..<frag_total payload}" using S1(2) inv by (simp_all add: slot_inv_def)
  obtain m' where acc: "accept_fragment (pnow p) ?m peer ?h ?c = (m', out)" and p': "p' = (gc_reassembly p)\<lparr>pr_reassembly := m'\<rparr>"
    using receive_fragment [OF len two i, of p f peer] run by (auto simp: Let_def split: prod.splits)
  have inv': "reass_inv m'" using accept_fragment_inv [of ?m "pnow p" peer ?h ?c] S1(2) acc by (simp add: slot_inv_def)
  have held: ?thesis if "holding peer f payload t S1 m0" "accept_fragment (pnow p) m0 peer ?h ?c = (m', out)" for t m0
  proof -
    note r = accept_own [OF long i that(1) bound(1) that(2)]
    show ?thesis
    proof (cases "insert i S1 = {..<frag_total payload}")
      case True
      then have "insert i S = {..<frag_total payload}" using S1(1) bound(2) i by auto
      then show ?thesis using r True inv' p' by (intro exI [of _ "{}"]) (simp add: slot_inv_def)
    next
      case False
      then show ?thesis using r inv' p' bound(1) i S1(1)
        by (intro exI [of _ "insert i S1"]) (auto simp: slot_inv_def holding_def)
    qed
  qed
  show ?thesis
  proof (cases "map_of ?m (peer, f)")
    case None
    then have S0: "S1 = {}" using S1(2) by (simp add: slot_inv_def)
    note f = accept_first(1) [OF long None, of "pnow p" i ?c] accept_first(2) [OF long None, of "pnow p"]
    show ?thesis
    proof (cases "has_room peer ?m")
      case True
      then show ?thesis using held [of "pnow p" ?m1] f acc S0 by simp
    next
      case False
      then have "m' = ?m" "out = None" using f acc by simp_all
      then show ?thesis using S1(2) S0 p' by (intro exI [of _ "{}"]) (simp add: slot_inv_def)
    qed
  next
    case (Some e)
    then obtain t where "holding peer f payload t S1 ?m" using S1(2) by (auto simp: slot_inv_def)
    then show ?thesis using held acc by blast
  qed
qed

lemma receive_foreign_map:
  assumes "foreign peer f (t, a, data)" "receive_payload p data a = (p', out)"
  shows "map_of (pr_reassembly p') (peer, f) \<in>
      {map_of (pr_reassembly p) (peer, f), map_of (pr_reassembly (gc_reassembly p)) (peer, f)}"
    and "reass_inv (pr_reassembly p) \<Longrightarrow> reass_inv (pr_reassembly p')"
proof -
  have "p' = p \<or> (\<exists>h c now. parse_fragment data = Some (h, c) \<and>
      p' = (gc_reassembly p)\<lparr>pr_reassembly := fst (accept_fragment now (pr_reassembly (gc_reassembly p)) a h c)\<rparr>)"
    using assms(2) by (auto simp: receive_payload_def Let_def case_prod_beta split: option.splits if_splits)
  then show "map_of (pr_reassembly p') (peer, f) \<in>
      {map_of (pr_reassembly p) (peer, f), map_of (pr_reassembly (gc_reassembly p)) (peer, f)}"
    "reass_inv (pr_reassembly p) \<Longrightarrow> reass_inv (pr_reassembly p')"
    using assms(1) accept_other_key [of a _ "(peer, f)"] accept_fragment_inv [where peer = a] gc_inv [of p] by (auto simp: foreign_def)
qed

lemma holding_slot: "map_of m (peer, f) = map_of m' (peer, f) \<Longrightarrow> holding peer f payload t S m = holding peer f payload t S m'"
  by (simp add: holding_def)

lemma receive_foreign_slot:
  assumes "foreign peer f (t, a, data)" "slot_inv peer f payload S p" "receive_payload p data a = (p', out)"
  shows "\<exists>S' \<subseteq> S. slot_inv peer f payload S' p'"
proof -
  obtain S1 where S1: "S1 \<subseteq> S" "slot_inv peer f payload S1 (gc_reassembly p)" using gc_slot [OF assms(2)] by blast
  have inv: "reass_inv (pr_reassembly p')" using receive_foreign_map(2) [OF assms(1,3)] assms(2) by (simp add: slot_inv_def)
  have "slot_inv peer f payload T p'" if "map_of (pr_reassembly p') (peer, f) = map_of (pr_reassembly q) (peer, f)" "slot_inv peer f payload T q" for q T
    using that inv holding_slot [OF that(1)] by (auto simp: slot_inv_def)
  then show ?thesis using receive_foreign_map(1) [OF assms(1,3)] S1 assms(2) by blast
qed

subsection \<open>The whole traffic\<close>

type_synonym arrival = "clock \<times> sock_addr \<times> bytes"

text \<open>What the node hands on for the datagrams of message \<open>f\<close> of \<open>peer\<close>.\<close>

fun delivered :: "sock_addr \<Rightarrow> u32 \<Rightarrow> proto \<Rightarrow> arrival list \<Rightarrow> bytes list" where
  "delivered peer f p [] = []"
| "delivered peer f p ((ck, a, data) # ds) =
     (let (p1, out) = receive_payload (p\<lparr>pr_clock := ck\<rparr>) data a
      in (if foreign peer f (ck, a, data) then [] else case out of None \<Rightarrow> [] | Some x \<Rightarrow> [x]) @ delivered peer f p1 ds)"

definition traffic :: "sock_addr \<Rightarrow> u32 \<Rightarrow> bytes \<Rightarrow> arrival list \<Rightarrow> bool" where
  "traffic peer f payload ds \<longleftrightarrow> list_all (\<lambda>d. (\<exists>i. own peer f payload i d) \<or> foreign peer f d) ds"

definition times_received :: "sock_addr \<Rightarrow> u32 \<Rightarrow> bytes \<Rightarrow> nat \<Rightarrow> arrival list \<Rightarrow> nat" where
  "times_received peer f payload j ds = length (filter (own peer f payload j) ds)"

text \<open>The first datagram is one of the message and finds room, and all come before the first expires.\<close>

definition in_time :: "sock_addr \<Rightarrow> u32 \<Rightarrow> bytes \<Rightarrow> proto \<Rightarrow> arrival list \<Rightarrow> bool" where
  "in_time peer f payload p ds \<longleftrightarrow>
     ds \<noteq> [] \<and> has_room peer (pr_reassembly p) \<and> (\<exists>i. own peer f payload i (hd ds)) \<and>
     list_all (\<lambda>d. ck_now (fst d) - ck_now (fst (hd ds)) < REASSEMBLY_TTL) ds"

lemma times_received_simps:
  assumes "length payload \<le> 65535 * FRAG_CHUNK_SIZE"
  shows "own peer f payload i d \<Longrightarrow> times_received peer f payload j (d # ds) = (if i = j then 1 else 0) + times_received peer f payload j ds"
    "foreign peer f d \<Longrightarrow> times_received peer f payload j (d # ds) = times_received peer f payload j ds"
  using own_unique [OF assms, of peer f _ d] own_not_foreign [OF assms, of peer f _ d] by (auto simp: times_received_def)

text \<open>Safety: each delivery uses up one copy of every datagram.\<close>

lemma delivered_bounded:
  assumes len: "frag_total payload \<le> 187" and two: "2 \<le> frag_total payload"
    and "traffic peer f payload ds" "slot_inv peer f payload S p"
  shows "set (delivered peer f p ds) \<subseteq> {payload} \<and>
    (\<forall>j < frag_total payload. length (delivered peer f p ds) \<le> times_received peer f payload j ds + (if j \<in> S then 1 else 0))"
  using assms(3-)
proof (induction ds arbitrary: p S)
  case (Cons d ds)
  note long = frag_total_small [OF len]
  obtain ck a data where d: "d = (ck, a, data)" by (cases d)
  obtain p1 out where run: "receive_payload (p\<lparr>pr_clock := ck\<rparr>) data a = (p1, out)" by fastforce
  have inv: "slot_inv peer f payload S (p\<lparr>pr_clock := ck\<rparr>)" using Cons.prems(2) by simp
  have tr: "traffic peer f payload ds" using Cons.prems(1) by (simp add: traffic_def)
  consider (own) i where "own peer f payload i d" | (foreign) "foreign peer f d"
    using Cons.prems(1) by (auto simp: traffic_def)
  then show ?case
  proof cases
    case own
    then have i: "i < frag_total payload" "a = peer" "data = encode_fragments f payload ! i" by (simp_all add: own_def d)
    obtain S' where S': "S' \<subseteq> insert i S" "slot_inv peer f payload S' p1"
      "out = None \<or> out = Some payload \<and> S' = {} \<and> insert i S = {..<frag_total payload}"
      using receive_own_slot [OF len two i(1) inv] run i(2,3) by metis
    have own': "\<not> foreign peer f (ck, a, data)" using own_not_foreign [OF long own] d by simp
    note IH = Cons.IH [OF tr S'(2)]
    show ?thesis using S'(3)
    proof
      assume none: "out = None"
      then have same: "delivered peer f p (d # ds) = delivered peer f p1 ds" using d run own' by simp
      have "length (delivered peer f p1 ds) \<le> times_received peer f payload j (d # ds) + (if j \<in> S then 1 else 0)" if "j < frag_total payload" for j
        using IH [THEN conjunct2, rule_format, OF that] S'(1) times_received_simps(1) [OF long own, of j ds] by (auto split: if_splits)
      then show ?thesis using IH same by simp
    next
      assume some: "out = Some payload \<and> S' = {} \<and> insert i S = {..<frag_total payload}"
      then have same: "delivered peer f p (d # ds) = payload # delivered peer f p1 ds" using d run own' by simp
      have "Suc (length (delivered peer f p1 ds)) \<le> times_received peer f payload j (d # ds) + (if j \<in> S then 1 else 0)" if "j < frag_total payload" for j
      proof -
        have "j = i \<or> j \<in> S" using some that by auto
        then show ?thesis
          using IH [THEN conjunct2, rule_format, OF that] some times_received_simps(1) [OF long own, of j ds] by (auto split: if_splits)
      qed
      then show ?thesis using IH same by simp
    qed
  next
    case foreign
    obtain S' where S': "S' \<subseteq> S" "slot_inv peer f payload S' p1"
      using receive_foreign_slot [OF foreign [unfolded d] inv run] by blast
    note IH = Cons.IH [OF tr S'(2)]
    have same: "delivered peer f p (d # ds) = delivered peer f p1 ds" using d run foreign by simp
    have "length (delivered peer f p1 ds) \<le> times_received peer f payload j (d # ds) + (if j \<in> S then 1 else 0)" if "j < frag_total payload" for j
      using IH [THEN conjunct2, rule_format, OF that] S'(1) times_received_simps(2) [OF long foreign, of j ds] by (auto split: if_splits)
    then show ?thesis using IH same by simp
  qed
qed simp

text \<open>A message of one datagram is handed on once for each copy of it.\<close>

lemma delivered_single:
  assumes "frag_total payload = 1" "traffic peer f payload ds"
  shows "delivered peer f p ds = replicate (times_received peer f payload 0 ds) payload"
  using assms(2)
proof (induction ds arbitrary: p)
  case (Cons d ds)
  have long: "length payload \<le> 65535 * FRAG_CHUNK_SIZE" using frag_total_small assms(1) by simp
  obtain ck a data where d: "d = (ck, a, data)" by (cases d)
  have tr: "traffic peer f payload ds" using Cons.prems by (simp add: traffic_def)
  consider (own) i where "own peer f payload i d" | (foreign) "foreign peer f d"
    using Cons.prems by (auto simp: traffic_def)
  then show ?case
  proof cases
    case own
    then have "i = 0" "a = peer" "data = encode_fragments f payload ! 0" using assms(1) by (simp_all add: own_def d)
    then show ?thesis
      using own_not_foreign [OF long own] Cons.IH [OF tr] receive_single [OF assms(1)] times_received_simps(1) [OF long own] d by simp
  next
    case foreign
    then show ?thesis using Cons.IH [OF tr] times_received_simps(2) [OF long foreign] d by (simp add: case_prod_beta Let_def)
  qed
qed (simp add: times_received_def)

text \<open>Liveness: an entry that is not swept is completed by the fragments it lacks.\<close>

lemma delivered_rest:
  assumes len: "frag_total payload \<le> 187" and two: "2 \<le> frag_total payload"
    and "traffic peer f payload ds" "holding peer f payload t S (pr_reassembly p)" "S \<subset> {..<frag_total payload}"
    and "list_all (\<lambda>d. ck_now (fst d) - t < REASSEMBLY_TTL) ds"
    and "\<forall>j < frag_total payload. j \<in> S \<or> 0 < times_received peer f payload j ds"
  shows "delivered peer f p ds \<noteq> []"
  using assms(3-)
proof (induction ds arbitrary: p S)
  case Nil
  then show ?case by (auto simp: times_received_def)
next
  case (Cons d ds)
  note long = frag_total_small [OF len]
  obtain ck a data where d: "d = (ck, a, data)" by (cases d)
  let ?p = "p\<lparr>pr_clock := ck\<rparr>"
  obtain p1 out where run: "receive_payload ?p data a = (p1, out)" by fastforce
  have hold: "holding peer f payload t S (pr_reassembly (gc_reassembly ?p))"
    using gc_holding [of peer f payload t S ?p] Cons.prems(2,4) d by simp
  have tr: "traffic peer f payload ds" and young: "list_all (\<lambda>d. ck_now (fst d) - t < REASSEMBLY_TTL) ds"
    using Cons.prems(1,4) by (simp_all add: traffic_def)
  consider (own) i where "own peer f payload i d" | (foreign) "foreign peer f d"
    using Cons.prems(1) by (auto simp: traffic_def)
  then show ?case
  proof cases
    case own
    then have i: "i < frag_total payload" "a = peer" "data = encode_fragments f payload ! i" by (simp_all add: own_def d)
    obtain m' where acc: "accept_fragment (pnow ?p) (pr_reassembly (gc_reassembly ?p)) peer (frag_head f payload i) (frag_chunks payload ! i) = (m', out)"
      and p1: "pr_reassembly p1 = m'"
      using receive_fragment [OF len two i(1), of ?p f peer] run i(2,3) by (simp add: Let_def split: prod.splits) force
    note r = accept_own [OF long i(1) hold psubset_imp_subset [OF Cons.prems(3)] acc]
    have own': "\<not> foreign peer f (ck, a, data)" using own_not_foreign [OF long own] d by simp
    show ?thesis
    proof (cases "insert i S = {..<frag_total payload}")
      case True
      then show ?thesis using r d run own' by simp
    next
      case False
      then have "holding peer f payload t (insert i S) (pr_reassembly p1)" using r p1 by simp
      moreover have "insert i S \<subset> {..<frag_total payload}" using False Cons.prems(3) i(1) by auto
      moreover have "\<forall>j < frag_total payload. j \<in> insert i S \<or> 0 < times_received peer f payload j ds"
        using Cons.prems(5) by (auto simp: times_received_simps(1) [OF long own])
      ultimately show ?thesis using Cons.IH [OF tr _ _ young] d run own' by simp
    qed
  next
    case foreign
    have "holding peer f payload t S (pr_reassembly p1)"
      using receive_foreign_map(1) [OF foreign [unfolded d] run] hold Cons.prems(2) unfolding holding_def by auto
    then show ?thesis
      using Cons.IH [OF tr _ Cons.prems(3) young] Cons.prems(5) [unfolded times_received_simps(2) [OF long foreign]] d run foreign by simp
  qed
qed

lemma delivered_in_time:
  assumes len: "frag_total payload \<le> 187" and two: "2 \<le> frag_total payload"
    and "traffic peer f payload ds" "map_of (pr_reassembly p) (peer, f) = None" "in_time peer f payload p ds"
    and "\<forall>j < frag_total payload. 0 < times_received peer f payload j ds"
  shows "delivered peer f p ds \<noteq> []"
proof -
  note long = frag_total_small [OF len]
  obtain ck a data ds' where ds: "ds = (ck, a, data) # ds'" using assms(5) by (cases ds) (auto simp: in_time_def)
  obtain i where own: "own peer f payload i (ck, a, data)" using assms(5) ds by (auto simp: in_time_def)
  let ?p = "p\<lparr>pr_clock := ck\<rparr>" and ?e = "entry_new (ck_now ck) (word_of_nat (frag_total payload))"
  let ?m = "pr_reassembly (gc_reassembly ?p)"
  let ?q = "(gc_reassembly ?p)\<lparr>pr_reassembly := AList.update (peer, f) ?e ?m\<rparr>"
  have i: "i < frag_total payload" "a = peer" "data = encode_fragments f payload ! i" using own by (simp_all add: own_def)
  have new: "map_of ?m (peer, f) = None" and room: "has_room peer ?m"
    using gc_none [of ?p] gc_room [of peer ?p] assms(4,5) by (simp_all add: in_time_def)
  have still: "gc_reassembly ?q = ?q" "pr_clock ?q = ck" by (simp_all add: gc_reassembly_def REASSEMBLY_GC_INTERVAL_def secs_def)
  have "receive_payload ?p data a = receive_payload ?q data a"
    using receive_fragment [OF len two i(1), of ?p f peer] receive_fragment [OF len two i(1), of ?q f peer] still
      accept_first(1) [OF long new, of "ck_now ck" i "frag_chunks payload ! i"] room i(2,3) by simp
  moreover have "?q\<lparr>pr_clock := ck\<rparr> = ?q" using still(2) by simp
  ultimately have "delivered peer f p ds = delivered peer f ?q ds" using ds by simp
  moreover have "{} \<subset> {..<frag_total payload}" using i(1) by auto
  then have "delivered peer f ?q ds \<noteq> []"
    using delivered_rest [OF len two assms(3), of "ck_now ck" "{}" ?q] accept_first(2) [OF long new, of "ck_now ck"] assms(5,6) ds
    by (simp del: delivered.simps add: in_time_def)
  ultimately show ?thesis by simp
qed

lemma in_time_first:
  assumes "frag_total payload = 1" "in_time peer f payload p ds"
  shows "0 < times_received peer f payload 0 ds"
proof -
  obtain d ds' i where "ds = d # ds'" "own peer f payload i d" using assms(2) by (cases ds) (auto simp: in_time_def)
  moreover have "i = 0" using calculation(2) assms(1) by (cases d) (simp add: own_def)
  ultimately show ?thesis by (simp add: times_received_def)
qed

subsection \<open>The round trip\<close>


text \<open>The two datagrams of a message in reverse, the last one twice, with one of another peer between them.\<close>

definition warrivals :: "arrival list" where
  "warrivals =
     (let es = encode_fragments 7 wpayload
      in [(wclock, wpeer, es ! 1), (wclock\<lparr>ck_now := secs 2\<rparr>, (lit ''b'', 2), es ! 0),
          (wclock\<lparr>ck_now := secs 3\<rparr>, wpeer, es ! 1), (wclock\<lparr>ck_now := secs 4\<rparr>, wpeer, es ! 0)])"

lemma warrivals_facts:
  "traffic wpeer 7 wpayload warrivals" "times_received wpeer 7 wpayload 0 warrivals = 1" "times_received wpeer 7 wpayload 1 warrivals = 2"
  "in_time wpeer 7 wpayload wstart warrivals" "map_of (pr_reassembly wstart) k = None" "reass_inv (pr_reassembly wstart)"
proof -
  let ?d = "\<lambda>ck a i. (ck, a, encode_fragments 7 wpayload ! i) :: arrival"
  have o: "own wpeer 7 wpayload i (?d ck wpeer i)" if "i < 2" for ck i using that by (simp add: own_def wpayload_total)
  have other: "foreign wpeer 7 (?d ck (lit ''b'', 2) i)" for ck i
    by (simp add: foreign_def frag_key_def wpeer_def lit_def split: option.split)
  show "traffic wpeer 7 wpayload warrivals" using o [of 0] o [of 1] other unfolding traffic_def warrivals_def Let_def by auto
  have cp: "times_received wpeer 7 wpayload j (?d ck wpeer i # ds) = (if i = j then 1 else 0) + times_received wpeer 7 wpayload j ds"
    if "i < 2" for i j ck ds by (rule times_received_simps(1) [OF wpayload_total(2) o [OF that]])
  have co: "times_received wpeer 7 wpayload j (?d ck (lit ''b'', 2) i # ds) = times_received wpeer 7 wpayload j ds" for i j ck ds
    by (rule times_received_simps(2) [OF wpayload_total(2) other])
  have "times_received wpeer 7 wpayload j [] = 0" for j by (simp add: times_received_def)
  then show "times_received wpeer 7 wpayload 0 warrivals = 1" "times_received wpeer 7 wpayload 1 warrivals = 2"
    unfolding warrivals_def Let_def by (simp_all add: co cp)
  have start: "pr_reassembly wstart = []"
    by (simp add: wstart_def node_start_def listen_protocol_def server_new_def protocol_new_def Let_def)
  then show "map_of (pr_reassembly wstart) k = None" "reass_inv (pr_reassembly wstart)"
    by (simp_all add: reass_inv_def peer_entries_def)
  show "in_time wpeer 7 wpayload wstart warrivals"
    using start o [of 1] by (auto simp: in_time_def warrivals_def Let_def wclock_def secs_def REASSEMBLY_TTL_def has_room_def peer_entries_def
        MAX_REASSEMBLY_ENTRIES_def MAX_REASSEMBLY_ENTRIES_PER_PEER_def)
qed


end
