(* ===== verification/Exchange.thy ===== *)
theory Exchange
  imports Reassembly "HOL-Library.Multiset"
begin

text \<open>
  Two nodes and the network between them: a request sent by one node, carried in datagrams to
  another, answered by its handler, and carried back to the call that waits for it
  (\<open>src/src/protocol/transport.rs\<close> on both sides, with \<open>src/src/protocol/handlers.rs\<close> and
  \<open>src/src/fragmentation.rs\<close>). \<open>deliver\<close> hands datagrams to a node one after the other.
\<close>

subsection \<open>A message is delivered to its handler\<close>

definition deliver ::
    "world \<Rightarrow> env \<Rightarrow> 'j deps \<Rightarrow> handler \<Rightarrow> proto \<Rightarrow> sock_addr \<Rightarrow> bytes list \<Rightarrow> proto" where
  "deliver W E D h q peer dgs = foldl (\<lambda>q dg. handle_datagram W E D h q dg peer) q dgs"

text \<open>What \<open>handle_datagram\<close> does with a complete payload.\<close>

definition handle_payload ::
    "world \<Rightarrow> env \<Rightarrow> 'j deps \<Rightarrow> handler \<Rightarrow> proto \<Rightarrow> bytes \<Rightarrow> sock_addr \<Rightarrow> proto" where
  "handle_payload W E D h p payload peer =
     (case w_deserialize W payload of
        None \<Rightarrow> p
      | Some fr \<Rightarrow>
          if \<not> fr_is_request fr then handle_response p fr peer else handle_request W E D h p payload fr peer)"

lemma handle_datagram_payload:
  "handle_datagram W E D h p data peer =
    (case receive_payload p data peer of
       (p1, None) \<Rightarrow> p1 | (p1, Some payload) \<Rightarrow> handle_payload W E D h p1 payload peer)"
  by (simp add: handle_datagram_def handle_payload_def)

text \<open>States that differ in the datagrams they keep for reassembly only.\<close>

definition regroup :: "proto \<Rightarrow> reassembly_map \<times> instant \<Rightarrow> proto" where
  "regroup q = (\<lambda>(m, t). q\<lparr>pr_reassembly := m, pr_last_reassembly_gc := t\<rparr>)"

lemma regroup_simps [simp]:
  "regroup (regroup q r) r' = regroup q r'" "pr_clock (regroup q r) = pr_clock q"
  "pr_reassembly (regroup q r) = fst r" "pr_last_reassembly_gc (regroup q r) = snd r"
  "pr_sent (regroup q r) = pr_sent q" "pr_pending (regroup q r) = pr_pending q"
  "pr_next_frag_id (regroup q r) = pr_next_frag_id q"
  by (simp_all add: regroup_def case_prod_beta)

lemma regroup_same: "regroup q (pr_reassembly q, pr_last_reassembly_gc q) = q"
  by (simp add: regroup_def)

lemma gc_regroup: "gc_reassembly q = regroup q (pr_reassembly (gc_reassembly q), pr_last_reassembly_gc (gc_reassembly q))"
  by (simp add: gc_reassembly_def regroup_def)

lemma gc_idem: "gc_reassembly ((gc_reassembly q)\<lparr>pr_reassembly := m\<rparr>) = (gc_reassembly q)\<lparr>pr_reassembly := m\<rparr>"
  by (simp add: gc_reassembly_def REASSEMBLY_GC_INTERVAL_def secs_def)

lemma gc_regroup_map: "(gc_reassembly q)\<lparr>pr_reassembly := m\<rparr> = regroup q (m, pr_last_reassembly_gc (gc_reassembly q))"
  by (subst gc_regroup) (simp add: regroup_def)

text \<open>A node that holds the fragments \<open>S\<close> of a message, all received now.\<close>

definition collecting :: "sock_addr \<Rightarrow> u32 \<Rightarrow> bytes \<Rightarrow> nat set \<Rightarrow> proto \<Rightarrow> bool" where
  "collecting peer f payload S q \<longleftrightarrow> holding peer f payload (pnow q) S (pr_reassembly q)"

lemma receive_more:
  assumes len: "frag_total payload \<le> 187" and two: "2 \<le> frag_total payload" and i: "i < frag_total payload"
    and S: "S \<subseteq> {..<frag_total payload}" and c: "collecting peer f payload S q"
  shows "\<exists>r. receive_payload q (encode_fragments f payload ! i) peer =
      (regroup q r, if insert i S = {..<frag_total payload} then Some payload else None) \<and>
    (insert i S \<noteq> {..<frag_total payload} \<longrightarrow> collecting peer f payload (insert i S) (regroup q r))"
proof -
  let ?m = "pr_reassembly (gc_reassembly q)"
  have "holding peer f payload (pnow q) S ?m"
    using gc_holding [of peer f payload "pnow q" S q] c by (simp add: collecting_def REASSEMBLY_TTL_def secs_def)
  moreover obtain m2 out where
    acc: "accept_fragment (pnow q) ?m peer (frag_head f payload i) (frag_chunks payload ! i) = (m2, out)" by fastforce
  ultimately have step: "if insert i S = {..<frag_total payload} then out = Some payload \<and> map_of m2 (peer, f) = None
      else out = None \<and> holding peer f payload (pnow q) (insert i S) m2"
    using accept_own [OF frag_total_small [OF len] i _ S] by blast
  then show ?thesis
    using receive_fragment [OF len two i, of q f peer] acc
    by (intro exI [of _ "(m2, pr_last_reassembly_gc (gc_reassembly q))"])
      (auto simp: collecting_def gc_regroup_map split: if_splits)
qed

lemma receive_initial:
  assumes len: "frag_total payload \<le> 187" and two: "2 \<le> frag_total payload" and i: "i < frag_total payload"
    and new: "map_of (pr_reassembly q) (peer, f) = None" and room: "has_room peer (pr_reassembly q)"
  obtains r where "collecting peer f payload {} (regroup q r)"
    "receive_payload q (encode_fragments f payload ! i) peer = receive_payload (regroup q r) (encode_fragments f payload ! i) peer"
proof -
  let ?m = "pr_reassembly (gc_reassembly q)" and ?e = "entry_new (pnow q) (word_of_nat (frag_total payload))"
  let ?r = "(AList.update (peer, f) ?e ?m, pr_last_reassembly_gc (gc_reassembly q))"
  note first = accept_first [OF frag_total_small [OF len] gc_none [OF new]]
  have "gc_reassembly (regroup q ?r) = regroup q ?r"
    unfolding gc_regroup_map [symmetric] by (rule gc_idem)
  then have "receive_payload q (encode_fragments f payload ! i) peer =
      receive_payload (regroup q ?r) (encode_fragments f payload ! i) peer"
    using first(1) [of "pnow q" i] gc_room [OF room]
    by (simp add: receive_fragment [OF len two i] gc_regroup_map) (simp add: regroup_def case_prod_beta)
  moreover have "collecting peer f payload {} (regroup q ?r)" using first(2) [of "pnow q"] by (simp add: collecting_def)
  ultimately show thesis using that by blast
qed

lemma deliver_simps [simp]:
  "deliver W E D h q peer [] = q"
  "deliver W E D h q peer (d # ds) = deliver W E D h (handle_datagram W E D h q d peer) peer ds"
  "deliver W E D h q peer (ds @ ds') = deliver W E D h (deliver W E D h q peer ds) peer ds'"
  by (simp_all add: deliver_def)

lemma deliver_rest:
  assumes len: "frag_total payload \<le> 187" and two: "2 \<le> frag_total payload"
    and "distinct is" "is \<noteq> []" "set is \<inter> S = {}" "set is \<union> S = {..<frag_total payload}"
    and "collecting peer f payload S q"
  shows "\<exists>r. deliver W E D h q peer (map ((!) (encode_fragments f payload)) is) = handle_payload W E D h (regroup q r) payload peer"
  using assms(3-)
proof (induction "is" arbitrary: S q)
  case (Cons i "is")
  have i: "i < frag_total payload" "S \<subseteq> {..<frag_total payload}" using Cons.prems(4) by auto
  obtain r where r: "receive_payload q (encode_fragments f payload ! i) peer =
      (regroup q r, if insert i S = {..<frag_total payload} then Some payload else None)"
    "insert i S \<noteq> {..<frag_total payload} \<longrightarrow> collecting peer f payload (insert i S) (regroup q r)"
    using receive_more [OF len two i Cons.prems(5)] by blast
  show ?case
  proof (cases "is = []")
    case True
    then have "insert i S = {..<frag_total payload}" using Cons.prems(4) by auto
    then have "deliver W E D h q peer (map ((!) (encode_fragments f payload)) (i # is)) =
        handle_payload W E D h (regroup q r) payload peer"
      using True r(1) by (simp add: handle_datagram_payload)
    then show ?thesis by blast
  next
    case False
    have other: "insert i S \<noteq> {..<frag_total payload}"
    proof
      assume "insert i S = {..<frag_total payload}"
      then have "set is \<subseteq> insert i S" using Cons.prems(4) by auto
      then show False using False Cons.prems(1,3) by (cases "is") auto
    qed
    then have "handle_datagram W E D h q (encode_fragments f payload ! i) peer = regroup q r"
      using r(1) by (simp add: handle_datagram_payload)
    then show ?thesis
      using Cons.IH [of "insert i S" "regroup q r"] r(2) other False Cons.prems by auto
  qed
qed simp

lemma perm_indices:
  assumes "mset ds = mset xs" "distinct xs"
  obtains "is" where "ds = map ((!) xs) is" "distinct is" "set is = {..<length xs}"
proof -
  have ds: "distinct ds" "set ds = set xs" "length ds = length xs"
    using assms mset_eq_imp_distinct_iff [OF assms(1)] mset_eq_setD [OF assms(1)] mset_eq_length [OF assms(1)] by simp_all
  have "ds \<in> lists ((!) xs ` {..<length xs})" using ds(2) by (auto simp: in_set_conv_nth)
  then obtain "is" where ix: "ds = map ((!) xs) is" "set is \<subseteq> {..<length xs}" by (auto simp: lists_image)
  then have dist: "distinct is" using ds(1) by (simp add: distinct_map)
  have "card (set is) = card {..<length xs}" using distinct_card [OF dist] ds(3) ix(1) by simp
  then have "set is = {..<length xs}" using ix(2) by (simp add: card_subset_eq)
  then show thesis using that ix(1) dist by blast
qed

lemma distinct_fragments:
  assumes "length payload \<le> 65535 * FRAG_CHUNK_SIZE"
  shows "distinct (encode_fragments f payload)"
proof -
  have "i = j" if "i < frag_total payload" "j < frag_total payload" "encode_fragments f payload ! i = encode_fragments f payload ! j" for i j
    using own_unique [OF assms, of wpeer f i "(0 :: nat, wpeer, encode_fragments f payload ! i)" j] that by (simp add: own_def)
  then show ?thesis by (auto simp: distinct_conv_nth encode_fragments_nth(1))
qed

lemma deliver_message:
  assumes len: "frag_total payload \<le> 187" and perm: "mset ds = mset (encode_fragments f payload)"
    and new: "map_of (pr_reassembly q) (peer, f) = None" and room: "has_room peer (pr_reassembly q)"
  shows "\<exists>r. deliver W E D h q peer ds = handle_payload W E D h (regroup q r) payload peer"
proof -
  let ?t = "frag_total payload"
  have t: "0 < ?t" using frag_chunks_facts(2) [of payload] by (simp add: frag_total_def)
  obtain "is" where ix: "ds = map ((!) (encode_fragments f payload)) is" "distinct is" "set is = {..<?t}"
    using perm_indices [OF perm distinct_fragments [OF frag_total_small [OF len]]] by (metis encode_fragments_nth(1))
  show ?thesis
  proof (cases "?t = 1")
    case True
    have "length is = 1" using distinct_card [OF ix(2)] ix(3) True by simp
    then have "is = [0]" using ix(3) True by (cases "is") auto
    then show ?thesis using ix(1) regroup_same [of q] receive_single [OF True, of q f peer] by (simp add: handle_datagram_payload) metis
  next
    case False
    then have two: "2 \<le> ?t" using t by simp
    obtain i is' where cons: "is = i # is'" using ix(3) t by (cases "is") auto
    then have i: "i < ?t" using ix(3) by auto
    obtain r where r: "collecting peer f payload {} (regroup q r)"
      "receive_payload q (encode_fragments f payload ! i) peer = receive_payload (regroup q r) (encode_fragments f payload ! i) peer"
      using receive_initial [OF len two i new room] .
    then have "deliver W E D h q peer ds = deliver W E D h (regroup q r) peer ds"
      using cons ix(1) by (simp add: handle_datagram_payload)
    then show ?thesis using deliver_rest [OF len two ix(2) _ _ _ r(1), of W E D h] cons ix(1,3) by auto
  qed
qed

subsection \<open>A request and its answer\<close>

text \<open>\<open>bincode\<close> reads what it writes, and the sockets take every datagram.\<close>

definition carries :: "world \<Rightarrow> bool" where
  "carries W \<longleftrightarrow> (\<forall>fr bs. w_serialize W fr = Some bs \<longrightarrow> w_deserialize W bs = Some fr) \<and> (\<forall>p a dg. w_send_to W p a dg)"

text \<open>No message of the peer is unfinished, and there is room for one.\<close>

definition ready_for :: "sock_addr \<Rightarrow> proto \<Rightarrow> bool" where
  "ready_for peer p \<longleftrightarrow> peer_entries peer (pr_reassembly p) = 0 \<and> length (pr_reassembly p) < MAX_REASSEMBLY_ENTRIES"

lemma ready_forD:
  assumes "ready_for peer p"
  shows "map_of (pr_reassembly p) (peer, f) = None" "has_room peer (pr_reassembly p)"
  using assms
  by (auto simp: ready_for_def has_room_def peer_entries_def MAX_REASSEMBLY_ENTRIES_PER_PEER_def map_of_eq_None_iff filter_empty_conv)

lemma send_datagrams_all:
  assumes "carries W"
  shows "send_datagrams W p addr kind dgs =
    (p\<lparr>pr_sent := pr_sent p @ map (Pair addr) dgs,
       pr_counters := foldl (\<lambda>c dg. counters_sent c kind (length dg)) (pr_counters p) dgs\<rparr>, True)"
proof -
  have "w_send_to W p a dg" for p a dg using assms by (cases a) (simp add: carries_def)
  then show ?thesis by (induction dgs arbitrary: p) simp_all
qed

lemma call_start_frames:
  assumes "carries W" "call_start W p addr m = (p1, Waiting cs)"
  obtains payload where "w_serialize W \<lparr>fr_msg_id = pr_next_msg_id p, fr_is_request = True, fr_message = m\<rparr> = Some payload"
    "cl_datagrams cs = encode_fragments (pr_next_frag_id p) payload" "cl_msg_id cs = pr_next_msg_id p"
    "map_of (pr_pending p1) (cl_msg_id cs) = Some \<lparr>pc_peer = addr, pc_expected = for_request m, pc_chan = cl_chan cs\<rparr>"
    "pr_reassembly p1 = pr_reassembly p"
  using assms(2)
  by (auto simp: call_start_def encode_frame_def next_id_def next_frag_id_val_def send_datagrams_all [OF assms(1)]
      Let_def update_conv' split: option.splits if_splits)

lemma answer_frames:
  assumes "carries W" "w_serialize W \<lparr>fr_msg_id = i, fr_is_request = False, fr_message = m\<rparr> = Some payload"
    "length payload \<le> MAX_MESSAGE_SIZE"
  shows "pr_sent (answer W q peer i (Some m)) = pr_sent q @ map (Pair peer) (encode_fragments (pr_next_frag_id q) payload)"
  using assms(2,3)
  by (simp add: answer_def send_frame_def encode_frame_def next_frag_id_val_def send_datagrams_all [OF assms(1)])

text \<open>Learning of a contact touches neither the socket nor the fragments.\<close>

lemma welcome_regroup [simp]:
  "note_alive (regroup q r) n = (regroup (fst (note_alive q n)) r, snd (note_alive q n))"
  "spawn_task (regroup q r) t = regroup (spawn_task q t) r"
  "proto_add_contact (regroup q r) n = regroup (proto_add_contact q n) r"
  "schedule_welcome_if_new (regroup q r) n = regroup (schedule_welcome_if_new q n) r"
proof -
  show alive: "note_alive (regroup q r) n = (regroup (fst (note_alive q n)) r, snd (note_alive q n))" for q n
    by (simp add: note_alive_def regroup_def Let_def case_prod_beta)
  show task: "spawn_task (regroup q r) t = regroup (spawn_task q t) r" for q t
    by (simp add: spawn_task_def drop_task_def regroup_def case_prod_beta split: option.split task.split)
  have upd: "(regroup q r)\<lparr>pr_router := x\<rparr> = regroup (q\<lparr>pr_router := x\<rparr>) r"
    "(regroup q r)\<lparr>pr_oldest_pings_in_flight := y\<rparr> = regroup (q\<lparr>pr_oldest_pings_in_flight := y\<rparr>) r"
    "(regroup q r)\<lparr>pr_welcome_in_flight := y\<rparr> = regroup (q\<lparr>pr_welcome_in_flight := y\<rparr>) r"
    "pr_router (regroup q r) = pr_router q" "pr_oldest_pings_in_flight (regroup q r) = pr_oldest_pings_in_flight q"
    "pr_welcome_in_flight (regroup q r) = pr_welcome_in_flight q" for q x y
    by (simp_all add: regroup_def case_prod_beta)
  show contact: "proto_add_contact (regroup q r) n = regroup (proto_add_contact q n) r" for q n
    by (simp add: proto_add_contact_def task upd Let_def split: option.split)
  show "schedule_welcome_if_new (regroup q r) n = regroup (schedule_welcome_if_new q n) r"
    by (simp add: schedule_welcome_if_new_def alive task contact upd Let_def case_prod_beta)
qed

lemma welcome_silent [simp]:
  "pr_sent (schedule_welcome_if_new q n) = pr_sent q" "pr_next_frag_id (schedule_welcome_if_new q n) = pr_next_frag_id q"
  "pr_replies (schedule_welcome_if_new q n) = pr_replies q"
proof -
  have task: "pr_sent (spawn_task q t) = pr_sent q" "pr_next_frag_id (spawn_task q t) = pr_next_frag_id q"
    "pr_replies (spawn_task q t) = pr_replies q" for q t
    by (simp_all add: spawn_task_def drop_task_def split: option.split task.split)
  have alive: "pr_sent (fst (note_alive q n)) = pr_sent q" "pr_next_frag_id (fst (note_alive q n)) = pr_next_frag_id q"
    "pr_replies (fst (note_alive q n)) = pr_replies q" for q
    by (simp_all add: note_alive_def Let_def case_prod_beta)
  have contact: "pr_sent (proto_add_contact q n) = pr_sent q" "pr_next_frag_id (proto_add_contact q n) = pr_next_frag_id q"
    "pr_replies (proto_add_contact q n) = pr_replies q" for q
    by (simp_all add: proto_add_contact_def task Let_def split: option.split)
  show "pr_sent (schedule_welcome_if_new q n) = pr_sent q" "pr_next_frag_id (schedule_welcome_if_new q n) = pr_next_frag_id q"
    "pr_replies (schedule_welcome_if_new q n) = pr_replies q"
    by (simp_all add: schedule_welcome_if_new_def task alive contact Let_def case_prod_beta)
qed

lemma dispatch_light:
  assumes "carried_record m = None" "for_request m \<noteq> NoResponse"
  shows "snd (dispatch_request E D h (regroup q r) m peer) = snd (dispatch_request E D h q m peer)"
    "pr_sent (fst (dispatch_request E D h q m peer)) = pr_sent q"
    "pr_next_frag_id (fst (dispatch_request E D h q m peer)) = pr_next_frag_id q"
    "\<exists>reply. snd (dispatch_request E D h q m peer) = Some reply \<and> accepts (for_request m) reply"
proof -
  have fields: "pr_router (regroup q r) = pr_router q" "pr_storage (regroup q r) = pr_storage q"
    "pr_source_node (regroup q r) = pr_source_node q" for q
    by (simp_all add: regroup_def case_prod_beta)
  note defs = dispatch_request_def rpc_ping_def rpc_find_node_def rpc_find_value_def rpc_find_hash_def advertise_def
    Let_def case_prod_beta accepts_def for_request_def
  show "snd (dispatch_request E D h (regroup q r) m peer) = snd (dispatch_request E D h q m peer)"
    using assms by (cases m) (simp_all add: defs fields carried_record_def split: option.split)
  show "pr_sent (fst (dispatch_request E D h q m peer)) = pr_sent q"
    "pr_next_frag_id (fst (dispatch_request E D h q m peer)) = pr_next_frag_id q"
    using assms by (cases m; simp add: defs carried_record_def split: option.split)+
  show "\<exists>reply. snd (dispatch_request E D h q m peer) = Some reply \<and> accepts (for_request m) reply"
    using assms by (cases m) (simp_all add: defs carried_record_def split: option.split)
qed

lemma light_request:
  assumes W: "carries W" and m: "carried_record m = None" "for_request m \<noteq> NoResponse"
    and payload: "w_serialize W \<lparr>fr_msg_id = i, fr_is_request = True, fr_message = m\<rparr> = Some payload"
    and sent: "pr_sent (handle_payload W E D h (regroup q r) payload a) = pr_sent q @ sent" "sent \<noteq> []"
  obtains reply payload' where "snd (dispatch_request E D h q m a) = Some reply" "accepts (for_request m) reply"
    "w_serialize W \<lparr>fr_msg_id = i, fr_is_request = False, fr_message = reply\<rparr> = Some payload'"
    "sent = map (Pair a) (encode_fragments (pr_next_frag_id q) payload')"
proof -
  note light = dispatch_light [OF m, where E = E and D = D and h = h and peer = a]
  obtain reply where reply: "snd (dispatch_request E D h q m a) = Some reply" "accepts (for_request m) reply"
    using light(4) [of q] by blast
  let ?q = "fst (dispatch_request E D h (regroup q r) m a)" and ?fr = "\<lparr>fr_msg_id = i, fr_is_request = False, fr_message = reply\<rparr>"
  have handled: "handle_payload W E D h (regroup q r) payload a = answer W ?q a i (Some reply)"
    using W payload m(1) reply(1) light(1) [of q r]
    by (simp add: handle_payload_def carries_def handle_request_def case_prod_beta)
  have q: "pr_sent ?q = pr_sent q" "pr_next_frag_id ?q = pr_next_frag_id q"
    using light(2,3) [of "regroup q r"] by simp_all
  have "\<exists>payload'. w_serialize W ?fr = Some payload' \<and> length payload' \<le> MAX_MESSAGE_SIZE"
    using sent q(1) unfolding handled
    by (auto simp: answer_def send_frame_def encode_frame_def split: option.splits if_splits)
  then obtain payload' where p': "w_serialize W ?fr = Some payload'" "length payload' \<le> MAX_MESSAGE_SIZE" by blast
  then have "sent = map (Pair a) (encode_fragments (pr_next_frag_id q) payload')"
    using sent(1) answer_frames [OF W p', of ?q a] q unfolding handled by simp
  then show thesis using that reply p'(1) by blast
qed

lemma answer_arrives:
  assumes W: "carries W"
    and call: "map_of (pr_pending p1) (cl_msg_id cs) = Some \<lparr>pc_peer = b, pc_expected = e, pc_chan = cl_chan cs\<rparr>"
    and reply: "accepts e reply" "w_serialize W \<lparr>fr_msg_id = cl_msg_id cs, fr_is_request = False, fr_message = reply\<rparr> = Some payload"
  shows "\<exists>p3. call_step W (handle_payload W E D h (regroup p1 r) payload b) cs AnswerBranch = (p3, Ended (Some reply)) \<and>
    map_of (pr_pending p3) (cl_msg_id cs) = None"
proof -
  let ?fr = "\<lparr>fr_msg_id = cl_msg_id cs, fr_is_request = False, fr_message = reply\<rparr>"
  have "reply \<noteq> Received" using reply(1) by (auto simp: accepts_def split: expected_response.splits)
  then have "map_of (pr_replies (handle_response (regroup p1 r) ?fr b)) (cl_chan cs) = Some reply"
    using call reply(1) by (simp add: handle_response_def Let_def)
  moreover have "handle_payload W E D h (regroup p1 r) payload b = handle_response (regroup p1 r) ?fr b"
    using W reply(2) by (simp add: handle_payload_def carries_def)
  ultimately show ?thesis by (simp add: call_step_def end_call_def Let_def delete_conv')
qed

text \<open>
  Property C8. A request that carries no record, sent over a network that carries datagrams, is
  answered: the datagrams of the request may reach the peer in any order, its handler runs once on
  the request, the datagrams it sends go to the caller alone, and once they have arrived, again in
  any order, the waiting call ends with the answer the handler gave and is forgotten.
\<close>

theorem request_answered:
  assumes W: "carries W" and m: "carried_record m = None" "for_request m \<noteq> NoResponse"
    and start: "call_start W p b m = (p1, Waiting cs)" and ready: "ready_for a q" "ready_for b p"
    and sizes: "length (cl_datagrams cs) \<le> 187" "length sent \<le> 187"
    and there: "mset ds = mset (cl_datagrams cs)" "pr_sent (deliver W E D h q a ds) = pr_sent q @ sent" "sent \<noteq> []"
    and home: "mset rs = mset (map snd sent)"
  shows "fst ` set sent = {a} \<and>
    (\<exists>p3. call_step W (deliver W E' D h' p1 b rs) cs AnswerBranch = (p3, Ended (snd (dispatch_request E D h q m a))) \<and>
      map_of (pr_pending p3) (cl_msg_id cs) = None)"
proof -
  obtain payload where c: "w_serialize W \<lparr>fr_msg_id = cl_msg_id cs, fr_is_request = True, fr_message = m\<rparr> = Some payload"
    "cl_datagrams cs = encode_fragments (pr_next_frag_id p) payload"
    "map_of (pr_pending p1) (cl_msg_id cs) = Some \<lparr>pc_peer = b, pc_expected = for_request m, pc_chan = cl_chan cs\<rparr>"
    "pr_reassembly p1 = pr_reassembly p"
    using call_start_frames [OF W start] by metis
  obtain r where "deliver W E D h q a ds = handle_payload W E D h (regroup q r) payload a"
    using deliver_message [OF _ there(1) [unfolded c(2)] ready_forD [OF ready(1)]] sizes(1) c(2)
    by (metis encode_fragments_nth(1))
  then obtain reply payload' where r: "snd (dispatch_request E D h q m a) = Some reply" "accepts (for_request m) reply"
    "w_serialize W \<lparr>fr_msg_id = cl_msg_id cs, fr_is_request = False, fr_message = reply\<rparr> = Some payload'"
    "sent = map (Pair a) (encode_fragments (pr_next_frag_id q) payload')"
    using light_request [OF W m c(1) _ there(3)] there(2) by metis
  have rs: "mset rs = mset (encode_fragments (pr_next_frag_id q) payload')" using home r(4) by (simp add: comp_def)
  have "ready_for b p1" using ready(2) c(4) by (simp add: ready_for_def)
  then obtain r' where "deliver W E' D h' p1 b rs = handle_payload W E' D h' (regroup p1 r') payload' b"
    using deliver_message [OF _ rs ready_forD] sizes(2) r(4) by (metis encode_fragments_nth(1) length_map)
  moreover have "fst ` set sent = {a}" using r(4) there(3) by (simp add: image_image image_constant_conv)
  ultimately show ?thesis using answer_arrives [OF W c(3) r(2,3), of E' D h' r'] r(1) by simp
qed

text \<open>A PING between two nodes that have just started.\<close>

definition wask :: frame where
  "wask = \<lparr>fr_msg_id = 0, fr_is_request = True, fr_message = Ping (wid 1)\<rparr>"

definition wreply :: frame where
  "wreply = \<lparr>fr_msg_id = 0, fr_is_request = False, fr_message = Pong (wid 2)\<rparr>"

definition wcarrier :: world where
  "wcarrier = \<lparr>w_serialize = (\<lambda>fr. if fr = wask then Some [1] else if fr = wreply then Some [2] else None),
     w_deserialize = (\<lambda>bs. if bs = [1] then Some wask else if bs = [2] then Some wreply else None), w_send_to = (\<lambda>_ _ _. True)\<rparr>"

definition wremote :: proto where
  "wremote = node_start False wdeps wclock [] 2 1 (Some (wid 2)) (Some (with_max_storage_bytes (- 1) 200)) True"

lemma wremote_fields:
  "pr_sent wremote = []" "pr_reassembly wremote = []" "pr_next_frag_id wremote = 0" "pr_source_node wremote = from_id (wid 2)"
  "pr_sent wstart = []" "pr_reassembly wstart = []" "pr_next_frag_id wstart = 0" "pr_next_msg_id wstart = 0"
  by (simp_all add: wremote_def wstart_def node_start_def listen_protocol_def server_new_def protocol_new_def Let_def)

lemma wcarrier_carries: "carries wcarrier"
  by (simp add: carries_def wcarrier_def wask_def wreply_def)

lemma wfragment: "frag_total [x] = 1" "length (encode_fragments f [x]) = 1"
  by (simp_all add: frag_total_div_ceil div_ceil_def FRAG_CHUNK_SIZE_def encode_fragments_nth(1))

lemma ready_empty: "pr_reassembly p = [] \<Longrightarrow> ready_for peer p"
  by (simp add: ready_for_def peer_entries_def MAX_REASSEMBLY_ENTRIES_def)

lemma wping_answered:
  "snd (dispatch_request E D h wremote (Ping (wid 1)) peer) = Some (Pong (wid 2))"
  "pr_sent (deliver wcarrier E D h wremote peer (encode_fragments 0 [1])) = map (Pair peer) (encode_fragments 0 [2])"
proof -
  show 1: "snd (dispatch_request E D h wremote (Ping (wid 1)) peer) = Some (Pong (wid 2))"
    by (simp add: dispatch_request_def rpc_ping_def wremote_fields from_id_def node_new_def)
  note light = dispatch_light [of "Ping (wid 1)", where E = E and D = D and h = h and peer = peer]
  have "\<exists>r. deliver wcarrier E D h wremote peer (encode_fragments 0 [1]) = handle_payload wcarrier E D h (regroup wremote r) [1] peer"
    by (rule deliver_message [OF _ refl ready_forD [OF ready_empty [OF wremote_fields(2)]]]) (simp add: wfragment(1))
  then obtain r where "deliver wcarrier E D h wremote peer (encode_fragments 0 [1]) = handle_payload wcarrier E D h (regroup wremote r) [1] peer" ..
  then have "deliver wcarrier E D h wremote peer (encode_fragments 0 [1]) =
      answer wcarrier (fst (dispatch_request E D h (regroup wremote r) (Ping (wid 1)) peer)) peer 0 (Some (Pong (wid 2)))"
    using 1 light(1) [of wremote r]
    by (simp add: handle_payload_def handle_request_def wcarrier_def wask_def carried_record_def for_request_def case_prod_beta)
  moreover have "w_serialize wcarrier \<lparr>fr_msg_id = 0, fr_is_request = False, fr_message = Pong (wid 2)\<rparr> = Some [2]"
    by (simp add: wcarrier_def wask_def wreply_def)
  ultimately show "pr_sent (deliver wcarrier E D h wremote peer (encode_fragments 0 [1])) = map (Pair peer) (encode_fragments 0 [2])"
    using answer_frames [OF wcarrier_carries] light(2,3) [of "regroup wremote r"] wremote_fields
    by (simp add: carried_record_def for_request_def MAX_MESSAGE_SIZE_def)
qed

theorem request_answered_witness:
  "\<exists>p1 cs p3. call_start wcarrier wstart (lit ''b'', 2) (Ping (wid 1)) = (p1, Waiting cs) \<and>
     call_step wcarrier (deliver wcarrier wenv wdeps whandler p1 (lit ''b'', 2) (encode_fragments 0 [2])) cs AnswerBranch =
       (p3, Ended (Some (Pong (wid 2))))"
proof -
  let ?m = "Ping (wid 1)" and ?b = "(lit ''b'', 2)"
  have "w_serialize wcarrier \<lparr>fr_msg_id = 0, fr_is_request = True, fr_message = ?m\<rparr> = Some [1]"
    by (simp add: wcarrier_def wask_def)
  then obtain p1 cs where start: "call_start wcarrier wstart ?b ?m = (p1, Waiting cs)"
    by (simp add: call_start_def next_id_def next_frag_id_val_def encode_frame_def wremote_fields
        MAX_MESSAGE_SIZE_def send_datagrams_all [OF wcarrier_carries] Let_def)
  have dgs: "cl_datagrams cs = encode_fragments 0 [1]"
    by (rule call_start_frames [OF wcarrier_carries start]) (simp add: wremote_fields wcarrier_def wask_def)
  have "encode_fragments 0 [2] \<noteq> []" using wfragment(2) [of 0 2] by auto
  then have "\<exists>p3. call_step wcarrier (deliver wcarrier wenv wdeps whandler p1 ?b (encode_fragments 0 [2])) cs AnswerBranch =
      (p3, Ended (snd (dispatch_request wenv wdeps whandler wremote ?m wpeer))) \<and> map_of (pr_pending p3) (cl_msg_id cs) = None"
    using wping_answered(2) [of wenv wdeps whandler wpeer] wremote_fields(1) wfragment(2)
    by (intro request_answered [OF wcarrier_carries _ _ start ready_empty [OF wremote_fields(2), of wpeer] ready_empty [OF wremote_fields(6)],
          where sent = "map (Pair wpeer) (encode_fragments 0 [2])", THEN conjunct2])
      (simp_all add: dgs carried_record_def for_request_def comp_def)
  then show ?thesis using start unfolding wping_answered(1) by blast
qed

end
