(* ===== verification/PyBindings.thy ===== *)
theory PyBindings
  imports KeyManager NodeRuns
begin

text \<open>
  The Python bindings (\<open>src/src/py_bindings.rs\<close>): a server and the three key managers as Python
  classes. A Python value is a value of \<open>py_value\<close>, a dictionary the list of its items in the order
  they are set. A method that raises returns \<open>Inl\<close>; the exception keeps the error whose text it
  carries. A coroutine is the state it leaves and the value it returns. The lock around the server,
  the GIL and the set-up of the runtime are not modelled.
\<close>

subsection \<open>Python values\<close>

datatype py_value =
    PyNone | PyBool bool | PyInt nat | PyStr bytes | PyBytes bytes
  | PyTuple "py_value list" | PyList "py_value list" | PyDict "(bytes \<times> py_value) list"

datatype py_error =
    RuntimeError_Text bytes
  | RuntimeError_Io
  | RuntimeError_Key key_manager_error

definition rejection_name :: "set_rejection \<Rightarrow> bytes" where
  "rejection_name reason =
     (case reason of
        ExistingRecord \<Rightarrow> lit ''existing_record''
      | InvalidRecord \<Rightarrow> lit ''invalid_record''
      | ReplicaConflict \<Rightarrow> lit ''replica_conflict''
      | CapacityRefused \<Rightarrow> lit ''capacity_exceeded''
      | Unavailable \<Rightarrow> lit ''unavailable''
      | NoResponsibleNodes \<Rightarrow> lit ''no_responsible_nodes'')"

definition set_report_to_py :: "set_report \<Rightarrow> py_value" where
  "set_report_to_py r =
     PyDict [(lit ''expected_replicas'', PyInt (sr_expected_replicas r)),
             (lit ''stored_replicas'', PyInt (sr_stored_replicas r)),
             (lit ''already_present'', PyInt (sr_already_present r)),
             (lit ''acknowledged_replicas'', PyInt (acknowledged_replicas r)),
             (lit ''capacity_rejections'', PyInt (sr_capacity_rejections r)),
             (lit ''unavailable_nodes'', PyInt (sr_unavailable_nodes r)),
             (lit ''conflict_rejections'', PyInt (sr_conflict_rejections r)),
             (lit ''invalid_rejections'', PyInt (sr_invalid_rejections r))]"

definition set_outcome_to_py :: "set_outcome \<Rightarrow> py_value" where
  "set_outcome_to_py outcome =
     (let (status, rejection) =
            (case outcome of
               Complete _ \<Rightarrow> (lit ''complete'', PyNone)
             | Degraded _ \<Rightarrow> (lit ''degraded'', PyNone)
             | Rejected reason _ \<Rightarrow> (lit ''rejected'', PyStr (rejection_name reason)))
      in PyDict [(lit ''status'', PyStr status), (lit ''reason'', rejection),
                 (lit ''report'', set_report_to_py (outcome_report outcome))])"

definition server_stats_to_py :: "server_stats \<Rightarrow> py_value" where
  "server_stats_to_py s =
     PyDict [(lit ''node_id'', PyBytes (id_bytes (ss_node_id s))),
             (lit ''listening'', PyBool (ss_listening s)),
             (lit ''routing_nodes'', PyInt (ss_routing_nodes s)),
             (lit ''live_routing_nodes'', PyInt (ss_live_routing_nodes s)),
             (lit ''storage_records'', PyInt (ss_storage_records s)),
             (lit ''storage_bytes'', PyInt (ss_storage_bytes s)),
             (lit ''max_storage_bytes'', PyInt (ss_max_storage_bytes s)),
             (lit ''available_storage_bytes'', PyInt (ss_max_storage_bytes s - ss_storage_bytes s)),
             (lit ''signature_cache_entries'',
                case ss_signature_cache_entries s of None \<Rightarrow> PyNone | Some n \<Rightarrow> PyInt n)]"

definition km_err :: "key_manager_error + 'a \<Rightarrow> py_error + 'a" where
  "km_err r = (case r of Inl e \<Rightarrow> Inl (RuntimeError_Key e) | Inr x \<Rightarrow> Inr x)"

definition peers_to_py :: "(bytes \<times> u16) list \<Rightarrow> py_value" where
  "peers_to_py peers = PyList (map (\<lambda>(ip, port). PyTuple [PyStr ip, PyInt (unat port)]) peers)"

definition optional_bool_to_py :: "bool option \<Rightarrow> py_value" where
  "optional_bool_to_py r = (case r of None \<Rightarrow> PyNone | Some b \<Rightarrow> PyBool b)"

subsection \<open>The server\<close>

text \<open>The wrapped server, with the handler it was created with.\<close>

record py_server =
  ps_inner :: server
  ps_handler :: handler

text \<open>
  \<open>read_file\<close> is what the file system answers for the issuer key. Without a path the handler is
  given the empty one.
\<close>

definition py_server_new ::
    "'j deps \<Rightarrow> clock \<Rightarrow> bytes \<Rightarrow> (path \<Rightarrow> bytes option) \<Rightarrow> nat \<Rightarrow> nat \<Rightarrow> path option \<Rightarrow> bytes option \<Rightarrow> bool \<Rightarrow> nat \<Rightarrow>
     py_error + py_server" where
  "py_server_new D ck rnd read_file ksize alpha issuer_path node_id sig_cache max_storage_bytes =
     (let path = (case issuer_path of Some p \<Rightarrow> p | None \<Rightarrow> []);
          h = did_handler D (read_file path);
          fixed_id =
            (case node_id of
               Some v \<Rightarrow>
                 if length v = ID_LEN then Inr (Some (id_of_bytes v))
                 else Inl (RuntimeError_Text (lit ''node_id must be exactly 20 bytes, got '' @ decimal_text (length v)))
             | None \<Rightarrow> Inr None)
      in and_then fixed_id (\<lambda>i.
           Inr \<lparr>ps_inner = server_new D ck rnd ksize alpha i
                  (Some (with_max_storage_bytes DEFAULT_TTL max_storage_bytes)) sig_cache,
                ps_handler = h\<rparr>))"

text \<open>\<open>bound\<close> tells whether the socket could be bound.\<close>

definition py_listen :: "bool \<Rightarrow> bool \<Rightarrow> py_server \<Rightarrow> py_error + py_server" where
  "py_listen feature bound s =
     (if \<not> bound then Inl RuntimeError_Io else Inr (s\<lparr>ps_inner := listen feature (ps_inner s)\<rparr>))"

definition py_bootstrap :: "env \<Rightarrow> py_server \<Rightarrow> (bytes \<times> u16) list \<Rightarrow> py_server \<times> py_value" where
  "py_bootstrap E s addrs =
     (let (sv, nodes) = bootstrap E (ps_inner s) addrs
      in (s\<lparr>ps_inner := sv\<rparr>, peers_to_py (List.map_filter address nodes)))"

definition py_get :: "env \<Rightarrow> 'j deps \<Rightarrow> py_server \<Rightarrow> bytes \<Rightarrow> py_server \<times> py_value" where
  "py_get E D s key =
     (let (sv, r) = server_get E D (ps_handler s) (ps_inner s) key
      in (s\<lparr>ps_inner := sv\<rparr>, case r of None \<Rightarrow> PyNone | Some v \<Rightarrow> PyBytes v))"

definition py_set :: "env \<Rightarrow> 'j deps \<Rightarrow> py_server \<Rightarrow> bytes \<Rightarrow> bytes \<Rightarrow> py_server \<times> py_value" where
  "py_set E D s key v =
     (let (sv, r) = server_set E D (ps_handler s) (ps_inner s) key v
      in (s\<lparr>ps_inner := sv\<rparr>, optional_bool_to_py r))"

definition py_set_detailed :: "env \<Rightarrow> 'j deps \<Rightarrow> py_server \<Rightarrow> bytes \<Rightarrow> bytes \<Rightarrow> py_server \<times> py_value" where
  "py_set_detailed E D s key v =
     (let (sv, outcome) = set_detailed E D (ps_handler s) (ps_inner s) key v
      in (s\<lparr>ps_inner := sv\<rparr>, set_outcome_to_py outcome))"

definition py_update ::
    "env \<Rightarrow> 'j deps \<Rightarrow> py_server \<Rightarrow> bytes \<Rightarrow> bytes \<Rightarrow> bytes option \<Rightarrow> py_server \<times> py_value" where
  "py_update E D s key v auth_signature =
     (let (sv, r) = server_update E D (ps_handler s) (ps_inner s) key v auth_signature
      in (s\<lparr>ps_inner := sv\<rparr>, optional_bool_to_py r))"

definition py_stop :: "world \<Rightarrow> env \<Rightarrow> py_server \<Rightarrow> py_server \<times> py_value" where
  "py_stop W E s = (s\<lparr>ps_inner := stop W E (ps_inner s)\<rparr>, PyNone)"

definition py_bootstrappable_neighbors :: "py_server \<Rightarrow> py_server \<times> py_value" where
  "py_bootstrappable_neighbors s =
     (let (sv, peers) = bootstrappable_neighbors (ps_inner s) in (s\<lparr>ps_inner := sv\<rparr>, peers_to_py peers))"

definition py_stats :: "(signature_cache \<Rightarrow> nat) \<Rightarrow> py_server \<Rightarrow> py_server \<times> py_value" where
  "py_stats entry_count s = (s, server_stats_to_py (stats entry_count (ps_inner s)))"

text \<open>The second component is what is written to the file.\<close>

definition py_save_state :: "py_server \<Rightarrow> py_server \<times> saved_state option \<times> py_value" where
  "py_save_state s =
     (let (sv, saved) = save_state (ps_inner s) in (s\<lparr>ps_inner := sv\<rparr>, saved, PyNone))"

subsection \<open>The key managers\<close>

definition bytes_to_py :: "py_error + bytes \<Rightarrow> py_error + py_value" where
  "bytes_to_py r = and_then r (\<lambda>v. Inr (PyBytes v))"

definition pair_to_py :: "py_error + bytes \<times> bytes \<Rightarrow> py_error + py_value" where
  "pair_to_py r = and_then r (\<lambda>(pk, sk). Inr (PyTuple [PyBytes pk, PyBytes sk]))"

definition jose_to_py :: "(bytes \<times> bytes) list \<Rightarrow> py_value" where
  "jose_to_py items = PyDict (map (\<lambda>(k, v). (k, PyStr v)) items)"

definition py_dilithium_new :: "path \<Rightarrow> nat \<Rightarrow> dilithium_key_manager" where
  "py_dilithium_new keys_dir security_level = dilithium_km_new keys_dir security_level"

definition py_dilithium_generate_keypair ::
    "(nat \<Rightarrow> bytes \<times> bytes) \<Rightarrow> dilithium_key_manager \<Rightarrow> nat option \<Rightarrow> py_error + py_value" where
  "py_dilithium_generate_keypair keypair m security_level =
     (let level = (case security_level of Some l \<Rightarrow> l | None \<Rightarrow> dk_security_level m)
      in pair_to_py (km_err (dilithium_generate_keypair keypair (dilithium_km_new (dk_keys_dir m) level))))"

definition py_dilithium_store_public_key ::
    "dilithium_key_manager \<Rightarrow> file_system \<Rightarrow> bytes \<Rightarrow> bytes \<Rightarrow> py_error + file_system" where
  "py_dilithium_store_public_key m fs key_name public_key = km_err (dilithium_store_public_key m fs key_name public_key)"

definition py_dilithium_store_private_key ::
    "dilithium_key_manager \<Rightarrow> file_system \<Rightarrow> bytes \<Rightarrow> bytes \<Rightarrow> py_error + file_system" where
  "py_dilithium_store_private_key m fs key_name private_key = km_err (dilithium_store_private_key m fs key_name private_key)"

definition py_dilithium_get_public_key :: "dilithium_key_manager \<Rightarrow> file_system \<Rightarrow> bytes \<Rightarrow> py_error + py_value" where
  "py_dilithium_get_public_key m fs key_name = bytes_to_py (km_err (dilithium_get_public_key m fs key_name))"

definition py_dilithium_get_private_key :: "dilithium_key_manager \<Rightarrow> file_system \<Rightarrow> bytes \<Rightarrow> py_error + py_value" where
  "py_dilithium_get_private_key m fs key_name = bytes_to_py (km_err (dilithium_get_private_key m fs key_name))"

definition py_dilithium_get_jose_format :: "(bytes \<Rightarrow> bytes) \<Rightarrow> dilithium_key_manager \<Rightarrow> bytes \<Rightarrow> py_value" where
  "py_dilithium_get_jose_format b64 m public_key = jose_to_py (dilithium_get_jose_format b64 m public_key)"

definition py_dilithium_sign :: "'j deps \<Rightarrow> bytes \<Rightarrow> bytes \<Rightarrow> py_error + py_value" where
  "py_dilithium_sign D private_key message = bytes_to_py (km_err (dilithium_km_sign D private_key message))"

definition py_dilithium_verify_signature :: "'j deps \<Rightarrow> bytes \<Rightarrow> bytes \<Rightarrow> bytes \<Rightarrow> py_error + bool" where
  "py_dilithium_verify_signature D public_key message signature =
     km_err (dilithium_km_verify_signature D public_key message signature)"

definition py_kyber_new :: "path \<Rightarrow> nat \<Rightarrow> kyber_key_manager" where
  "py_kyber_new keys_dir security_level = kyber_km_new keys_dir security_level"

definition py_kyber_generate_keypair ::
    "(nat \<Rightarrow> bytes \<times> bytes) \<Rightarrow> kyber_key_manager \<Rightarrow> nat option \<Rightarrow> py_error + py_value" where
  "py_kyber_generate_keypair keypair m security_level =
     (let level = (case security_level of Some l \<Rightarrow> l | None \<Rightarrow> ky_security_level m)
      in pair_to_py (km_err (kyber_generate_keypair keypair (kyber_km_new (ky_keys_dir m) level))))"

definition py_kyber_store_public_key ::
    "kyber_key_manager \<Rightarrow> file_system \<Rightarrow> bytes \<Rightarrow> bytes \<Rightarrow> py_error + file_system" where
  "py_kyber_store_public_key m fs key_name public_key = km_err (kyber_store_public_key m fs key_name public_key)"

definition py_kyber_store_private_key ::
    "kyber_key_manager \<Rightarrow> file_system \<Rightarrow> bytes \<Rightarrow> bytes \<Rightarrow> py_error + file_system" where
  "py_kyber_store_private_key m fs key_name private_key = km_err (kyber_store_private_key m fs key_name private_key)"

definition py_kyber_get_public_key :: "kyber_key_manager \<Rightarrow> file_system \<Rightarrow> bytes \<Rightarrow> py_error + py_value" where
  "py_kyber_get_public_key m fs key_name = bytes_to_py (km_err (kyber_get_public_key m fs key_name))"

definition py_kyber_get_private_key :: "kyber_key_manager \<Rightarrow> file_system \<Rightarrow> bytes \<Rightarrow> py_error + py_value" where
  "py_kyber_get_private_key m fs key_name = bytes_to_py (km_err (kyber_get_private_key m fs key_name))"

definition py_kyber_get_jose_format :: "(bytes \<Rightarrow> bytes) \<Rightarrow> kyber_key_manager \<Rightarrow> bytes \<Rightarrow> py_value" where
  "py_kyber_get_jose_format b64 m public_key = jose_to_py (kyber_get_jose_format b64 m public_key)"

definition py_ed25519_new :: "path \<Rightarrow> ed25519_key_manager" where
  "py_ed25519_new keys_dir = ed25519_km_new keys_dir"

definition py_ed25519_generate_keypair :: "(bytes \<Rightarrow> bytes) \<Rightarrow> bytes \<Rightarrow> py_error + py_value" where
  "py_ed25519_generate_keypair public_of seed = pair_to_py (km_err (ed25519_generate_keypair public_of seed))"

definition py_ed25519_store_public_key ::
    "ed25519_key_manager \<Rightarrow> file_system \<Rightarrow> bytes \<Rightarrow> bytes \<Rightarrow> py_error + file_system" where
  "py_ed25519_store_public_key m fs key_name public_key = km_err (ed25519_store_public_key m fs key_name public_key)"

definition py_ed25519_store_private_key ::
    "ed25519_key_manager \<Rightarrow> file_system \<Rightarrow> bytes \<Rightarrow> bytes \<Rightarrow> py_error + file_system" where
  "py_ed25519_store_private_key m fs key_name private_key = km_err (ed25519_store_private_key m fs key_name private_key)"

definition py_ed25519_get_public_key :: "ed25519_key_manager \<Rightarrow> file_system \<Rightarrow> bytes \<Rightarrow> py_error + py_value" where
  "py_ed25519_get_public_key m fs key_name = bytes_to_py (km_err (ed25519_get_public_key m fs key_name))"

definition py_ed25519_get_private_key :: "ed25519_key_manager \<Rightarrow> file_system \<Rightarrow> bytes \<Rightarrow> py_error + py_value" where
  "py_ed25519_get_private_key m fs key_name = bytes_to_py (km_err (ed25519_get_private_key m fs key_name))"

definition py_ed25519_get_jose_format :: "(bytes \<Rightarrow> bytes) \<Rightarrow> bytes \<Rightarrow> py_value" where
  "py_ed25519_get_jose_format b64 public_key = jose_to_py (ed25519_get_jose_format b64 public_key)"

definition py_ed25519_sign :: "'j deps \<Rightarrow> bytes \<Rightarrow> bytes \<Rightarrow> py_error + py_value" where
  "py_ed25519_sign D private_key message = bytes_to_py (km_err (ed25519_km_sign D private_key message))"

definition py_ed25519_verify_signature :: "'j deps \<Rightarrow> bytes \<Rightarrow> bytes \<Rightarrow> bytes \<Rightarrow> py_error + bool" where
  "py_ed25519_verify_signature D public_key message signature =
     km_err (ed25519_km_verify_signature D public_key message signature)"

subsection \<open>What a Python program sees of a publication\<close>

text \<open>The item of a dictionary.\<close>

definition item :: "py_value \<Rightarrow> bytes \<Rightarrow> py_value option" where
  "item v k = (case v of PyDict items \<Rightarrow> map_of items k | _ \<Rightarrow> None)"

lemma outcome_items:
  "item (set_outcome_to_py oc) (lit ''status'') =
     Some (PyStr (case oc of Complete _ \<Rightarrow> lit ''complete'' | Degraded _ \<Rightarrow> lit ''degraded'' | Rejected _ _ \<Rightarrow> lit ''rejected''))"
  "item (set_outcome_to_py oc) (lit ''reason'') =
     Some (case oc of Rejected reason _ \<Rightarrow> PyStr (rejection_name reason) | _ \<Rightarrow> PyNone)"
  "item (set_outcome_to_py oc) (lit ''report'') = Some (set_report_to_py (outcome_report oc))"
  by (cases oc; simp add: set_outcome_to_py_def item_def lit_def)+

lemma status_names:
  "lit ''degraded'' \<noteq> lit ''complete''" "lit ''rejected'' \<noteq> lit ''complete''"
  "rejection_name r = lit ''existing_record'' \<or> rejection_name r = lit ''invalid_record'' \<or> rejection_name r = lit ''replica_conflict'' \<longleftrightarrow>
   r \<in> {ExistingRecord, InvalidRecord, ReplicaConflict}"
  by (cases r; simp add: rejection_name_def lit_def)+

lemma report_items:
  "item (set_report_to_py r) (lit ''expected_replicas'') = Some (PyInt (sr_expected_replicas r))"
  "item (set_report_to_py r) (lit ''acknowledged_replicas'') = Some (PyInt (acknowledged_replicas r))"
  by (simp_all add: set_report_to_py_def item_def lit_def)

lemma classified_complete:
  "classify_set_report r = Complete r' \<Longrightarrow> r' = r \<and> acknowledged_replicas r = sr_expected_replicas r \<and> 0 < sr_expected_replicas r"
  by (auto simp: classify_set_report_def Let_def split: if_splits)

lemma set_detailed_complete:
  assumes "set_detailed E D h sv key v = (sv', Complete r)"
  shows "acknowledged_replicas r = sr_expected_replicas r \<and> 0 < sr_expected_replicas r"
proof -
  have "acknowledged_replicas r = sr_expected_replicas r \<and> 0 < sr_expected_replicas r"
    if "set_digest_detailed E sv1 dkey v lookup = (sv', Complete r)" for sv1 dkey lookup
    using that by (auto simp: set_digest_detailed_def Let_def case_prod_beta dest: classified_complete split: option.splits if_splits)
  then show ?thesis using assms
    by (auto simp: set_detailed_def Let_def case_prod_beta split: if_splits publish_lookup.splits prod.splits)
qed

text \<open>
  Property C32. The two publishing methods of the Python class agree: from the same state they
  leave the server in the same state; \<open>set\<close> returns True exactly when the details say complete,
  None exactly when they give a conflict, an existing record or an invalid one as the reason, and
  False otherwise. With True the report counts as many acknowledgements as replicas, and not zero.
\<close>

theorem py_set_agrees:
  assumes "py_set E D s key v = (s1, r)" "py_set_detailed E D s key v = (s2, d)"
  shows "s1 = s2 \<and> (r = PyBool True \<longleftrightarrow> item d (lit ''status'') = Some (PyStr (lit ''complete''))) \<and>
    (r = PyNone \<longleftrightarrow> item d (lit ''reason'') \<in> (\<lambda>n. Some (PyStr (lit n))) ` {''existing_record'', ''invalid_record'', ''replica_conflict''}) \<and>
    r \<in> {PyBool True, PyBool False, PyNone} \<and>
    (r = PyBool True \<longrightarrow> (\<exists>report n. item d (lit ''report'') = Some report \<and> 0 < n \<and>
       item report (lit ''expected_replicas'') = Some (PyInt n) \<and> item report (lit ''acknowledged_replicas'') = Some (PyInt n)))"
proof -
  obtain sv oc where oc: "set_detailed E D (ps_handler s) (ps_inner s) key v = (sv, oc)" by fastforce
  then have d: "s1 = s2" "d = set_outcome_to_py oc"
    "r = optional_bool_to_py (snd (server_set E D (ps_handler s) (ps_inner s) key v))"
    using assms by (auto simp: py_set_def py_set_detailed_def server_set_def)
  show ?thesis
  proof (cases oc)
    case (Complete rep)
    then show ?thesis using d oc set_detailed_complete [of E D "ps_handler s" "ps_inner s" key v sv rep]
      by (auto simp: outcome_items report_items optional_bool_to_py_def server_set_def outcome_report_def)
  next
    case (Degraded rep)
    then show ?thesis using d oc by (auto simp: outcome_items optional_bool_to_py_def server_set_def status_names)
  next
    case (Rejected reason rep)
    then show ?thesis using d oc
      by (simp add: outcome_items optional_bool_to_py_def server_set_def status_names)
  qed
qed

text \<open>A server that does not listen yet refuses a record that is none.\<close>

definition wpython :: py_server where
  "wpython = \<lparr>ps_inner = server_new wdeps wclock [] 2 1 (Some (wid 1)) (Some (with_max_storage_bytes DEFAULT_TTL 200)) False,
     ps_handler = whandler\<rparr>"

lemma wpython_created:
  "py_server_new wdeps wclock [] (\<lambda>_. None) 2 1 None (Some (id_bytes (wid 1))) False 200 = Inr wpython"
  by (simp add: py_server_new_def wpython_def ID_LEN_def)

theorem py_set_agrees_witness:
  "\<exists>s d. py_set wenv wdeps wpython wdoc [] = (s, PyNone) \<and> py_set_detailed wenv wdeps wpython wdoc [] = (s, d) \<and>
     item d (lit ''reason'') = Some (PyStr (lit ''invalid_record''))"
proof -
  obtain s1 r s2 d where run: "py_set wenv wdeps wpython wdoc [] = (s1, r)" "py_set_detailed wenv wdeps wpython wdoc [] = (s2, d)"
    by fastforce
  have "fst (verify_record wdeps whandler None wkey []) = False" by code_simp
  then have "snd (set_detailed wenv wdeps (ps_handler wpython) (ps_inner wpython) wdoc []) = Rejected InvalidRecord set_report_default"
    by (simp add: set_detailed_def verify_value_def wpython_def server_new_def digest_def digest_bytes_def wkey_def case_prod_beta)
  then have "item d (lit ''reason'') = Some (PyStr (lit ''invalid_record''))"
    using run(2) by (auto simp: py_set_detailed_def case_prod_beta outcome_items rejection_name_def)
  then show ?thesis using py_set_agrees [OF run] run by auto
qed

subsection \<open>The level a JWK names\<close>

text \<open>
  A key pair may be generated at another level than that of its manager; the JWK names the level of
  the manager all the same.
\<close>

lemma jose_level_of_manager:
  assumes "level \<in> {2, 3, 5}"
  shows "py_dilithium_generate_keypair keypair m (Some level) =
      Inr (PyTuple [PyBytes (fst (keypair level)), PyBytes (snd (keypair level))])"
    and "item (py_dilithium_get_jose_format b64 m (fst (keypair level))) (lit ''alg'') =
      Some (PyStr (lit ''CRYDI'' @ decimal_text (dk_security_level m)))"
  using assms
  by (auto simp: py_dilithium_generate_keypair_def dilithium_generate_keypair_def dilithium_km_new_def pair_to_py_def km_err_def
      py_dilithium_get_jose_format_def jose_to_py_def dilithium_get_jose_format_def item_def lit_def case_prod_beta)

end
