(* ===== verification/Attacker.thy ===== *)
theory Attacker
  imports Testbed KeyManager Exchange "HOL-Library.List_Lexorder"
begin

text \<open>
  The attacker of the testbed (\<open>src/testbed/attacker.rs\<close>): it reads the Ethernet frames of the host,
  puts the STORE and UPDATE requests of the nodes together again, and sends forged records for the
  DIDs it sees. The sniffer is one function per frame, each loop one function per event. The packet
  socket, the command line and what is logged are not modelled; indexing a slice out of its bounds
  panics, which is the value \<open>Inl\<close>.
\<close>

subsection \<open>Frames\<close>

definition KADF_MAGIC :: bytes where
  "KADF_MAGIC = lit ''KADF''"

definition KADF_HEADER :: nat where
  "KADF_HEADER = 12"

definition PARTIAL_TTL :: duration where
  "PARTIAL_TTL = secs 10"

definition ATTACK_ONCE_PER :: duration where
  "ATTACK_ONCE_PER = secs 5"

text \<open>The four octets of an \<open>Ipv4Addr\<close>, and its text.\<close>

type_synonym ipv4 = bytes

definition ipv4_text :: "ipv4 \<Rightarrow> bytes" where
  "ipv4_text ip = concat (map (\<lambda>(i, o'). (if i = 0 then [] else lit ''.'') @ decimal_text (unat o')) (List.enumerate 0 ip))"

datatype panic = IndexOutOfBounds

definition parse_udp :: "bytes \<Rightarrow> panic + (ipv4 \<times> u16 \<times> ipv4 \<times> u16 \<times> bytes) option" where
  "parse_udp frame =
     (if length frame < 14 + 20 + 8 \<or> take 2 (drop 12 frame) \<noteq> [8, 0] then Inr None
      else
        (let ip = drop 14 frame in
         if drop_bit 4 (ip ! 0) \<noteq> 4 \<or> ip ! 9 \<noteq> 17 then Inr None
         else if (u16_from_be_bytes [ip ! 6, ip ! 7]) AND 0x3fff \<noteq> 0 then Inr None
         else
           (let header_len = unat ((ip ! 0) AND 0x0f) * 4;
                total_len = unat (u16_from_be_bytes [ip ! 2, ip ! 3])
            in if total_len > length ip then Inr None
               else
                 (let ip = take total_len ip in
                  if header_len > length ip then Inr None
                  else
                    (let udp = drop header_len ip in
                     if length udp < 8 then Inr None
                     else if length ip < 20 then Inl IndexOutOfBounds
                     else Inr (Some (take 4 (drop 12 ip), u16_from_be_bytes [udp ! 0, udp ! 1],
                                     take 4 (drop 16 ip), u16_from_be_bytes [udp ! 2, udp ! 3], drop 8 udp)))))))"

subsection \<open>The sniffer\<close>

record observed =
  ob_update :: bool
  ob_from :: ipv4
  ob_to :: ipv4
  ob_to_port :: u16
  ob_key :: node_id
  ob_value :: bytes
  ob_seen :: instant

datatype sighting = Seen_Node ipv4 | Seen_Request observed

record partial_message =
  pm_total :: u16
  pm_chunks :: "(u16 \<times> bytes) list"
  pm_started :: instant

type_synonym message_id = "ipv4 \<times> u16 \<times> u32"

record sniffer =
  sn_partial :: "(message_id \<times> partial_message) list"
  sn_done :: "(message_id \<times> instant) list"
  sn_nodes :: "ipv4 set"
  sn_last_cleanup :: instant

definition is_node :: "u8 \<times> u8 \<Rightarrow> ipv4 \<Rightarrow> bool" where
  "is_node prefix ip \<longleftrightarrow> take 2 ip = [fst prefix, snd prefix] \<and> ip \<noteq> [fst prefix, snd prefix, 0, 1]"

text \<open>\<open>nodes.insert\<close>, and the message sent when the address is new.\<close>

definition meet_node :: "sniffer \<times> sighting list \<Rightarrow> ipv4 \<Rightarrow> sniffer \<times> sighting list" where
  "meet_node = (\<lambda>(s, out) ip.
     if ip \<in> sn_nodes s then (s, out) else (s\<lparr>sn_nodes := insert ip (sn_nodes s)\<rparr>, out @ [Seen_Node ip]))"

definition request_of :: "frame option \<Rightarrow> (bool \<times> node_id \<times> bytes) option" where
  "request_of fr =
     (case fr of
        Some f \<Rightarrow>
          if \<not> fr_is_request f then None
          else (case fr_message f of
                  Update _ key v _ \<Rightarrow> Some (True, key, v)
                | Store _ key v \<Rightarrow> Some (False, key, v)
                | _ \<Rightarrow> None)
      | None \<Rightarrow> None)"

definition collect :: "partial_message \<Rightarrow> bytes" where
  "collect e = concat (List.map_filter (\<lambda>i. map_of (pm_chunks e) (word_of_nat i)) [0..<unat (pm_total e)])"

definition cleanup :: "instant \<Rightarrow> sniffer \<Rightarrow> sniffer" where
  "cleanup now s =
     (if now - sn_last_cleanup s > secs 1
      then s\<lparr>sn_partial := filter (\<lambda>(_, e). now - pm_started e < PARTIAL_TTL) (sn_partial s),
             sn_done := filter (\<lambda>(_, at). now - at < PARTIAL_TTL * 3) (sn_done s),
             sn_last_cleanup := now\<rparr>
      else s)"

text \<open>One KADF datagram between two nodes; the last line of the loop follows.\<close>

definition sniff_datagram ::
    "world \<Rightarrow> instant \<Rightarrow> ipv4 \<Rightarrow> u16 \<Rightarrow> ipv4 \<Rightarrow> u16 \<Rightarrow> bytes \<Rightarrow> sniffer \<Rightarrow> sniffer \<times> sighting list" where
  "sniff_datagram W now src src_port dst dst_port payload s =
     (let frag_id = u32_from_be_bytes (take 4 (drop 4 payload));
          index = u16_from_be_bytes (take 2 (drop 8 payload));
          tot = u16_from_be_bytes (take 2 (drop 10 payload));
          message_id = (src, src_port, frag_id)
      in if tot = 0 \<or> index \<ge> tot \<or> map_of (sn_done s) message_id \<noteq> None then (s, [])
         else
           (let entry = (case map_of (sn_partial s) message_id of
                           Some e \<Rightarrow> e
                         | None \<Rightarrow> \<lparr>pm_total = tot, pm_chunks = [], pm_started = now\<rparr>);
                entry = entry\<lparr>pm_chunks := AList.update index (drop KADF_HEADER payload) (pm_chunks entry)\<rparr>;
                (s1, out) =
                  (if length (pm_chunks entry) = unat (pm_total entry)
                   then (s\<lparr>sn_partial := AList.delete message_id (sn_partial s),
                           sn_done := AList.update message_id now (sn_done s)\<rparr>,
                         case request_of (w_deserialize W (collect entry)) of
                           None \<Rightarrow> []
                         | Some (update, key, v) \<Rightarrow>
                             [Seen_Request \<lparr>ob_update = update, ob_from = src, ob_to = dst, ob_to_port = dst_port,
                                            ob_key = key, ob_value = v, ob_seen = now\<rparr>])
                   else (s\<lparr>sn_partial := AList.update message_id entry (sn_partial s)\<rparr>, []))
            in (cleanup now s1, out)))"

text \<open>One turn of the loop of \<open>sniff\<close>.\<close>

definition sniff_frame ::
    "world \<Rightarrow> u8 \<times> u8 \<Rightarrow> u16 \<Rightarrow> sniffer \<Rightarrow> instant \<times> bytes \<Rightarrow> panic + sniffer \<times> sighting list" where
  "sniff_frame W prefix dht_port s = (\<lambda>(now, frame).
     and_then (parse_udp frame) (\<lambda>parsed.
       case parsed of
         None \<Rightarrow> Inr (s, [])
       | Some (src, src_port, dst, dst_port, payload) \<Rightarrow>
           if dst_port \<noteq> dht_port \<or> \<not> is_node prefix src \<or> \<not> is_node prefix dst then Inr (s, [])
           else
             (let (s1, met) = foldl meet_node (s, []) [src, dst] in
              if length payload < KADF_HEADER \<or> take 4 payload \<noteq> KADF_MAGIC then Inr (s1, met)
              else
                (let (s2, out) = sniff_datagram W now src src_port dst dst_port payload s1
                 in Inr (s2, met @ out)))))"

fun sniff ::
    "world \<Rightarrow> u8 \<times> u8 \<Rightarrow> u16 \<Rightarrow> sniffer \<Rightarrow> (instant \<times> bytes) list \<Rightarrow> panic + sniffer \<times> sighting list" where
  "sniff W prefix dht_port s [] = Inr (s, [])"
| "sniff W prefix dht_port s (f # fs) =
     and_then (sniff_frame W prefix dht_port s f) (\<lambda>(s1, out).
     and_then (sniff W prefix dht_port s1 fs) (\<lambda>(s2, out'). Inr (s2, out @ out')))"

subsection \<open>The attack\<close>

definition replica :: "ipv4 \<Rightarrow> u16 \<Rightarrow> node" where
  "replica ip port = node_new (id_of_bytes (replicate ID_LEN 0)) (Some (ipv4_text ip)) (Some port)"

definition answer_name :: "store_status option \<Rightarrow> bytes" where
  "answer_name reply =
     (case reply of
        Some StoreStatus_Stored \<Rightarrow> lit ''Stored''
      | Some StoreStatus_AlreadyStored \<Rightarrow> lit ''AlreadyStored''
      | Some StoreStatus_Conflict \<Rightarrow> lit ''Conflict''
      | Some StoreStatus_CapacityExceeded \<Rightarrow> lit ''CapacityExceeded''
      | Some StoreStatus_InvalidRecord \<Rightarrow> lit ''InvalidRecord''
      | None \<Rightarrow> lit ''no answer'')"

text \<open>The counts in the order of a \<open>BTreeMap\<close>, and their text.\<close>

definition tally_counts :: "store_status option list \<Rightarrow> (bytes \<times> nat) list" where
  "tally_counts replies =
     (let names = map answer_name replies
      in map (\<lambda>n. (n, length (filter ((=) n) names))) (sort (remdups names)))"

definition tally :: "store_status option list \<Rightarrow> bytes" where
  "tally replies =
     concat (map (\<lambda>(i, name, n). (if i = 0 then [] else lit '' '') @ name @ lit ''='' @ decimal_text n)
       (List.enumerate 0 (tally_counts replies)))"

type_synonym attacked = "((ipv4 \<times> node_id) \<times> instant) list"

text \<open>What \<open>react_to_updates\<close> does with one sighting: the DID it starts a task for, if any.\<close>

definition react_step ::
    "'j deps \<Rightarrow> instant \<Rightarrow> attacked \<Rightarrow> sighting \<Rightarrow> attacked \<times> (bytes \<times> observed) option" where
  "react_step D now attacked s =
     (case s of
        Seen_Node _ \<Rightarrow> (attacked, None)
      | Seen_Request update \<Rightarrow>
          if \<not> ob_update update then (attacked, None)
          else
            (let target = (ob_to update, ob_key update) in
             if (case map_of attacked target of None \<Rightarrow> False | Some at \<Rightarrow> now - at < ATTACK_ONCE_PER) then (attacked, None)
             else
               (let attacked = filter (\<lambda>(_, at). now - at < ATTACK_ONCE_PER) (AList.update target now attacked)
                in (attacked, map_option (\<lambda>did. (did, update)) (did_of D (ob_value update))))))"

text \<open>
  The task: \<open>copies\<close> forged STOREs at once, spread over the attacker's nodes. \<open>rank\<close> is the order in
  which they end.
\<close>

definition forged_record :: "'j deps \<Rightarrow> (bytes \<Rightarrow> bytes \<Rightarrow> bytes \<Rightarrow> bytes) \<Rightarrow> draws \<Rightarrow> bytes \<Rightarrow> bytes" where
  "forged_record D body dr did = vs_record (version_generate D body dr did)"

definition forged_stores ::
    "env \<Rightarrow> (nat \<Rightarrow> nat) \<Rightarrow> observed \<Rightarrow> bytes \<Rightarrow> nat \<Rightarrow> proto list \<Rightarrow> proto list \<times> store_status option list" where
  "forged_stores E rank update forged copies protocols =
     join_all rank
       (\<lambda>ps index.
          (let k = index mod length ps;
               (p, reply) = call_store_rpc E (ps ! k) (replica (ob_to update) (ob_to_port update)) (ob_key update) forged
           in (ps[k := p], reply)))
       protocols [0..<copies]"

subsection \<open>Persistent attack\<close>

record attack_target =
  at_did :: bytes
  at_forged :: bytes
  at_learned :: instant

record persist_state =
  pt_targets :: "(node_id \<times> attack_target) list"
  pt_nodes :: "ipv4 list"
  pt_answers :: "store_status option list"
  pt_report :: instant

datatype persist_event = Persist_Seen sighting | Persist_Answer "store_status option" | Persist_Tick

text \<open>
  One branch of the \<open>select!\<close> of \<open>persist\<close>: the new state, and the forged STOREs it starts as
  replica, key and record. The order in which a \<open>HashMap\<close> or \<open>HashSet\<close> is walked is not specified;
  here it is the order of the lists.
\<close>

definition persist_step ::
    "'j deps \<Rightarrow> (bytes \<Rightarrow> bytes \<Rightarrow> bytes \<Rightarrow> bytes) \<Rightarrow> draws \<Rightarrow> u16 \<Rightarrow> duration \<Rightarrow> instant \<Rightarrow> persist_state \<Rightarrow> persist_event \<Rightarrow>
     persist_state \<times> (node \<times> node_id \<times> bytes) list" where
  "persist_step D body dr dht_port did_ttl now st ev =
     (case ev of
        Persist_Seen (Seen_Node ip) \<Rightarrow> (st\<lparr>pt_nodes := List.insert ip (pt_nodes st)\<rparr>, [])
      | Persist_Seen (Seen_Request ob) \<Rightarrow>
          (if map_of (pt_targets st) (ob_key ob) \<noteq> None then (st, [])
           else case did_of D (ob_value ob) of
                  None \<Rightarrow> (st, [])
                | Some did \<Rightarrow>
                    (st\<lparr>pt_targets := AList.update (ob_key ob)
                          \<lparr>at_did = did, at_forged = forged_record D body dr did, at_learned = now\<rparr> (pt_targets st)\<rparr>, []))
      | Persist_Answer reply \<Rightarrow> (st\<lparr>pt_answers := pt_answers st @ [reply]\<rparr>, [])
      | Persist_Tick \<Rightarrow>
          (let st1 = st\<lparr>pt_targets := filter (\<lambda>(_, t). now - at_learned t < did_ttl) (pt_targets st)\<rparr>;
               stores = concat (map (\<lambda>(key, t). map (\<lambda>ip. (replica ip dht_port, key, at_forged t)) (pt_nodes st1)) (pt_targets st1))
           in (if now - pt_report st1 \<ge> secs 5 then st1\<lparr>pt_answers := [], pt_report := now\<rparr> else st1, stores)))"

subsection \<open>The sniffer reads what the nodes send\<close>

text \<open>A UDP datagram in an Ethernet frame, as the host sends it: no IP options, don't fragment.\<close>

definition udp_frame :: "ipv4 \<Rightarrow> u16 \<Rightarrow> ipv4 \<Rightarrow> u16 \<Rightarrow> bytes \<Rightarrow> bytes" where
  "udp_frame src src_port dst dst_port payload =
     replicate 12 0 @ [8, 0] @
     [0x45, 0] @ u16_to_be_bytes (word_of_nat (28 + length payload)) @ [0, 0, 0x40, 0, 64, 17, 0, 0] @ src @ dst @
     u16_to_be_bytes src_port @ u16_to_be_bytes dst_port @ u16_to_be_bytes (word_of_nat (8 + length payload)) @ [0, 0] @ payload"

lemma u16_two_bytes: obtains a b where "u16_to_be_bytes w = [a, b]" "u16_from_be_bytes [a, b] = w"
proof -
  have "length (u16_to_be_bytes w) = Suc (Suc 0)" by simp
  then obtain a b where ab: "u16_to_be_bytes w = [a, b]"
    by (auto simp: length_Suc_conv simp del: length_u16_to_be_bytes)
  then have "u16_from_be_bytes [a, b] = w" using u16_roundtrip [of w] by simp
  with ab show thesis by (rule that)
qed

lemma parse_udp_frame:
  assumes "length src = 4" "length dst = 4" "length payload \<le> 65507"
  shows "parse_udp (udp_frame src sp dst dp payload) = Inr (Some (src, sp, dst, dp, payload))"
proof -
  obtain a b c d where src: "src = [a, b, c, d]" using assms(1) by (auto simp: numeral_eq_Suc length_Suc_conv)
  obtain a' b' c' d' where dst: "dst = [a', b', c', d']" using assms(2) by (auto simp: numeral_eq_Suc length_Suc_conv)
  let ?len = "word_of_nat (28 + length payload) :: u16"
  obtain l1 l2 where l: "u16_to_be_bytes ?len = [l1, l2]" "u16_from_be_bytes [l1, l2] = ?len" by (rule u16_two_bytes)
  obtain m1 m2 where m: "u16_to_be_bytes (word_of_nat (8 + length payload)) = [m1, m2]" by (rule u16_two_bytes)
  obtain s1 s2 where s: "u16_to_be_bytes sp = [s1, s2]" "u16_from_be_bytes [s1, s2] = sp" by (rule u16_two_bytes)
  obtain d1 d2 where d: "u16_to_be_bytes dp = [d1, d2]" "u16_from_be_bytes [d1, d2] = dp" by (rule u16_two_bytes)
  have len: "unat ?len = 28 + length payload" using assms(3) by (intro unat_word_of_nat16) simp
  have flags: "u16_from_be_bytes [64, 0] AND 0x3fff = 0" "drop_bit 4 (0x45 :: u8) = 4" "unat ((0x45 :: u8) AND 0x0f) = 5"
    by code_simp+
  have drop12: "drop 12 (udp_frame src sp dst dp payload) =
      [8, 0, 0x45, 0, l1, l2, 0, 0, 64, 0, 64, 17, 0, 0, a, b, c, d, a', b', c', d', s1, s2, d1, d2, m1, m2, 0, 0] @ payload"
    by (simp add: udp_frame_def src dst l m s d del: of_nat_add)
  then have drop14: "drop 14 (udp_frame src sp dst dp payload) =
      [0x45, 0, l1, l2, 0, 0, 64, 0, 64, 17, 0, 0, a, b, c, d, a', b', c', d', s1, s2, d1, d2, m1, m2, 0, 0] @ payload"
    using drop_drop [of 2 12 "udp_frame src sp dst dp payload"] by simp
  have "length (udp_frame src sp dst dp payload) = 42 + length payload"
    by (simp add: udp_frame_def src dst l m s d del: of_nat_add)
  then show ?thesis
    using len flags l(2) s(2) d(2) unfolding parse_udp_def drop12 drop14
    by (simp add: src dst Let_def del: of_nat_add)
qed

text \<open>
  A packet that gives its own length as less than an IP header, and its header as shorter still,
  passes every test and then is read past its end.
\<close>

lemma parse_udp_panics:
  "parse_udp (replicate 12 0 @ [8, 0, 0x40, 0, 0, 8, 0, 0, 0, 0, 64, 17] @ replicate 18 0) = Inl IndexOutOfBounds"
  by code_simp

lemma meet_nodes_fields:
  "foldl meet_node (s, out) ips = (s', out') \<Longrightarrow>
   sn_partial s' = sn_partial s \<and> sn_done s' = sn_done s \<and> (\<forall>x. Seen_Request x \<in> set out' \<longrightarrow> Seen_Request x \<in> set out)"
  by (induction ips arbitrary: s out) (fastforce simp: meet_node_def split: if_splits)+

definition sightings :: "sighting list \<Rightarrow> observed list" where
  "sightings out = List.map_filter (\<lambda>x. case x of Seen_Request ob \<Rightarrow> Some ob | _ \<Rightarrow> None) out"

lemma sightings_simps [simp]:
  "sightings [] = []" "sightings (xs @ ys) = sightings xs @ sightings ys"
  "sightings (Seen_Request ob # xs) = ob # sightings xs" "sightings (Seen_Node ip # xs) = sightings xs"
  by (simp_all add: sightings_def map_filter_def)

lemma no_sightings: "\<forall>x. Seen_Request x \<notin> set out \<Longrightarrow> sightings out = []"
proof (induction out)
  case (Cons a out)
  then show ?case by (cases a) auto
qed simp

text \<open>What is left of the message once its datagram \<open>k\<close> is parsed.\<close>

definition gathered ::
    "message_id \<Rightarrow> bytes \<Rightarrow> instant \<Rightarrow> nat set \<Rightarrow> sniffer \<Rightarrow> bool" where
  "gathered mid payload t0 S s \<longleftrightarrow> map_of (sn_done s) mid = None \<and>
     (case map_of (sn_partial s) mid of
        None \<Rightarrow> S = {}
      | Some e \<Rightarrow> pm_total e = word_of_nat (frag_total payload) \<and> pm_started e = t0 \<and> distinct (map fst (pm_chunks e)) \<and>
          fst ` set (pm_chunks e) = word_of_nat ` S \<and>
          (\<forall>k \<in> S. map_of (pm_chunks e) (word_of_nat k) = Some (frag_chunks payload ! k)))"

lemma word16_inj: "inj_on (word_of_nat :: nat \<Rightarrow> u16) {..<2 ^ 16}"
  by (rule inj_onI) (metis lessThan_iff unat_word_of_nat16)

lemma collect_all:
  assumes t: "frag_total payload < 2 ^ 16" "pm_total e = word_of_nat (frag_total payload)"
    and chunks: "\<forall>k < frag_total payload. map_of (pm_chunks e) (word_of_nat k) = Some (frag_chunks payload ! k)"
  shows "collect e = payload"
proof -
  have "List.map_filter (\<lambda>i. map_of (pm_chunks e) (word_of_nat i)) [0..<frag_total payload] =
      map (\<lambda>i. frag_chunks payload ! i) [0..<frag_total payload]"
    unfolding map_filter_def using chunks by (auto intro!: map_cong simp: filter_id_conv)
  also have "\<dots> = frag_chunks payload" by (simp add: frag_total_def map_nth)
  finally show ?thesis using t by (simp add: collect_def frag_chunks_facts(1))
qed

lemma gathered_cleanup:
  assumes "gathered mid payload t0 S s" "t - t0 < PARTIAL_TTL"
  shows "gathered mid payload t0 S (cleanup t s)"
proof -
  have "map_of (filter P (sn_done s)) mid = None" for P
    using assms(1) by (auto simp: gathered_def map_of_eq_None_iff)
  moreover have "map_of (filter (\<lambda>(_, e). t - pm_started e < PARTIAL_TTL) (sn_partial s)) mid = map_of (sn_partial s) mid"
  proof (cases "map_of (sn_partial s) mid")
    case None
    then show ?thesis by (simp add: map_of_filter_None)
  next
    case (Some e)
    then have "pm_started e = t0" using assms(1) by (simp add: gathered_def)
    then show ?thesis using map_of_filter_Some [OF Some] assms(2) Some by simp
  qed
  ultimately show ?thesis using assms(1) by (simp add: cleanup_def gathered_def)
qed

definition reported :: "world \<Rightarrow> instant \<Rightarrow> ipv4 \<Rightarrow> ipv4 \<Rightarrow> u16 \<Rightarrow> bytes \<Rightarrow> sighting list" where
  "reported W t src dst port payload =
     (case request_of (w_deserialize W payload) of
        None \<Rightarrow> []
      | Some (update, key, v) \<Rightarrow>
          [Seen_Request \<lparr>ob_update = update, ob_from = src, ob_to = dst, ob_to_port = port,
                         ob_key = key, ob_value = v, ob_seen = t\<rparr>])"

text \<open>The entry of the message after its datagram \<open>k\<close>.\<close>

definition with_chunk :: "bytes \<Rightarrow> instant \<Rightarrow> nat \<Rightarrow> partial_message option \<Rightarrow> partial_message" where
  "with_chunk payload t k e =
     (let e = (case e of Some e \<Rightarrow> e | None \<Rightarrow> \<lparr>pm_total = word_of_nat (frag_total payload), pm_chunks = [], pm_started = t\<rparr>)
      in e\<lparr>pm_chunks := AList.update (word_of_nat k) (frag_chunks payload ! k) (pm_chunks e)\<rparr>)"

lemma sniff_datagram_own:
  assumes len: "length payload \<le> 65535 * FRAG_CHUNK_SIZE" and k: "k < frag_total payload"
  shows "sniff_datagram W t src sp dst port (encode_fragments f payload ! k) s =
    (if map_of (sn_done s) (src, sp, f) \<noteq> None then (s, [])
     else
       (let e = with_chunk payload t k (map_of (sn_partial s) (src, sp, f)) in
        if length (pm_chunks e) = unat (pm_total e)
        then (cleanup t (s\<lparr>sn_partial := AList.delete (src, sp, f) (sn_partial s), sn_done := AList.update (src, sp, f) t (sn_done s)\<rparr>),
              reported W t src dst port (collect e))
        else (cleanup t (s\<lparr>sn_partial := AList.update (src, sp, f) e (sn_partial s)\<rparr>), [])))"
proof -
  have t: "frag_total payload < 2 ^ 16" using len by (simp only: frag_total_bound)
  have less: "(word_of_nat k :: u16) < word_of_nat (frag_total payload)" by (rule word_of_nat_less16 [OF k t])
  then have "(word_of_nat (frag_total payload) :: u16) \<noteq> 0" by auto
  then show ?thesis using less
    by (simp add: sniff_datagram_def encode_fragments_nth(2) [OF k] arr_simps KADF_HEADER_def with_chunk_def reported_def
        Let_def not_le)
qed

lemma with_chunk_gathered:
  assumes t: "frag_total payload < 2 ^ 16" and S: "S \<subseteq> {..<frag_total payload}" and k: "k < frag_total payload"
    and g: "gathered mid payload t0 S s" and first: "S = {} \<longrightarrow> t = t0"
  defines "e \<equiv> with_chunk payload t k (map_of (sn_partial s) mid)"
  shows "pm_total e = word_of_nat (frag_total payload)" "pm_started e = t0" "distinct (map fst (pm_chunks e))"
    "fst ` set (pm_chunks e) = word_of_nat ` insert k S" "length (pm_chunks e) = card (insert k S)"
    "j \<in> insert k S \<Longrightarrow> map_of (pm_chunks e) (word_of_nat j) = Some (frag_chunks payload ! j)"
proof -
  obtain e0 where e0: "e = e0\<lparr>pm_chunks := AList.update (word_of_nat k) (frag_chunks payload ! k) (pm_chunks e0)\<rparr>"
    "pm_total e0 = word_of_nat (frag_total payload)" "pm_started e0 = t0" "distinct (map fst (pm_chunks e0))"
    "fst ` set (pm_chunks e0) = word_of_nat ` S" "\<forall>j \<in> S. map_of (pm_chunks e0) (word_of_nat j) = Some (frag_chunks payload ! j)"
  proof (cases "map_of (sn_partial s) mid")
    case None
    then show ?thesis using that [of "\<lparr>pm_total = word_of_nat (frag_total payload), pm_chunks = [], pm_started = t\<rparr>"] g first
      by (simp add: gathered_def e_def with_chunk_def)
  next
    case (Some e0)
    then show ?thesis using that [of e0] g by (simp add: gathered_def e_def with_chunk_def del: map_of_eq_Some_iff)
  qed
  show "pm_total e = word_of_nat (frag_total payload)" "pm_started e = t0" using e0 by simp_all
  show dist: "distinct (map fst (pm_chunks e))" using e0(1,4) by (simp add: distinct_update)
  show keys: "fst ` set (pm_chunks e) = word_of_nat ` insert k S"
    using e0(1,5) by (simp add: dom_update)
  have inj: "inj_on (word_of_nat :: nat \<Rightarrow> u16) (insert k S)"
    by (rule inj_on_subset [OF word16_inj]) (use S k t in auto)
  have "card (fst ` set (pm_chunks e)) = length (pm_chunks e)" using distinct_card [OF dist] by simp
  then show "length (pm_chunks e) = card (insert k S)" unfolding keys using card_image [OF inj] by simp
  show "map_of (pm_chunks e) (word_of_nat j) = Some (frag_chunks payload ! j)" if "j \<in> insert k S"
    using that e0(1,6) inj by (auto simp: update_conv' inj_on_def)
qed

lemma gathered_step:
  assumes len: "length payload \<le> 65535 * FRAG_CHUNK_SIZE" and S: "S \<subseteq> {..<frag_total payload}" and k: "k < frag_total payload"
    and g: "gathered (src, sp, f) payload t0 S s" and first: "S = {} \<longrightarrow> t = t0" and t: "t - t0 < PARTIAL_TTL"
    and run: "sniff_datagram W t src sp dst port (encode_fragments f payload ! k) s = (s', out)"
  shows "if insert k S = {..<frag_total payload}
    then map_of (sn_done s') (src, sp, f) = Some t \<and> out = reported W t src dst port payload
    else gathered (src, sp, f) payload t0 (insert k S) s' \<and> out = []"
proof -
  have total16: "frag_total payload < 2 ^ 16" using len by (simp only: frag_total_bound)
  define e where "e = with_chunk payload t k (map_of (sn_partial s) (src, sp, f))"
  note e = with_chunk_gathered [OF total16 S k g first, folded e_def]
  have sub: "insert k S \<subseteq> {..<frag_total payload}" using S k by simp
  have "length (pm_chunks e) = card (insert k S)" "unat (pm_total e) = card {..<frag_total payload}"
    using e(1,5) total16 by simp_all
  then have full: "length (pm_chunks e) = unat (pm_total e) \<longleftrightarrow> insert k S = {..<frag_total payload}"
    using card_subset_eq [OF finite_lessThan sub] by metis
  have not_done: "map_of (sn_done s) (src, sp, f) = None" using g by (simp add: gathered_def)
  show ?thesis
  proof (cases "insert k S = {..<frag_total payload}")
    case True
    then have "\<forall>j < frag_total payload. map_of (pm_chunks e) (word_of_nat j) = Some (frag_chunks payload ! j)"
      using e(6) by auto
    then have "collect e = payload" by (rule collect_all [OF total16 e(1)])
    moreover have "map_of (sn_done (cleanup t (s\<lparr>sn_partial := x, sn_done := AList.update (src, sp, f) t (sn_done s)\<rparr>))) (src, sp, f) = Some t" for x
      using map_of_filter_Some [of "AList.update (src, sp, f) t (sn_done s)" "(src, sp, f)" t]
      by (simp add: cleanup_def update_conv' PARTIAL_TTL_def secs_def)
    ultimately show ?thesis using run full True not_done
      by (simp add: sniff_datagram_own [OF len k] Let_def e_def [symmetric]) blast
  next
    case False
    have "gathered (src, sp, f) payload t0 (insert k S) (s\<lparr>sn_partial := AList.update (src, sp, f) e (sn_partial s)\<rparr>)"
      using not_done e by (simp add: gathered_def update_conv' del: map_of_eq_Some_iff)
    from gathered_cleanup [OF this t] show ?thesis using run full False not_done
      by (simp add: sniff_datagram_own [OF len k] Let_def e_def [symmetric])
  qed
qed

text \<open>A message between two nodes, as the sniffer sees it: when each packet is seen, and which it is.\<close>

definition seen_frames :: "ipv4 \<Rightarrow> u16 \<Rightarrow> ipv4 \<Rightarrow> u16 \<Rightarrow> u32 \<Rightarrow> bytes \<Rightarrow> (instant \<times> nat) list \<Rightarrow> (instant \<times> bytes) list" where
  "seen_frames src sp dst port f payload arrivals =
     map (\<lambda>(t, k). (t, udp_frame src sp dst port (encode_fragments f payload ! k))) arrivals"

definition between_nodes :: "u8 \<times> u8 \<Rightarrow> ipv4 \<Rightarrow> ipv4 \<Rightarrow> bool" where
  "between_nodes prefix src dst \<longleftrightarrow> is_node prefix src \<and> is_node prefix dst \<and> length src = 4 \<and> length dst = 4"

lemma fragment_length: "k < frag_total payload \<Longrightarrow> length (encode_fragments f payload ! k) \<le> 12 + FRAG_CHUNK_SIZE"
  using frag_chunks_facts(3) [of "frag_chunks payload ! k" payload]
  by (simp add: encode_fragments_nth(2) frag_datagram_fields frag_total_def)

lemma sniff_frame_own:
  assumes "between_nodes prefix src dst" "k < frag_total payload"
    and "foldl meet_node (s, []) [src, dst] = (s1, met)"
    and "sniff_datagram W t src sp dst port (encode_fragments f payload ! k) s1 = (s2, out)"
  shows "sniff_frame W prefix port s (t, udp_frame src sp dst port (encode_fragments f payload ! k)) = Inr (s2, met @ out)"
proof -
  have "KADF_MAGIC = u32_to_be_bytes FRAG_MAGIC" by code_simp
  moreover have "parse_udp (udp_frame src sp dst port (encode_fragments f payload ! k)) =
      Inr (Some (src, sp, dst, port, encode_fragments f payload ! k))"
    using assms(1) fragment_length [OF assms(2), of f] by (intro parse_udp_frame) (simp_all add: between_nodes_def FRAG_CHUNK_SIZE_def)
  ultimately show ?thesis using assms
    by (simp add: sniff_frame_def between_nodes_def encode_fragments_nth(2) arr_simps KADF_HEADER_def)
qed

lemma sniff_step:
  assumes nodes: "between_nodes prefix src dst" and len: "length payload \<le> 65535 * FRAG_CHUNK_SIZE"
    and S: "S \<subseteq> {..<frag_total payload}" and k: "k < frag_total payload"
    and g: "gathered (src, sp, f) payload t0 S s" and first: "S = {} \<longrightarrow> t = t0" and t: "t - t0 < PARTIAL_TTL"
  obtains s' out where
    "sniff_frame W prefix port s (t, udp_frame src sp dst port (encode_fragments f payload ! k)) = Inr (s', out)"
    "if insert k S = {..<frag_total payload}
     then map_of (sn_done s') (src, sp, f) = Some t \<and> sightings out = sightings (reported W t src dst port payload)
     else gathered (src, sp, f) payload t0 (insert k S) s' \<and> sightings out = []"
proof -
  obtain s1 met where m: "foldl meet_node (s, []) [src, dst] = (s1, met)" by fastforce
  have same: "sn_partial s1 = sn_partial s" "sn_done s1 = sn_done s" "sightings met = []"
    using meet_nodes_fields [OF m] no_sightings [of met] by auto
  then have "gathered (src, sp, f) payload t0 S s1" using g by (simp add: gathered_def)
  obtain s2 out where run: "sniff_datagram W t src sp dst port (encode_fragments f payload ! k) s1 = (s2, out)" by fastforce
  note step = gathered_step [OF len S k \<open>gathered (src, sp, f) payload t0 S s1\<close> first t run]
  show thesis
    by (rule that [OF sniff_frame_own [OF nodes k m run]]) (use step same(3) in \<open>auto split: if_splits\<close>)
qed

lemma sniff_after:
  assumes nodes: "between_nodes prefix src dst" and len: "length payload \<le> 65535 * FRAG_CHUNK_SIZE"
    and "list_all (\<lambda>(t, k). k < frag_total payload) arrivals" "map_of (sn_done s) (src, sp, f) \<noteq> None"
  shows "\<exists>s' out. sniff W prefix port s (seen_frames src sp dst port f payload arrivals) = Inr (s', out) \<and> sightings out = []"
  using assms(3-)
proof (induction arrivals arbitrary: s)
  case (Cons a arrivals)
  obtain t k where a: "a = (t, k)" by (cases a)
  obtain s1 met where m: "foldl meet_node (s, []) [src, dst] = (s1, met)" by fastforce
  have same: "sn_done s1 = sn_done s" "sightings met = []" using meet_nodes_fields [OF m] no_sightings [of met] by auto
  have k: "k < frag_total payload" using Cons.prems(1) a by simp
  have run: "sniff_datagram W t src sp dst port (encode_fragments f payload ! k) s1 = (s1, [])"
    using Cons.prems(2) same(1) by (auto simp: sniff_datagram_own [OF len k])
  obtain s' out where rest: "sniff W prefix port s1 (seen_frames src sp dst port f payload arrivals) = Inr (s', out)" "sightings out = []"
    using Cons.IH [of s1] Cons.prems same(1) by auto
  show ?case using sniff_frame_own [OF nodes k m run] rest same(2) a by (simp add: seen_frames_def)
qed (simp add: seen_frames_def)

lemma sniff_run:
  assumes nodes: "between_nodes prefix src dst" and len: "length payload \<le> 65535 * FRAG_CHUNK_SIZE"
    and "list_all (\<lambda>(t, k). t - t0 < PARTIAL_TTL \<and> k < frag_total payload) arrivals"
    and "S \<union> snd ` set arrivals = {..<frag_total payload}" "S \<noteq> {..<frag_total payload}"
    and "gathered (src, sp, f) payload t0 S s" "S = {} \<longrightarrow> fst (hd arrivals) = t0"
  shows "\<exists>s' out t. sniff W prefix port s (seen_frames src sp dst port f payload arrivals) = Inr (s', out) \<and>
    t \<in> fst ` set arrivals \<and> sightings out = sightings (reported W t src dst port payload)"
  using assms(3-)
proof (induction arrivals arbitrary: S s)
  case (Cons a arrivals)
  obtain t k where a: "a = (t, k)" by (cases a)
  have step: "S \<subseteq> {..<frag_total payload}" "k < frag_total payload" "S = {} \<longrightarrow> t = t0" "t - t0 < PARTIAL_TTL"
    using Cons.prems a by auto
  obtain s1 out where one: "sniff_frame W prefix port s (t, udp_frame src sp dst port (encode_fragments f payload ! k)) = Inr (s1, out)"
    "if insert k S = {..<frag_total payload}
     then map_of (sn_done s1) (src, sp, f) = Some t \<and> sightings out = sightings (reported W t src dst port payload)
     else gathered (src, sp, f) payload t0 (insert k S) s1 \<and> sightings out = []"
    using sniff_step [OF nodes len step(1,2) Cons.prems(4) step(3,4)] .
  show ?case
  proof (cases "insert k S = {..<frag_total payload}")
    case True
    have 1: "list_all (\<lambda>(t, k). k < frag_total payload) arrivals" using Cons.prems(1) by (auto simp: list_all_iff)
    have 2: "map_of (sn_done s1) (src, sp, f) \<noteq> None" using one(2) True by simp
    obtain s' out' where "sniff W prefix port s1 (seen_frames src sp dst port f payload arrivals) = Inr (s', out')" "sightings out' = []"
      using sniff_after [OF nodes len 1 2, of W port] by blast
    then have "sniff W prefix port s (seen_frames src sp dst port f payload (a # arrivals)) = Inr (s', out @ out') \<and>
        t \<in> fst ` set (a # arrivals) \<and> sightings (out @ out') = sightings (reported W t src dst port payload)"
      using one True a by (simp add: seen_frames_def)
    then show ?thesis by blast
  next
    case False
    have 1: "insert k S \<union> snd ` set arrivals = {..<frag_total payload}" using Cons.prems(2) a by auto
    have 2: "gathered (src, sp, f) payload t0 (insert k S) s1" "sightings out = []" using one(2) False by simp_all
    have 3: "list_all (\<lambda>(t, k). t - t0 < PARTIAL_TTL \<and> k < frag_total payload) arrivals" using Cons.prems(1) by simp
    obtain s' out' t' where "sniff W prefix port s1 (seen_frames src sp dst port f payload arrivals) = Inr (s', out')"
      "t' \<in> fst ` set arrivals" "sightings out' = sightings (reported W t' src dst port payload)"
      using Cons.IH [OF 3 1 False 2(1)] by blast
    then have "sniff W prefix port s (seen_frames src sp dst port f payload (a # arrivals)) = Inr (s', out @ out') \<and>
        t' \<in> fst ` set (a # arrivals) \<and> sightings (out @ out') = sightings (reported W t' src dst port payload)"
      using one(1) 2(2) a by (simp add: seen_frames_def)
    then show ?thesis by blast
  qed
qed simp

text \<open>
  Property C34. The sniffer reports every STORE and UPDATE between two testbed nodes exactly once, with
  the key and the record that were sent, whatever the order in which it sees the packets of the
  message and however often it sees each of them, as long as they come within ten seconds of the
  first.
\<close>

theorem sniffer_reports_once:
  assumes "between_nodes prefix src dst" "length payload \<le> 65535 * FRAG_CHUNK_SIZE"
    and "w_deserialize W payload = Some fr" "request_of (Some fr) = Some (update, key, v)"
    and "map_of (sn_partial s) (src, sp, f) = None" "map_of (sn_done s) (src, sp, f) = None"
    and "list_all (\<lambda>(t, k). t - fst (hd arrivals) < PARTIAL_TTL) arrivals" "snd ` set arrivals = {..<frag_total payload}"
  shows "\<exists>s' out t. sniff W prefix port s (seen_frames src sp dst port f payload arrivals) = Inr (s', out) \<and>
    sightings out = [\<lparr>ob_update = update, ob_from = src, ob_to = dst, ob_to_port = port, ob_key = key, ob_value = v, ob_seen = t\<rparr>]"
proof -
  have "0 \<in> {..<frag_total payload}" using frag_chunks_facts(2) [of payload] by (simp add: frag_total_def)
  then have some: "{} \<noteq> {..<frag_total payload}" by blast
  have start: "gathered (src, sp, f) payload (fst (hd arrivals)) {} s" using assms(5,6) by (simp add: gathered_def)
  have "k < frag_total payload" if "(t, k) \<in> set arrivals" for t k
    using that assms(8) by (metis image_eqI lessThan_iff snd_conv)
  then have times: "list_all (\<lambda>(t, k). t - fst (hd arrivals) < PARTIAL_TTL \<and> k < frag_total payload) arrivals"
    using assms(7) unfolding list_all_iff by fast
  obtain s' out t where "sniff W prefix port s (seen_frames src sp dst port f payload arrivals) = Inr (s', out)"
    "sightings out = sightings (reported W t src dst port payload)"
    using sniff_run [OF assms(1,2) times _ some start, of W port] assms(8) by fastforce
  then show ?thesis using assms(3,4) by (simp add: reported_def)
qed

definition wsniffer :: sniffer where
  "wsniffer = \<lparr>sn_partial = [], sn_done = [], sn_nodes = {}, sn_last_cleanup = 0\<rparr>"

definition wheard :: world where
  "wheard = \<lparr>w_serialize = (\<lambda>_. None),
     w_deserialize = (\<lambda>b. Some \<lparr>fr_msg_id = 1, fr_is_request = True, fr_message = Store (wid 1) (wid 2) [3]\<rparr>), w_send_to = (\<lambda>_ _ _. True)\<rparr>"

text \<open>A message of two packets, of which the second is seen first and twice.\<close>

theorem sniffer_reports_once_witness:
  "\<exists>s' out t. sniff wheard (10, 213) 4000 wsniffer
      (seen_frames [10, 213, 0, 2] 4000 [10, 213, 0, 3] 4000 9 wpayload [(5, 1), (6, 1), (7, 0)]) = Inr (s', out) \<and>
     sightings out = [\<lparr>ob_update = False, ob_from = [10, 213, 0, 2], ob_to = [10, 213, 0, 3], ob_to_port = 4000,
       ob_key = wid 2, ob_value = [3], ob_seen = t\<rparr>]"
proof (rule sniffer_reports_once [OF _ wpayload_total(2)])
  show "between_nodes (10, 213) [10, 213, 0, 2] [10, 213, 0, 3]" by (simp add: between_nodes_def is_node_def)
  show "w_deserialize wheard wpayload = Some \<lparr>fr_msg_id = 1, fr_is_request = True, fr_message = Store (wid 1) (wid 2) [3]\<rparr>"
    by (simp add: wheard_def)
  show "request_of (Some \<lparr>fr_msg_id = 1, fr_is_request = True, fr_message = Store (wid 1) (wid 2) [3]\<rparr>) = Some (False, wid 2, [3])"
    by (simp add: request_of_def)
  show "map_of (sn_partial wsniffer) ([10, 213, 0, 2], 4000, 9) = None" "map_of (sn_done wsniffer) ([10, 213, 0, 2], 4000, 9) = None"
    by (simp_all add: wsniffer_def)
  show "list_all (\<lambda>(t, k). t - fst (hd [(5, 1), (6, 1), (7, 0)]) < PARTIAL_TTL) [(5, 1), (6, 1), (7, 0)]"
    by (simp add: PARTIAL_TTL_def secs_def)
  show "snd ` set [(5, 1), (6, 1), (7, 0)] = {..<frag_total wpayload}" using wpayload_total(1) by auto
qed

subsection \<open>What a forged STORE achieves\<close>

lemma store_verified_held:
  assumes "registers (en_yield E q) key = Some r" "r \<noteq> v" "store_verified E D h q i addr key v = (p', status)"
  shows "status \<in> {Some StoreStatus_Conflict, Some StoreStatus_InvalidRecord}"
    "pr_storage p' = pr_storage (en_yield E q)" "registers p' key = Some r"
proof -
  let ?q1 = "en_yield E q"
  have held: "st_get (pnow ?q1) (id_bytes key) (pr_storage ?q1) = Some r" using assms(1) by (simp add: registers_def)
  then have "insert_if_absent (pnow ?q1) (id_bytes key) v (pr_storage ?q1) = (pr_storage ?q1, Conflict)"
    using assms(2) by (auto simp: insert_if_absent_def get_default_None split: option.splits if_splits prod.splits)
  then show "status \<in> {Some StoreStatus_Conflict, Some StoreStatus_InvalidRecord}"
    "pr_storage p' = pr_storage (en_yield E q)" "registers p' key = Some r"
    using held assms(3)
    by (auto simp: store_verified_def verify_for_key_def registers_def from_write_status_def case_prod_beta Let_def split: if_splits)
qed

text \<open>
  Property C21. A forged STORE replaces no record. \<open>q\<close> is the node after the lookup of the network, which
  runs if the replica was empty when the STORE of \<open>v\<close> arrived, and the node itself otherwise. If the
  replica holds another record than \<open>v\<close> when the check of the signature that follows ends, whether it held
  it before or another STORE won meanwhile, then \<open>v\<close> is refused, or left unanswered where the lookup did
  not hear from everyone, and this STORE changes nothing in the storage, whoever signed \<open>v\<close>. Without a
  lookup the answer is a refusal and the record is still there.
\<close>

theorem forged_store_refused:
  assumes "q = (if store_needs_lookup D p key then fst (network_copy E D p key v) else p)"
    and "registers (en_yield E q) key = Some r" "r \<noteq> v"
    and "rpc_store E D h p i addr key v = (p', status)"
  shows "status \<in> {None, Some StoreStatus_Conflict, Some StoreStatus_InvalidRecord} \<and>
    pr_storage p' \<in> {pr_storage p, pr_storage q, pr_storage (en_yield E q)} \<and>
    (\<not> store_needs_lookup D p key \<longrightarrow> status \<noteq> None \<and> registers p' key = Some r)"
proof -
  note verified = store_verified_held [OF assms(2,3), of D h i addr p' status]
  obtain p1 copy where n: "network_copy E D p key v = (p1, copy)" by fastforce
  show ?thesis
  proof (cases "store_verified E D h q i addr key v = (p', status)")
    case True
    then show ?thesis using verified by auto
  next
    case False
    then show ?thesis using assms(1,4)
      by (cases copy) (auto simp: rpc_store_def n count_check_def split: if_splits)
  qed
qed

text \<open>The attacker's record for the DID of \<open>wdoc\<close>, sent to a node that stores the owner's.\<close>

theorem forged_store_refused_witness:
  "\<exists>p' status.
     rpc_store wenv wdeps whandler wstored (wid 5) wpeer wkey (forged_record wdeps (\<lambda>did signing agreement. wdoc) wdraws wdoc) =
       (p', status) \<and>
     status \<in> {None, Some StoreStatus_Conflict, Some StoreStatus_InvalidRecord} \<and> pr_storage p' = pr_storage wstored"
proof -
  let ?v = "forged_record wdeps (\<lambda>did signing agreement. wdoc) wdraws wdoc"
  obtain p' status where run: "rpc_store wenv wdeps whandler wstored (wid 5) wpeer wkey ?v = (p', status)" by fastforce
  have "hd ?v \<noteq> hd wrecord"
    by (simp add: forged_record_def version_generate_def signed_record_def ALGORITHM_def lit_def wdraws_def wrecord_def record_bytes_def)
  then have "wrecord \<noteq> ?v" by auto
  moreover have y: "en_yield wenv wstored = wstored" by (simp add: silent_env_def)
  moreover have "\<not> store_needs_lookup wdeps wstored wkey"
    using wstored_registers by (simp add: store_needs_lookup_def registers_def)
  ultimately show ?thesis
    using forged_store_refused [OF _ _ _ run, of wstored wrecord] wstored_registers run by auto
qed

end
