(* ===== verification/Scripts.thy ===== *)
theory Scripts
  imports KeyManager NodeRuns "HOL-Library.List_Lexorder"
begin

text \<open>
  The programs around the library: the records they build and sign (\<open>src/scripts/dht_node.rs\<close>,
  \<open>src/scripts/resilience_attacker.rs\<close> and the copies of these functions in the other programs), the
  publisher and the retriever of the container (\<open>src/scripts/dht_node.rs\<close>), and the phases of the
  resilience test (\<open>src/scripts/resilience_attacker.rs\<close>). A JSON value is a value of \<open>json\<close>; the
  printer of \<open>serde_json\<close>, the encoder of base64 and the key generators are arguments. Environment
  variables, measured times and what is printed are not modelled.
\<close>

subsection \<open>Documents and records\<close>

datatype json =
  JNull | JBool bool | JNumber bytes | JString bytes | JArray "json list" | JObject "(bytes \<times> json) list"

text \<open>The \<open>Index\<close> operations of \<open>Value\<close> and \<open>as_str\<close>.\<close>

definition get_key :: "json \<Rightarrow> bytes \<Rightarrow> json" where
  "get_key v k = (case v of JObject items \<Rightarrow> (case map_of items k of Some x \<Rightarrow> x | None \<Rightarrow> JNull) | _ \<Rightarrow> JNull)"

definition get_index :: "json \<Rightarrow> nat \<Rightarrow> json" where
  "get_index v i = (case v of JArray xs \<Rightarrow> if i < length xs then xs ! i else JNull | _ \<Rightarrow> JNull)"

definition as_string :: "json \<Rightarrow> bytes option" where
  "as_string v = (case v of JString s \<Rightarrow> Some s | _ \<Rightarrow> None)"

function (sequential) sort_json_keys :: "json \<Rightarrow> json" where
  "sort_json_keys (JObject items) = JObject (map (\<lambda>(k, v). (k, sort_json_keys v)) (sort_key fst items))"
| "sort_json_keys (JArray xs) = JArray (map sort_json_keys xs)"
| "sort_json_keys v = v"
  by pat_completeness auto
termination
  by (relation "measure size") (auto simp: less_Suc_eq_le intro: size_list_estimation')

definition build_did_document :: "(bytes \<Rightarrow> bytes) \<Rightarrow> bytes \<Rightarrow> bytes \<Rightarrow> bytes \<Rightarrow> json" where
  "build_did_document base64url did dilithium_pk kyber_pk =
     (let method = (\<lambda>fragment crv pk.
            JObject [(lit ''id'', JString (did @ fragment)), (lit ''type'', JString (lit ''JsonWebKey2020'')),
                     (lit ''controller'', JString did),
                     (lit ''publicKeyJwk'',
                        JObject [(lit ''kty'', JString (lit ''OKP'')), (lit ''crv'', JString crv),
                                 (lit ''x'', JString (base64url pk))])])
      in JObject
           [(lit ''@context'', JArray [JString (lit ''https://www.w3.org/ns/did/v1'')]),
            (lit ''id'', JString did),
            (lit ''verificationMethod'',
               JArray [method (lit ''#k0'') (lit ''Dilithium2'') dilithium_pk, method (lit ''#k1'') (lit ''Kyber512'') kyber_pk]),
            (lit ''authentication'', JArray [JString (did @ lit ''#k0'')]),
            (lit ''keyAgreement'', JArray [JString (did @ lit ''#k1'')]),
            (lit ''service'',
               JArray [JObject [(lit ''id'', JString (did @ lit ''#device'')), (lit ''type'', JString (lit ''DeviceAgent'')),
                                (lit ''serviceEndpoint'', JString (lit ''http://example.com/device''))]])])"

definition encode_did_document :: "(json \<Rightarrow> bytes) \<Rightarrow> json \<Rightarrow> bytes" where
  "encode_did_document to_vec doc = to_vec (sort_json_keys doc)"

definition build_signed_record :: "'j deps \<Rightarrow> (json \<Rightarrow> bytes) \<Rightarrow> json \<Rightarrow> bytes \<Rightarrow> bytes \<Rightarrow> bytes" where
  "build_signed_record D to_vec doc secret_key algorithm =
     (let doc_bytes = encode_did_document to_vec doc;
          copy_len = min (length algorithm) 12;
          alg_field = take copy_len algorithm @ replicate (12 - copy_len) 0
      in alg_field @ dil_sign D 2 doc_bytes secret_key @ doc_bytes)"

text \<open>\<open>pretty\<close> is \<open>to_string_pretty\<close>.\<close>

definition decode_record :: "'j deps \<Rightarrow> ('j \<Rightarrow> bytes) \<Rightarrow> bytes \<Rightarrow> bytes option" where
  "decode_record D pretty record =
     (if length record < 12 + 2420 then None
      else map_option pretty (json_from_slice D (drop (12 + 2420) record)))"

text \<open>
  The random draws for a record: a UUID and two key pairs. The key of a DID is what follows its last
  colon.
\<close>

record fresh_keys =
  fk_uuid :: bytes
  fk_signing :: "bytes \<times> bytes"
  fk_agreement :: bytes

definition last_part :: "bytes \<Rightarrow> bytes" where
  "last_part did = rev (takeWhile (\<lambda>b. b \<noteq> 58) (rev did))"

definition make_record :: "'j deps \<Rightarrow> (json \<Rightarrow> bytes) \<Rightarrow> (bytes \<Rightarrow> bytes) \<Rightarrow> fresh_keys \<Rightarrow> bytes \<times> bytes" where
  "make_record D to_vec base64url ks =
     (let (pk, sk) = fk_signing ks;
          did = lit ''did:iiot:'' @ fk_uuid ks;
          doc_bytes = to_vec (sort_json_keys (build_did_document base64url did pk (fk_agreement ks)))
      in (last_part did, lit ''Dilithium-2'' @ [0] @ dil_sign D 2 doc_bytes sk @ doc_bytes))"

subsection \<open>The container\<close>

text \<open>
  A loop that tries \<open>n\<close> times, from attempt \<open>k\<close>, and pauses after every attempt that failed.
\<close>

fun attempts :: "(nat \<Rightarrow> 's \<Rightarrow> 's \<times> 'r option) \<Rightarrow> ('s \<Rightarrow> 's) \<Rightarrow> nat \<Rightarrow> nat \<Rightarrow> 's \<Rightarrow> 's \<times> 'r option" where
  "attempts try pause k 0 s = (s, None)"
| "attempts try pause k (Suc n) s =
     (case try k s of
        (s1, Some r) \<Rightarrow> (s1, Some r)
      | (s1, None) \<Rightarrow> attempts try pause (Suc k) n (pause s1))"

definition start_server :: "bool \<Rightarrow> 'j deps \<Rightarrow> clock \<Rightarrow> bytes \<Rightarrow> nat \<Rightarrow> server" where
  "start_server feature D ck rnd max_storage_bytes =
     listen feature (server_new D ck rnd 20 3 None (Some (with_max_storage_bytes DEFAULT_TTL max_storage_bytes)) True)"

text \<open>\<open>E k\<close> is the network at attempt \<open>k\<close>, \<open>pause d\<close> what the node does while the program sleeps.\<close>

definition bootstrap_with_retries ::
    "(nat \<Rightarrow> env) \<Rightarrow> (duration \<Rightarrow> server \<Rightarrow> server) \<Rightarrow> server \<Rightarrow> bytes \<Rightarrow> u16 \<Rightarrow> server \<times> bool" where
  "bootstrap_with_retries E pause sv ip port =
     (let (sv1, r) = attempts (\<lambda>k sv. let (sv1, discovered) = bootstrap (E k) sv [(ip, port)]
                                     in (sv1, if discovered \<noteq> [] then Some () else None))
                       (pause (secs 3)) 1 8 sv
      in (sv1, r \<noteq> None))"

text \<open>The record the local read returns right after the publication, where there was one.\<close>

definition run_publisher ::
    "(nat \<Rightarrow> env) \<Rightarrow> (duration \<Rightarrow> server \<Rightarrow> server) \<Rightarrow> 'j deps \<Rightarrow> handler \<Rightarrow> (json \<Rightarrow> bytes) \<Rightarrow> (bytes \<Rightarrow> bytes) \<Rightarrow>
     fresh_keys \<Rightarrow> server \<Rightarrow> server \<times> bytes option option" where
  "run_publisher E pause D h to_vec base64url ks sv =
     (let uuid = fk_uuid ks;
          did = lit ''did:iiot:'' @ uuid;
          doc = build_did_document base64url did (fst (fk_signing ks)) (fk_agreement ks);
          record = build_signed_record D to_vec doc (snd (fk_signing ks)) (lit ''Dilithium-2'')
      in attempts
           (\<lambda>k sv.
              (case server_set (E k) D h sv uuid record of
                 (sv1, Some True) \<Rightarrow> (let (sv2, retrieved) = server_get (E k) D h sv1 uuid in (sv2, Some retrieved))
               | (sv1, _) \<Rightarrow> (sv1, None)))
           (pause (secs 5)) 1 10 sv)"

definition run_retriever ::
    "(nat \<Rightarrow> env) \<Rightarrow> (duration \<Rightarrow> server \<Rightarrow> server) \<Rightarrow> 'j deps \<Rightarrow> handler \<Rightarrow> ('j \<Rightarrow> bytes) \<Rightarrow> bytes option \<Rightarrow> server \<Rightarrow>
     server \<times> bytes option option" where
  "run_retriever E pause D h pretty retrieve_key sv =
     (case retrieve_key of
        None \<Rightarrow> (sv, None)
      | Some key \<Rightarrow>
          attempts
            (\<lambda>k sv. let (sv1, found) = server_get (E k) D h sv key in (sv1, map_option (decode_record D pretty) found))
            (pause (secs 3)) 1 10 (pause (secs 5) sv))"

subsection \<open>The resilience test\<close>

text \<open>A task that ends leaves fewer.\<close>

lemma phase_smaller:
  assumes "jset @ take k todo \<noteq> []"
  shows "length (drop k todo) + length (remove_at (i mod length (jset @ take k todo)) (jset @ take k todo)) < length todo + length jset"
proof -
  have "0 < length (jset @ take k todo)" using assms by blast
  moreover from this have "length (remove_at (i mod length (jset @ take k todo)) (jset @ take k todo)) = length (jset @ take k todo) - 1"
    by (intro length_remove_at mod_less_divisor)
  moreover have "length (drop k todo) + length (jset @ take k todo) = length todo + length jset" by simp
  ultimately show ?thesis by linarith
qed

text \<open>
  The loop of a phase over a \<open>JoinSet\<close>: it keeps up to \<open>c\<close> tasks in flight, and counts them as they
  end. \<open>pick n\<close> is the place of the task that ends at step \<open>n\<close>, \<open>run n\<close> what it does and returns.
\<close>

function phase_loop ::
    "(nat \<Rightarrow> 'p \<Rightarrow> 'a \<Rightarrow> 'p \<times> 'j) \<Rightarrow> (nat \<Rightarrow> nat) \<Rightarrow> ('s \<Rightarrow> 'j \<Rightarrow> 's) \<Rightarrow> nat \<Rightarrow> nat \<Rightarrow> 'a list \<Rightarrow> 'a list \<Rightarrow> 's \<Rightarrow> 'p \<Rightarrow> 'p \<times> 's" where
  "phase_loop run pick tally c n todo jset st p =
     (let k = c - length jset;
          jset1 = jset @ take k todo;
          todo1 = drop k todo
      in if jset1 = [] then (p, st)
         else
           (let i = pick n mod length jset1;
                (p1, j) = run n p (jset1 ! i)
            in phase_loop run pick tally c (Suc n) todo1 (remove_at i jset1) (tally st j) p1))"
  by pat_completeness auto
termination
  by (relation "measure (\<lambda>(run, pick, tally, c, n, todo, jset, st, p). length todo + length jset)")
    (use phase_smaller in \<open>simp_all only: wf_measure in_measure case_prod_conv\<close>)

declare phase_loop.simps [simp del]

datatype joined_store = StoreJoined bool bool bytes | StoreFailed

text \<open>
  One task of the store phase. \<open>timer n p\<close> is the state the node is left in when the timer of 2.25 s
  fires first, and None when the call ends before; a task that panics is not joined.
\<close>

definition store_task ::
    "(nat \<Rightarrow> env) \<Rightarrow> (nat \<Rightarrow> bool) \<Rightarrow> (nat \<Rightarrow> proto \<Rightarrow> proto option) \<Rightarrow> 'j deps \<Rightarrow> node \<Rightarrow> nat \<Rightarrow> proto \<Rightarrow> bytes \<times> bytes \<Rightarrow>
     proto \<times> joined_store" where
  "store_task E panics timer D victim n p = (\<lambda>(k, record).
     if panics n then (p, StoreFailed)
     else
       (case timer n p of
          Some p1 \<Rightarrow> (p1, StoreJoined True False k)
        | None \<Rightarrow>
            (let (p1, status) = call_store_rpc (E n) p victim (digest D k) record
             in (p1, StoreJoined False (status = Some StoreStatus_Stored \<or> status = Some StoreStatus_AlreadyStored) k))))"

record store_counts =
  sc_accepted :: nat
  sc_rejected :: nat
  sc_timed_out :: nat
  sc_accepted_keys :: "bytes list"

definition count_store :: "store_counts \<Rightarrow> joined_store \<Rightarrow> store_counts" where
  "count_store c j =
     (case j of
        StoreJoined is_timeout ok key \<Rightarrow>
          if is_timeout then c\<lparr>sc_timed_out := sc_timed_out c + 1\<rparr>
          else if ok then c\<lparr>sc_accepted := sc_accepted c + 1, sc_accepted_keys := sc_accepted_keys c @ [key]\<rparr>
          else c\<lparr>sc_rejected := sc_rejected c + 1\<rparr>
      | StoreFailed \<Rightarrow> c\<lparr>sc_timed_out := sc_timed_out c + 1\<rparr>)"

definition store_phase ::
    "(nat \<Rightarrow> env) \<Rightarrow> (nat \<Rightarrow> bool) \<Rightarrow> (nat \<Rightarrow> proto \<Rightarrow> proto option) \<Rightarrow> (nat \<Rightarrow> nat) \<Rightarrow> 'j deps \<Rightarrow> proto \<Rightarrow> node \<Rightarrow>
     (bytes \<times> bytes) list \<Rightarrow> nat \<Rightarrow> proto \<times> store_counts" where
  "store_phase E panics timer pick D p victim pool concurrency =
     phase_loop (store_task E panics timer D victim) pick count_store concurrency 0 pool []
       \<lparr>sc_accepted = 0, sc_rejected = 0, sc_timed_out = 0, sc_accepted_keys = []\<rparr> p"

datatype joined_get = GetJoined bool | GetFailed

text \<open>A GET whose timer fires first is one that found nothing.\<close>

definition get_task ::
    "(nat \<Rightarrow> env) \<Rightarrow> (nat \<Rightarrow> bool) \<Rightarrow> (nat \<Rightarrow> server \<Rightarrow> server option) \<Rightarrow> 'j deps \<Rightarrow> handler \<Rightarrow> nat \<Rightarrow> server \<Rightarrow> bytes \<Rightarrow>
     server \<times> joined_get" where
  "get_task E panics timer D h n sv key =
     (if panics n then (sv, GetFailed)
      else
        (case timer n sv of
           Some sv1 \<Rightarrow> (sv1, GetJoined False)
         | None \<Rightarrow> (let (sv1, found) = server_get (E n) D h sv key in (sv1, GetJoined (found \<noteq> None)))))"

record get_counts =
  gc_hits :: nat
  gc_misses :: nat
  gc_timed_out :: nat

definition count_get :: "get_counts \<Rightarrow> joined_get \<Rightarrow> get_counts" where
  "count_get c j =
     (case j of
        GetJoined found \<Rightarrow> if found then c\<lparr>gc_hits := gc_hits c + 1\<rparr> else c\<lparr>gc_misses := gc_misses c + 1\<rparr>
      | GetFailed \<Rightarrow> c\<lparr>gc_timed_out := gc_timed_out c + 1\<rparr>)"

definition get_phase ::
    "(nat \<Rightarrow> env) \<Rightarrow> (nat \<Rightarrow> bool) \<Rightarrow> (nat \<Rightarrow> server \<Rightarrow> server option) \<Rightarrow> (nat \<Rightarrow> nat) \<Rightarrow> 'j deps \<Rightarrow> handler \<Rightarrow> server \<Rightarrow>
     bytes list \<Rightarrow> nat \<Rightarrow> server \<times> get_counts" where
  "get_phase E panics timer pick D h sv keys concurrency =
     phase_loop (get_task E panics timer D h) pick count_get concurrency 0 keys []
       \<lparr>gc_hits = 0, gc_misses = 0, gc_timed_out = 0\<rparr> sv"

subsection \<open>The records of the programs are valid\<close>

text \<open>
  What the code relies on of \<open>serde_json\<close>, \<open>base64\<close>, \<open>pqcrypto\<close> and \<open>uuid\<close>, for the document and the
  keys at hand: the bytes of a document parse back to it, an encoded key decodes and is no padding,
  a signature verifies and has the length of the algorithm.
\<close>

definition crates_ok :: "json deps \<Rightarrow> (json \<Rightarrow> bytes) \<Rightarrow> (bytes \<Rightarrow> bytes) \<Rightarrow> json \<Rightarrow> bytes \<Rightarrow> bytes \<Rightarrow> bytes \<Rightarrow> bool" where
  "crates_ok D to_vec base64url doc uuid pk sk \<longleftrightarrow>
     json_from_slice D (to_vec doc) = Some doc \<and> json_field D = get_key \<and> json_elem D = get_index \<and> json_as_str D = as_string \<and>
     b64url_decode D (base64url pk) = Some pk \<and> 61 \<notin> set (base64url pk) \<and>
     length pk = 1312 \<and> dil_pk_ok D 2 pk \<and>
     (let sig = dil_sign D 2 (to_vec doc) sk in length sig = 2420 \<and> dil_sig_ok D 2 sig \<and> dil_verify D 2 sig (to_vec doc) pk) \<and>
     uuid_parses D uuid"

lemma document_fields:
  fixes b :: "bytes \<Rightarrow> bytes" and did pk kpk
  defines "doc \<equiv> sort_json_keys (build_did_document b did pk kpk)"
  shows "as_string (get_key doc (lit ''id'')) = Some did"
    "as_string (get_key (get_key (get_index (get_key doc (lit ''verificationMethod'')) 0) (lit ''publicKeyJwk'')) (lit ''x'')) = Some (b pk)"
  by (simp_all add: doc_def build_did_document_def Let_def get_key_def get_index_def as_string_def lit_def)

lemma dilithium2_field: "record_bytes (lit ''Dilithium-2'') sig data = lit ''Dilithium-2'' @ [0] @ sig @ data"
  by (simp add: record_bytes_def lit_def)

lemma made_record_valid:
  fixes D :: "json deps"
  assumes "crates_ok D to_vec base64url (sort_json_keys (build_did_document base64url (lit ''did:iiot:'' @ uuid) pk kpk)) uuid pk sk"
    and "digest D uuid \<noteq> digest D STATUS_LIST_KEY"
    and "v = lit ''Dilithium-2'' @ [0] @ dil_sign D 2 data sk @ data"
    and "data = to_vec (sort_json_keys (build_did_document base64url (lit ''did:iiot:'' @ uuid) pk kpk))"
  shows "fst (verify_record D (did_handler D issuer) None (digest D uuid) v)"
proof -
  let ?did = "lit ''did:iiot:'' @ uuid" and ?alg = "lit ''Dilithium-2''"
  let ?doc = "sort_json_keys (build_did_document base64url ?did pk kpk)" and ?sig = "dil_sign D 2 data sk"
  note ok = assms(1)[unfolded crates_ok_def Let_def]
  have len: "length ?sig = 2420" using ok assms(4) by simp
  have alg: "resolve_alg_and_length ?alg = Inr (lit ''Dilithium'', length ?sig)" "scheme_of ?alg = Inr Dilithium"
    unfolding len by code_simp+
  then have split: "split_record v = Inr (?alg, ?sig, data)"
    using assms(3) unfolding split_record_iff dilithium2_field by blast
  have "names_key D data (digest D uuid)"
    using ok assms(4) document_fields(1) [of base64url ?did pk kpk]
    by (auto simp: names_key_def digest_def digest_bytes_def)
  then have "did_document_matches_key D v (digest D uuid) = Inr True" unfolding matches_key_iff using split by blast
  moreover have "61 \<notin> set (rev (base64url pk))" using ok by simp
  then have "dropWhile (\<lambda>b. b = 61) (rev (base64url pk)) = rev (base64url pk)"
    by (cases "rev (base64url pk)") auto
  then have "public_key_from_did_doc D data = Inr pk"
    using ok assms(4) document_fields(2) [of base64url ?did pk kpk]
    by (simp add: public_key_from_did_doc_def ok_or_def decode_b64url_def)
  moreover have "signed_by D ?alg pk ?sig data"
    using ok assms(4) alg(2)
    by (simp add: signed_by_def dilithium_verify_def dilithium_level_from_pubkey_len_def verify_d_def)
  ultimately have "did_document_matches_key D v (digest D uuid) = Inr True" "verify_self_signed D v = Inr True"
    unfolding verify_self_signed_iff using split by blast+
  then show ?thesis using assms(2)
    by (simp add: verify_record_def is_bound_to_key_def check_signature_def did_handler_def unwrap_or_def Let_def)
qed

text \<open>
  Property C31. Every record the programs build is one the network accepts: a document of
  \<open>build_did_document\<close>, sorted, printed and signed by \<open>build_signed_record\<close> or \<open>make_record\<close>, is valid for
  the key of its UUID under the rules of the library, and the key \<open>make_record\<close> returns is that UUID.
\<close>

theorem program_records_valid:
  assumes "crates_ok D to_vec base64url (sort_json_keys (build_did_document base64url (lit ''did:iiot:'' @ uuid) pk kpk)) uuid pk sk"
    and "digest D uuid \<noteq> digest D STATUS_LIST_KEY" "58 \<notin> set uuid"
  shows "fst (verify_record D (did_handler D issuer) None (digest D uuid)
      (build_signed_record D to_vec (build_did_document base64url (lit ''did:iiot:'' @ uuid) pk kpk) sk (lit ''Dilithium-2''))) \<and>
    (case make_record D to_vec base64url \<lparr>fk_uuid = uuid, fk_signing = (pk, sk), fk_agreement = kpk\<rparr> of
       (key, v) \<Rightarrow> key = uuid \<and> fst (verify_record D (did_handler D issuer) None (digest D key) v))"
proof -
  have "takeWhile (\<lambda>b. b \<noteq> 58) (rev uuid @ 58 # rest) = rev uuid" for rest
    using assms(3) by (subst takeWhile_append2) auto
  then have "last_part (lit ''did:iiot:'' @ uuid) = uuid" by (simp add: last_part_def lit_def)
  moreover have "length (lit ''Dilithium-2'') = 11" by (simp add: lit_def)
  ultimately show ?thesis
    using made_record_valid [OF assms(1,2) refl refl, where issuer = issuer]
    by (simp add: build_signed_record_def encode_did_document_def make_record_def Let_def)
qed

definition wjson_document :: json where
  "wjson_document = sort_json_keys (build_did_document (\<lambda>b. b) (lit ''did:iiot:'' @ [7]) (replicate 1312 1) [2])"

definition wjson :: "json deps" where
  "wjson =
     \<lparr>sha1 = (\<lambda>b. id_of_bytes (take 20 (b @ replicate 20 0))), sha256 = (\<lambda>b. b),
      ed_key_ok = (\<lambda>_. True), ed_verify = (\<lambda>pk m s. True), ed_sign = (\<lambda>sk m. replicate 64 0),
      dil_pk_ok = (\<lambda>_ _. True), dil_sig_ok = (\<lambda>_ _. True), dil_verify = (\<lambda>_ _ _ _. True),
      dil_sk_ok = (\<lambda>_ _. True), dil_sign = (\<lambda>_ m _. replicate 2420 0),
      rsa_pub_der = (\<lambda>b. Some b), rsa_pub_pem = (\<lambda>b. Some b), rsa_sig_ok = (\<lambda>_. True),
      rsa_verify = (\<lambda>_ _ _. True), rsa_priv_der = (\<lambda>b. Some b), rsa_priv_pem = (\<lambda>b. Some b),
      rsa_sign = (\<lambda>_ m. m),
      json_from_slice = (\<lambda>_. Some wjson_document), json_field = get_key, json_elem = get_index, json_as_str = as_string,
      b64url_decode = (\<lambda>b. Some b), uuid_parses = (\<lambda>_. True)\<rparr>"

theorem program_records_valid_witness:
  "fst (verify_record wjson (did_handler wjson None) None (digest wjson [7])
     (build_signed_record wjson (\<lambda>_. [9]) (build_did_document (\<lambda>b. b) (lit ''did:iiot:'' @ [7]) (replicate 1312 1) [2]) [3] (lit ''Dilithium-2'')))"
proof (rule program_records_valid [THEN conjunct1])
  show "crates_ok wjson (\<lambda>_. [9]) (\<lambda>b. b)
      (sort_json_keys (build_did_document (\<lambda>b. b) (lit ''did:iiot:'' @ [7]) (replicate 1312 1) [2])) [7] (replicate 1312 1) [3]"
    unfolding wjson_document_def [symmetric] by (simp add: crates_ok_def wjson_def Let_def)
  have "digest wjson [7] = id_of_bytes (7 # replicate 19 0)" "digest wjson STATUS_LIST_KEY = id_of_bytes (take 20 (STATUS_LIST_KEY @ replicate 20 0))"
    by (simp_all add: digest_def digest_bytes_def wjson_def numeral_eq_Suc)
  moreover have "id_of_bytes (7 # replicate 19 0) \<noteq> id_of_bytes (take 20 (STATUS_LIST_KEY @ replicate 20 0))" by code_simp
  ultimately show "digest wjson [7] \<noteq> digest wjson STATUS_LIST_KEY" by simp
  show "58 \<notin> set [7 :: u8]" by simp
qed

subsection \<open>A phase counts every task once\<close>

text \<open>What the tasks returned, in the order they ended: each task of the phase once.\<close>

lemma phase_loop_step:
  fixes c jset todo pick n
  defines "k \<equiv> c - length jset"
  defines "jset1 \<equiv> jset @ take k todo"
  defines "i \<equiv> pick n mod length jset1"
  assumes "jset1 \<noteq> []"
  shows "phase_loop run pick tally c n todo jset st p =
    phase_loop run pick tally c (Suc n) (drop k todo) (remove_at i jset1)
      (tally st (snd (run n p (jset1 ! i)))) (fst (run n p (jset1 ! i)))"
  using assms(4) by (subst phase_loop.simps) (simp only: Let_def k_def jset1_def i_def if_False case_prod_beta)

text \<open>
  The rule of the loop: what holds of the tasks counted so far and the counters, and is kept when one
  more task is counted, holds of all the tasks at the end.
\<close>

lemma phase_loop_rule:
  assumes "0 < c" and keep: "\<And>A st x n q. I A st \<Longrightarrow> I (add_mset x A) (tally st (snd (run n q x)))"
    and "I A st"
  shows "I (A + mset jset + mset todo) (snd (phase_loop run pick tally c n todo jset st p))"
  using assms(3)
proof (induction "length todo + length jset" arbitrary: A st jset todo n p rule: less_induct)
  case less
  define k where "k = c - length jset"
  define jset1 where "jset1 = jset @ take k todo"
  define i where "i = pick n mod length jset1"
  define rest where "rest = remove_at i jset1"
  note local_defs = k_def jset1_def i_def rest_def
  have split: "mset jset + mset todo = mset jset1 + mset (drop k todo)"
    using mset_append [of "take k todo" "drop k todo"] by (simp add: jset1_def)
  show ?case
  proof (cases "jset1 = []")
    case True
    then have "jset = []" "todo = []" using assms(1) by (auto simp: jset1_def k_def)
    then show ?thesis using less.prems by (simp add: phase_loop.simps)
  next
    case False
    then have "i < length jset1" by (simp add: i_def)
    then have "A + mset jset + mset todo = add_mset (jset1 ! i) A + mset rest + mset (drop k todo)"
      using split mset_remove_at [of i jset1] by (simp add: rest_def add.assoc)
    moreover have "length (drop k todo) + length rest < length todo + length jset"
      using phase_smaller [OF False [unfolded jset1_def], of "pick n"] by (simp only: i_def rest_def jset1_def)
    note less.hyps [OF this keep [OF less.prems]]
    moreover have "phase_loop run pick tally c n todo jset st p =
        phase_loop run pick tally c (Suc n) (drop k todo) rest (tally st (snd (run n p (jset1 ! i)))) (fst (run n p (jset1 ! i)))"
      unfolding local_defs by (rule phase_loop_step [OF False [unfolded jset1_def k_def]])
    ultimately show ?thesis by (simp only:)
  qed
qed

lemma subset_add_mset: "M \<subseteq># N \<Longrightarrow> M \<subseteq># add_mset a N"
  by (rule subset_mset.order_trans [of _ N]) simp_all

lemma store_task_result:
  "snd (store_task E panics timer D victim n p x) = StoreFailed \<or>
   (\<exists>ok. snd (store_task E panics timer D victim n p x) = StoreJoined True False (fst x) \<or>
      snd (store_task E panics timer D victim n p x) = StoreJoined False ok (fst x))"
  by (cases x; cases "timer n p") (simp_all add: store_task_def case_prod_beta Let_def)

lemma get_task_result:
  "panics n \<and> snd (get_task E panics timer D h n sv key) = GetFailed \<or>
   \<not> panics n \<and> (\<exists>found. snd (get_task E panics timer D h n sv key) = GetJoined found)"
  by (cases "timer n sv") (auto simp: get_task_def case_prod_beta Let_def)

text \<open>
  Property C38. A store phase reports every task of its pool once, in whatever order they end, time
  out or panic: the three counters add up to the size of the pool, and the keys it hands to the GET
  phase are as many as the accepted stores and are keys of the pool, each at most as often as there.
\<close>

theorem store_phase_counts_every_task:
  assumes "0 < concurrency" "store_phase E panics timer pick D p victim pool concurrency = (p', c)"
  shows "sc_accepted c + sc_rejected c + sc_timed_out c = length pool \<and>
    sc_accepted c = length (sc_accepted_keys c) \<and> mset (sc_accepted_keys c) \<subseteq># mset (map fst pool)"
proof -
  define I where "I A c \<longleftrightarrow> sc_accepted c + sc_rejected c + sc_timed_out c = size A \<and>
    sc_accepted c = length (sc_accepted_keys c) \<and> mset (sc_accepted_keys c) \<subseteq># image_mset fst A"
    for A :: "(bytes \<times> bytes) multiset" and c :: store_counts
  have "I (add_mset x A) (count_store c (snd (store_task E panics timer D victim n q x)))" if "I A c" for A c n q x
    using that store_task_result [of E panics timer D victim n q x]
    by (elim disjE exE) (simp_all add: I_def count_store_def subset_add_mset)
  moreover have "I {#} \<lparr>sc_accepted = 0, sc_rejected = 0, sc_timed_out = 0, sc_accepted_keys = []\<rparr>" by (simp add: I_def)
  ultimately have "I ({#} + mset [] + mset pool) (snd (store_phase E panics timer pick D p victim pool concurrency))"
    unfolding store_phase_def by (rule phase_loop_rule [where I = I, OF assms(1)])
  then show ?thesis by (simp add: assms(2) I_def)
qed

theorem store_phase_counts_every_task_witness:
  "case store_phase (\<lambda>_. wenv) (\<lambda>n. n = 1) (\<lambda>n p. if n = 0 then Some p else None) (\<lambda>n. n) wdeps wstart (wnode 2)
      [([1], [2]), ([3], [4])] 2 of
     (p', c) \<Rightarrow> sc_accepted c + sc_rejected c + sc_timed_out c = 2 \<and> sc_timed_out c = 2"
proof -
  obtain p' c where r: "store_phase (\<lambda>_. wenv) (\<lambda>n. n = 1) (\<lambda>n p. if n = 0 then Some p else None) (\<lambda>n. n) wdeps wstart (wnode 2)
      [([1], [2]), ([3], [4])] 2 = (p', c)" by (rule prod.exhaust)
  then have "sc_timed_out c = 2"
    by (simp add: store_phase_def phase_loop.simps store_task_def count_store_def remove_at_def Let_def) auto
  then show ?thesis using store_phase_counts_every_task [OF _ r] r by simp
qed

lemma get_phase_counts_every_task:
  assumes "0 < concurrency" "get_phase E panics timer pick D h sv keys concurrency = (sv', c)"
  shows "gc_hits c + gc_misses c + gc_timed_out c = length keys \<and> ((\<forall>n. \<not> panics n) \<longrightarrow> gc_timed_out c = 0)"
proof -
  define I where "I A c \<longleftrightarrow> gc_hits c + gc_misses c + gc_timed_out c = size A \<and> ((\<forall>n. \<not> panics n) \<longrightarrow> gc_timed_out c = 0)"
    for A :: "bytes multiset" and c :: get_counts
  have "I (add_mset x A) (count_get c (snd (get_task E panics timer D h n q x)))" if "I A c" for A c n q x
    using that get_task_result [of panics n E timer D h q x]
    by (elim disjE exE conjE) (auto simp: I_def count_get_def)
  moreover have "I {#} \<lparr>gc_hits = 0, gc_misses = 0, gc_timed_out = 0\<rparr>" by (simp add: I_def)
  ultimately have "I ({#} + mset [] + mset keys) (snd (get_phase E panics timer pick D h sv keys concurrency))"
    unfolding get_phase_def by (rule phase_loop_rule [where I = I, OF assms(1)])
  then show ?thesis by (simp add: assms(2) I_def)
qed

end
