(* ===== verification/Spec2Isabelle.thy ===== *)
theory Spec2Isabelle
  imports RoutingProps Storage Fragmentation Retransmit Messages Crypto Auth CrawlProps Counters PublishProps Topology KeyManager Testbed Reassembly Exchange PyBindings Attacker Scripts
begin

text \<open>
  \<^bold>\<open>The program.\<close> \<open>auth-kademlia-rs\<close> is a Kademlia distributed hash table whose records are signed DID
  documents. A node keeps a routing table of contacts and a store of records; it answers PING,
  FIND_NODE, FIND_VALUE, FIND_HASH, STORE and UPDATE requests that arrive in UDP datagrams, and its
  user reads (GET), publishes (SET) and rotates (UPDATE) records, for which the node looks up the nodes closest to a
  key and sends them requests. A replica takes the first valid record of a key and replaces it only
  by one that the key in the old record, or for the Status List the issuer, has authorised.

  \<^bold>\<open>Theories and sources\<close> (each imports those it calls):
  \<^item> \<open>Prelude\<close>: names of the machine types, pieces of the Rust standard library, the collection
    \<open>inv_intros\<close> and shared lemmas.
  \<^item> \<open>Nodes\<close> (\<open>node.rs\<close>, \<open>utils.rs\<close>): identifiers, distance, \<open>NodeHeap\<close>; locale \<open>id_metric\<close>.
  \<^item> \<open>Routing\<close>, \<open>RoutingInv\<close>, \<open>RoutingInsert\<close>, \<open>RoutingProps\<close> (\<open>routing.rs\<close>): \<open>KBucket\<close> and \<open>RoutingTable\<close>.
  \<^item> \<open>Storage\<close> (\<open>storage.rs\<close>): \<open>ForgetfulStorage\<close>; the trait \<open>IStorage\<close> is the locale \<open>record_store\<close>.
  \<^item> \<open>Fragmentation\<close> (\<open>fragmentation.rs\<close>), \<open>Retransmit\<close> (\<open>retransmit.rs\<close>), \<open>Counters\<close>
    (\<open>counters.rs\<close>), \<open>Messages\<close> (\<open>protocol/messages.rs\<close>).
  \<^item> \<open>Crypto\<close> (\<open>crypto/\<close> without the key managers), \<open>Auth\<close> (\<open>auth_handler.rs\<close>, \<open>signature_cache.rs\<close>);
    the trait of the handler is the locale \<open>record_rule\<close>. \<open>KeyManager\<close> (\<open>crypto/key_manager.rs\<close>);
    the locale \<open>key_manager\<close> is interpreted on the three of them.
  \<^item> \<open>Crawling\<close>, \<open>CrawlProps\<close>, \<open>CrawlFrame\<close> (\<open>crawling.rs\<close>): the lookups, what they return, and what
    they do to the node below them (locales \<open>spider_frame\<close>, \<open>spider_values\<close>).
  \<^item> \<open>Protocol\<close> (\<open>protocol/mod.rs\<close>, \<open>contacts.rs\<close>, \<open>welcome.rs\<close>), \<open>Client\<close> (\<open>client.rs\<close>), \<open>Handlers\<close>
    (\<open>handlers.rs\<close>, \<open>store_check.rs\<close>), \<open>Transport\<close> (\<open>transport.rs\<close>): one node, its state the
    record \<open>proto\<close>, one function per request, handler and task.
  \<^item> \<open>Network\<close> (\<open>network/mod.rs\<close>, \<open>read.rs\<close>, \<open>publish.rs\<close>, \<open>update.rs\<close>) and \<open>Maintenance\<close>
    (\<open>maintenance.rs\<close>): the record \<open>server\<close>, the operations of the user and the background loops.
  \<^item> \<open>NodeInv\<close>, \<open>NodeSteps\<close>, \<open>ServerSteps\<close>, \<open>NodeRuns\<close>: the invariant of a node, the abstract registers
    its storage implements, and the runs of a node. \<open>TransportProps\<close>, \<open>PublishProps\<close>,
    \<open>Reassembly\<close> and \<open>Exchange\<close>: properties of requests, publications, messages and of two nodes.
  \<^item> \<open>PyBindings\<close> (\<open>py_bindings.rs\<close>), \<open>Topology\<close> (\<open>examples/topology_analysis.rs\<close>), \<open>Testbed\<close>
    (\<open>testbed/node.rs\<close>, \<open>did.rs\<close>), \<open>Attacker\<close> (\<open>testbed/attacker.rs\<close>), \<open>Scripts\<close>
    (\<open>scripts/dht_node.rs\<close>, \<open>resilience_attacker.rs\<close>): the programs around the library.
\<close>

text \<open>
  \<^bold>\<open>Modelling.\<close>
  \<^item> A struct is a record, an enum a datatype, a hash map an association list with distinct keys
    or a partial function, a byte a word. Durations and instants are numbers of nanoseconds. Counters
    that wrap, message and fragment identifiers and the lengths on the wire are words; the byte
    counter of the storage is a number below \<open>2 ^ 64\<close>. The failures of a contact are a \<open>nat\<close>, where the code has
    a \<open>u32\<close>: each takes at least five seconds of backoff, so the \<open>u32\<close> does not overflow in 600 years.
  \<^item> Code of other crates is a parameter: hashes, signature schemes, JSON, base64 and UUIDs are the
    record \<open>deps\<close>, \<open>bincode\<close> and the socket the record \<open>world\<close>, key generators arguments. What is
    assumed of them is a hypothesis of the theorem that needs it: SHA-256 does not collide on the
    set \<open>S\<close> of inputs that occur (\<open>inj_on\<close>), \<open>carries\<close> for \<open>bincode\<close>, \<open>pqcrypto_ok\<close> for the sizes of the
    Dilithium keys and for signing and verifying with a generated pair.
  \<^item> Concurrency: a handler or task is a function of the state. It hands the node over where it
    awaits a call or the check of a signature and where it takes a lock again: the record \<open>env\<close> gives
    the state and the answer it continues with. Waiting for a lock that is free and sending to the
    socket are no such points. In \<open>node_runs\<close> an environment is itself made of runs of the same
    node, so tasks nest and interleave in any order; a call takes turns with the rest (\<open>call_runs\<close>).
    Concurrent requests of one operation end in an order the environment chooses.
  \<^item> Granularity: \<open>st_set\<close> and \<open>prune_retain\<close> are one step each, with one reading of the clock,
    since no other writer of the entry gets between under the lock of its shard; the accounting of bytes is
    proved for a pruning that other writes interrupt, entry by entry (C9).
  \<^item> The key of the issuer is an argument of \<open>did_handler\<close>. It is the same throughout a run of
    \<open>node_runs\<close>, hence in C2, C4 and C6; the handler of the code reads the file each time. C14 and C33 read it
    anew at each check.
  \<^item> A run starts with a new, empty storage. The state the code saves holds contacts and no records, so a
    restarted node starts so as well; a storage that a program fills before it starts the node is not covered.
  \<^item> File paths are compared as text. In \<open>Exchange\<close> the datagrams of one message are delivered at one instant
    with no other traffic between them; \<open>Reassembly\<close> has arbitrary traffic and time.
\<close>

text \<open>
  \<^bold>\<open>What is shown.\<close>
  \<^item> Routing: the table invariant in every reachable table (C3); what \<open>add_contact\<close> does, with its
    termination (C1); the exact answer of a neighbour query (C5); failures (C23, C24).
  \<^item> Storage: atomic insertion (C7), exact accounting under interleaved pruning (C9), time to live
    (C27, C29, C30).
  \<^item> Messages: the round trip through datagrams (C11) and its limit (C35), the timer (C37), the end of
    a call (C10), the kind of its answer (C20), and a request answered between two nodes (C8).
  \<^item> Records: the bytes a node accepts (C12), rotations (C13), the cache (C14, C33).
  \<^item> Lookups: termination and results (C16, C18, C19, C22); publications (C15, C17).
  \<^item> The whole node: its invariant (C4), its storage as authenticated registers (C2), what GET returns
    (C6), a forged STORE (C21), an UPDATE that overwrites a newer record (C36), peers with IPv6 addresses (C39).
  \<^item> Programs: C25, C26, C28, C31, C32, C34, C38, C40.

  \<^bold>\<open>Interfaces.\<close> The client of the lookups is proved once in \<open>spider_frame\<close>; the handlers, the operations and
  the loops once in \<open>rpc_env\<close>, for every environment that keeps the invariant. \<open>rpc_envI\<close> gives it for every
  environment of a run, and the induction over \<open>node_runs\<close> uses it in each step; \<open>quiet\<close> is its
  interpretation for a node that hears no answer.

  \<^bold>\<open>Termination.\<close> There is no fuel. The lookups and the other loops are total functions; a lookup ends because each round
  asks a peer not asked before among the finitely many identifiers. \<open>RoutingTable::insert\<close>
  is a \<^theory_text>\<open>partial_function (option)\<close>, and it is proved to return on every well-formed table. Loops that
  are meant to run forever are given by one turn.

  \<^bold>\<open>Not modelled.\<close> Sockets, worker tasks and logging; the JSON text and the file of the saved state; measured times and
  floating point; the periodic save and the runtime of the Python module; the packet socket and the environment
  variables of the programs; \<open>watch\<close> of the testbed; \<open>scripts/resilience_victim.rs\<close>, \<open>examples/publish_did.rs\<close> and
  \<open>examples/cache_bench.rs\<close>, which only call the library and print; the Python drivers of Docker containers; the tests.
\<close>

end
